(* ===== verification/Prelude.thy ===== *)
theory Prelude
  imports "HOL-Library.Word"
begin

unbundle bit_operations_syntax

text \<open>
  Shared ground of the development: the machine integers of the Rust code, byte literals, the
  big-endian and nibble conversions of the wire formats, and the generic list lemmas and
  theorem collections that the component theories use.
\<close>

section \<open>Machine integers and byte literals\<close>

type_synonym u8 = "8 word"
type_synonym u16 = "16 word"
type_synonym u64 = "64 word"

text \<open>
  A Rust \<open>Duration\<close> is a number of nanoseconds; \<open>from_secs\<close> and \<open>from_millis\<close> are the two
  constructors the code uses.
\<close>

type_synonym duration = nat

definition from_secs :: "nat \<Rightarrow> duration" where
  "from_secs s = s * 10 ^ 9"

definition from_millis :: "nat \<Rightarrow> duration" where
  "from_millis ms = ms * 10 ^ 6"

text \<open>\<open>chr8\<close> is the byte literal \<open>b'c'\<close>, \<open>ascii\<close> the byte string literal \<open>b"..."\<close>.\<close>

abbreviation chr8 :: "char \<Rightarrow> u8" where
  "chr8 c \<equiv> of_char c"

definition ascii :: "string \<Rightarrow> u8 list" where
  "ascii s = map of_char s"

lemma ascii_simps [simp]:
  "ascii [] = []"
  "ascii (c # cs) = chr8 c # ascii cs"
  by (simp_all add: ascii_def)

lemma length_ascii [simp]: "length (ascii s) = length s"
  by (simp add: ascii_def)

lemma ascii_append [simp]: "ascii (s @ t) = ascii s @ ascii t"
  by (simp add: ascii_def)

section \<open>Theorem collections\<close>

text \<open>
  \<open>wp_simps\<close> computes weakest preconditions of effectful programs, \<open>emits_rules\<close> carries
  claims about the calls a program makes, \<open>refines_rules\<close> relates effectful decoders to pure
  ones, \<open>sends_rules\<close> computes what a completed program has sent, and \<open>wire_simps\<close> unfolds wire formats.
\<close>

named_theorems wp_simps "weakest preconditions of the primitives and combinators"
named_theorems emits_rules "compositional rules for the events a program emits"
named_theorems refines_rules "compositional rules for decoders against pure parsers"
named_theorems sends_rules "compositional rules for the bytes a program sends"
named_theorems wire_simps "definitions and equations of the wire formats"

section \<open>Big-endian words and nibbles\<close>

definition be16_bytes :: "u16 \<Rightarrow> u8 list" where
  "be16_bytes x = [ucast (drop_bit 8 x), ucast x]"

definition be16 :: "u8 \<Rightarrow> u8 \<Rightarrow> u16" where
  "be16 hi lo = push_bit 8 (ucast hi) OR ucast lo"

lemma length_be16_bytes [simp]: "length (be16_bytes x) = 2"
  by (simp add: be16_bytes_def)

lemma be16_split [simp]: "be16 (ucast (drop_bit 8 x)) (ucast x) = (x :: u16)"
  unfolding be16_def
  by (rule bit_word_eqI) (auto simp: bit_simps)

lemma be16_high [simp]: "(ucast (drop_bit 8 (be16 hi lo)) :: u8) = hi"
  unfolding be16_def
  by (rule bit_word_eqI) (auto simp: bit_simps dest: bit_imp_le_length)

lemma be16_low [simp]: "(ucast (be16 hi lo) :: u8) = lo"
  unfolding be16_def
  by (rule bit_word_eqI) (auto simp: bit_simps dest: bit_imp_le_length)

lemma be16_bytes_be16 [simp]: "be16_bytes (be16 hi lo) = [hi, lo]"
  by (simp add: be16_bytes_def)

lemma be16_bytes_nth [simp]:
  "be16 (be16_bytes x ! 0) (be16_bytes x ! Suc 0) = x"
  by (simp add: be16_bytes_def)

text \<open>The two halves of a byte, and \<open>(high << 4) | low\<close> that joins them again.\<close>

definition high_nibble :: "u8 \<Rightarrow> u8" where
  "high_nibble b = drop_bit 4 b"

definition low_nibble :: "u8 \<Rightarrow> u8" where
  "low_nibble b = b AND 0x0f"

definition join_nibbles :: "u8 \<Rightarrow> u8 \<Rightarrow> u8" where
  "join_nibbles high low = push_bit 4 high OR low"

lemma high_nibble_less: "high_nibble b < 16"
proof -
  have "unat (high_nibble b) = unat b div 16"
    by (simp add: high_nibble_def drop_bit_eq_div unat_div)
  also have "\<dots> < 16"
    using unsigned_less [of b, where ?'a = nat] by simp
  finally show ?thesis
    by (simp add: word_less_nat_alt)
qed

lemma low_nibble_less: "low_nibble b < 16"
proof -
  have "low_nibble b \<le> 15"
    unfolding low_nibble_def by (rule word_and_le1)
  then show ?thesis
    by (simp add: word_le_nat_alt word_less_nat_alt)
qed

lemma join_nibbles_split [simp]: "join_nibbles (high_nibble b) (low_nibble b) = b"
proof -
  have "(0x0f :: u8) = mask 4"
    by (simp add: mask_eq_exp_minus_1)
  then show ?thesis
    unfolding join_nibbles_def high_nibble_def low_nibble_def
    by (intro bit_word_eqI)
      (auto simp only: bit_simps possible_bit_word o_apply le_add_diff_inverse linorder_not_le)
qed

section \<open>Lists\<close>

lemma map_index_take: "n \<le> length xs \<Longrightarrow> map (\<lambda>i. xs ! i) [0..<n] = take n xs"
  by (rule nth_equalityI) simp_all

lemma take_append_length [simp]: "take (length xs) (xs @ ys) = xs"
  by simp

lemma take_Suc_0_Cons [simp]: "take (Suc 0) (x # xs) = [x]"
  by simp

lemma length_eq_4_conv:
  "length xs = 4 \<longleftrightarrow> (\<exists>a b c d. xs = [a, b, c, d])"
  by (auto simp: numeral_eq_Suc length_Suc_conv)

lemma length_1_nth: "length xs = Suc 0 \<Longrightarrow> [xs ! 0] = xs"
  by (cases xs) auto

lemma length_2_nth: "length xs = 2 \<Longrightarrow> [xs ! 0, xs ! Suc 0] = xs"
  by (cases xs; cases "tl xs") auto

end
