(* ===== verification/RustStd.thy ===== *)
theory RustStd
  imports Prelude
begin

text \<open>
  The parts of the Rust standard library the program computes with: UTF-8 validation
  (\<open>String::from_utf8\<close>), \<open>str::trim\<close>, integer parsing and formatting, the address types of
  \<open>std::net\<close> with their classification predicates, and \<open>std::io::ErrorKind\<close>.
  A Rust \<open>String\<close> or \<open>&str\<close> is represented by its UTF-8 bytes, so \<open>len()\<close> and \<open>as_bytes()\<close>
  are the list length and the identity.
\<close>

section \<open>Results\<close>

text \<open>\<open>?\<close> on a \<open>Result\<close> outside of \<open>async\<close> code, and \<open>ok_or\<close>.\<close>

definition res_then :: "'e + 'a \<Rightarrow> ('a \<Rightarrow> 'e + 'b) \<Rightarrow> 'e + 'b" where
  "res_then r f = (case r of Inl e \<Rightarrow> Inl e | Inr x \<Rightarrow> f x)"

definition ok_or :: "'e \<Rightarrow> 'a option \<Rightarrow> 'e + 'a" where
  "ok_or e v = (case v of None \<Rightarrow> Inl e | Some x \<Rightarrow> Inr x)"

lemma res_then_simps [simp]: "res_then (Inl e) f = Inl e" "res_then (Inr x) f = f x"
  by (simp_all add: res_then_def)

lemma res_then_Inr: "res_then r f = Inr y \<longleftrightarrow> (\<exists>x. r = Inr x \<and> f x = Inr y)"
  by (cases r) auto

lemma ok_or_simps [simp]: "ok_or e None = Inl e" "ok_or e (Some x) = Inr x"
  by (simp_all add: ok_or_def)

lemma ok_or_Inr: "ok_or e v = Inr x \<longleftrightarrow> v = Some x"
  by (cases v) auto

section \<open>Strings\<close>

type_synonym rstring = "u8 list"

definition utf8_cont :: "u8 \<Rightarrow> bool" where
  "utf8_cont b \<longleftrightarrow> 0x80 \<le> b \<and> b \<le> 0xBF"

text \<open>Well-formed UTF-8: no overlong forms, no surrogates, nothing above U+10FFFF.\<close>

fun valid_utf8 :: "u8 list \<Rightarrow> bool" where
  "valid_utf8 [] = True"
| "valid_utf8 (a # bs) =
    (if a < 0x80 then valid_utf8 bs
     else if 0xC2 \<le> a \<and> a \<le> 0xDF then
       (case bs of b # r \<Rightarrow> utf8_cont b \<and> valid_utf8 r | _ \<Rightarrow> False)
     else if 0xE0 \<le> a \<and> a \<le> 0xEF then
       (case bs of b # c # r \<Rightarrow>
          (if a = 0xE0 then 0xA0 \<le> b \<and> b \<le> 0xBF
           else if a = 0xED then 0x80 \<le> b \<and> b \<le> 0x9F
           else utf8_cont b) \<and> utf8_cont c \<and> valid_utf8 r
        | _ \<Rightarrow> False)
     else if 0xF0 \<le> a \<and> a \<le> 0xF4 then
       (case bs of b # c # d # r \<Rightarrow>
          (if a = 0xF0 then 0x90 \<le> b \<and> b \<le> 0xBF
           else if a = 0xF4 then 0x80 \<le> b \<and> b \<le> 0x8F
           else utf8_cont b) \<and> utf8_cont c \<and> utf8_cont d \<and> valid_utf8 r
        | _ \<Rightarrow> False)
     else False)"

definition from_utf8 :: "u8 list \<Rightarrow> rstring option" where
  "from_utf8 bs = (if valid_utf8 bs then Some bs else None)"

lemma from_utf8_Some [simp]: "from_utf8 bs = Some s \<longleftrightarrow> s = bs \<and> valid_utf8 bs"
  by (auto simp: from_utf8_def)

lemma from_utf8_None [simp]: "from_utf8 bs = None \<longleftrightarrow> \<not> valid_utf8 bs"
  by (simp add: from_utf8_def)

lemma valid_utf8_ascii_bytes: "(\<And>b. b \<in> set bs \<Longrightarrow> b < 0x80) \<Longrightarrow> valid_utf8 bs"
  by (induction bs) auto

text \<open>\<open>u8::is_ascii_control\<close>, \<open>u8::is_ascii_whitespace\<close>, \<open>eq_ignore_ascii_case\<close>.\<close>

definition is_ascii_control :: "u8 \<Rightarrow> bool" where
  "is_ascii_control b \<longleftrightarrow> b < 0x20 \<or> b = 0x7F"

definition is_ascii_whitespace :: "u8 \<Rightarrow> bool" where
  "is_ascii_whitespace b \<longleftrightarrow> b = 0x20 \<or> b = 0x09 \<or> b = 0x0A \<or> b = 0x0C \<or> b = 0x0D"

definition to_ascii_lowercase :: "u8 \<Rightarrow> u8" where
  "to_ascii_lowercase b = (if 0x41 \<le> b \<and> b \<le> 0x5A then b + 0x20 else b)"

definition eq_ignore_ascii_case :: "rstring \<Rightarrow> rstring \<Rightarrow> bool" where
  "eq_ignore_ascii_case s t \<longleftrightarrow> map to_ascii_lowercase s = map to_ascii_lowercase t"

text \<open>
  \<open>str::trim\<close> removes the characters with the Unicode property White_Space at both ends. On
  UTF-8 bytes these are the one-, two- and three-byte sequences below; the second function
  reads the same sequences backwards.
\<close>

fun trim_start :: "rstring \<Rightarrow> rstring" where
  "trim_start (a # bs) =
    (if (0x09 \<le> a \<and> a \<le> 0x0D) \<or> a = 0x20 then trim_start bs
     else if a = 0xC2 then
       (case bs of b # r \<Rightarrow> if b = 0x85 \<or> b = 0xA0 then trim_start r else a # bs | _ \<Rightarrow> a # bs)
     else (case bs of
         b # c # r \<Rightarrow>
           if (a = 0xE1 \<and> b = 0x9A \<and> c = 0x80)
            \<or> (a = 0xE2 \<and> b = 0x80 \<and> ((0x80 \<le> c \<and> c \<le> 0x8A) \<or> c = 0xA8 \<or> c = 0xA9 \<or> c = 0xAF))
            \<or> (a = 0xE2 \<and> b = 0x81 \<and> c = 0x9F)
            \<or> (a = 0xE3 \<and> b = 0x80 \<and> c = 0x80)
           then trim_start r else a # bs
       | _ \<Rightarrow> a # bs))"
| "trim_start [] = []"

fun trim_start_rev :: "u8 list \<Rightarrow> u8 list" where
  "trim_start_rev (a # bs) =
    (if (0x09 \<le> a \<and> a \<le> 0x0D) \<or> a = 0x20 then trim_start_rev bs
     else (case bs of
         b # r \<Rightarrow>
           if b = 0xC2 \<and> (a = 0x85 \<or> a = 0xA0) then trim_start_rev r
           else (case r of
               c # q \<Rightarrow>
                 if (c = 0xE1 \<and> b = 0x9A \<and> a = 0x80)
                  \<or> (c = 0xE2 \<and> b = 0x80 \<and> ((0x80 \<le> a \<and> a \<le> 0x8A) \<or> a = 0xA8 \<or> a = 0xA9 \<or> a = 0xAF))
                  \<or> (c = 0xE2 \<and> b = 0x81 \<and> a = 0x9F)
                  \<or> (c = 0xE3 \<and> b = 0x80 \<and> a = 0x80)
                 then trim_start_rev q else a # bs
             | _ \<Rightarrow> a # bs)
       | _ \<Rightarrow> a # bs))"
| "trim_start_rev [] = []"

definition trim :: "rstring \<Rightarrow> rstring" where
  "trim s = rev (trim_start_rev (rev (trim_start s)))"

text \<open>\<open>str::split\<close> at a byte: always at least one piece.\<close>

fun split_on :: "u8 \<Rightarrow> rstring \<Rightarrow> rstring list" where
  "split_on d [] = [[]]"
| "split_on d (b # bs) =
    (if b = d then [] # split_on d bs
     else (case split_on d bs of p # ps \<Rightarrow> (b # p) # ps | [] \<Rightarrow> [[b]]))"

lemma split_on_not_Nil [simp]: "split_on d bs \<noteq> []"
  by (induction bs) (auto split: list.splits)

fun starts_with :: "rstring \<Rightarrow> rstring \<Rightarrow> bool" where
  "starts_with s [] = True"
| "starts_with (b # bs) (p # ps) = (b = p \<and> starts_with bs ps)"
| "starts_with [] (p # ps) = False"

lemma starts_with_iff: "starts_with s p \<longleftrightarrow> (\<exists>r. s = p @ r)"
  by (induction s p rule: starts_with.induct) auto

definition ends_with :: "rstring \<Rightarrow> rstring \<Rightarrow> bool" where
  "ends_with s p \<longleftrightarrow> starts_with (rev s) (rev p)"

lemma ends_with_single: "ends_with s [b] \<longleftrightarrow> s \<noteq> [] \<and> last s = b"
  by (cases s rule: rev_cases) (auto simp: ends_with_def)

text \<open>\<open>Iterator::position\<close> and \<open>rposition\<close>.\<close>

fun position :: "('a \<Rightarrow> bool) \<Rightarrow> 'a list \<Rightarrow> nat option" where
  "position P [] = None"
| "position P (x # xs) = (if P x then Some 0 else map_option Suc (position P xs))"

definition rposition :: "('a \<Rightarrow> bool) \<Rightarrow> 'a list \<Rightarrow> nat option" where
  "rposition P xs = map_option (\<lambda>i. length xs - 1 - i) (position P (rev xs))"

lemma position_None: "position P xs = None \<longleftrightarrow> list_all (\<lambda>x. \<not> P x) xs"
  by (induction xs) auto

lemma position_Some:
  "position P xs = Some i \<longleftrightarrow> i < length xs \<and> P (xs ! i) \<and> i = length (takeWhile (\<lambda>x. \<not> P x) xs)"
proof (induction xs arbitrary: i)
  case (Cons x xs)
  then show ?case
    by (cases i) auto
qed simp

section \<open>Integers as text\<close>

definition is_digit :: "u8 \<Rightarrow> bool" where
  "is_digit b \<longleftrightarrow> 0x30 \<le> b \<and> b \<le> 0x39"

definition digits_value :: "u8 list \<Rightarrow> nat" where
  "digits_value ds = foldl (\<lambda>a d. a * 10 + unat (d - 0x30)) 0 ds"

text \<open>
  \<open>str::parse\<close> for an unsigned type with maximum \<open>m\<close>: one leading plus sign is allowed, at
  least one digit is needed, and a value above the maximum is an error.
\<close>

definition parse_unsigned :: "nat \<Rightarrow> rstring \<Rightarrow> nat option" where
  "parse_unsigned m s =
    (let ds = (case s of b # r \<Rightarrow> if b = chr8 CHR ''+'' then r else s | [] \<Rightarrow> [])
     in if ds = [] \<or> \<not> list_all is_digit ds then None
        else if digits_value ds \<le> m then Some (digits_value ds) else None)"

definition u64_max :: nat where
  "u64_max = 2 ^ 64 - 1"

text \<open>The formats \<open>{}\<close> and \<open>{:x}\<close> of an unsigned integer.\<close>

fun show_dec :: "nat \<Rightarrow> rstring" where
  "show_dec n = (if n < 10 then [0x30 + of_nat n]
                 else show_dec (n div 10) @ [0x30 + of_nat (n mod 10)])"

definition hex_digit :: "nat \<Rightarrow> u8" where
  "hex_digit d = (if d < 10 then 0x30 + of_nat d else 0x57 + of_nat d)"

fun show_hex :: "nat \<Rightarrow> rstring" where
  "show_hex n = (if n < 16 then [hex_digit n]
                 else show_hex (n div 16) @ [hex_digit (n mod 16)])"

declare show_dec.simps [simp del] show_hex.simps [simp del]

lemma show_dec_not_Nil [simp]: "show_dec n \<noteq> []"
  by (subst show_dec.simps) simp

lemma show_hex_not_Nil [simp]: "show_hex n \<noteq> []"
  by (subst show_hex.simps) simp

lemma digits_value_snoc [simp]:
  "digits_value (ds @ [d]) = digits_value ds * 10 + unat (d - 0x30)"
  by (simp add: digits_value_def)

lemma unat_digit [simp]: "d < 10 \<Longrightarrow> unat (of_nat d :: u8) = d"
  by (simp add: unat_of_nat)

lemma digit_cases:
  "d < (10 :: nat) \<Longrightarrow> d \<in> {0, 1, 2, 3, 4, 5, 6, 7, 8, 9}"
  by auto

lemma is_digit_of_nat: "d < 10 \<Longrightarrow> is_digit (0x30 + of_nat d)"
  by (drule digit_cases) (auto simp: is_digit_def)

lemma digits_value_single [simp]: "digits_value [d] = unat (d - 0x30)"
  by (simp add: digits_value_def)

lemma digits_value_show_dec [simp]: "digits_value (show_dec n) = n"
proof (induction n rule: show_dec.induct)
  case (1 n)
  then show ?case
    by (subst show_dec.simps) simp
qed

lemma show_dec_digits: "list_all is_digit (show_dec n)"
proof (induction n rule: show_dec.induct)
  case (1 n)
  then show ?case
    by (subst show_dec.simps) (simp add: is_digit_of_nat)
qed

lemma parse_unsigned_show_dec: "n \<le> m \<Longrightarrow> parse_unsigned m (show_dec n) = Some n"
  using show_dec_digits [of n]
  by (cases "show_dec n")
    (auto simp: parse_unsigned_def is_digit_def Let_def dest: arg_cong [where f = digits_value])

end
