(* ===== verification/RustNet.thy ===== *)
theory RustNet
  imports RustStd
begin

unbundle bit_operations_syntax

text \<open>
  \<open>std::net\<close>: the address types, their octets and segments, and the classification predicates
  (\<open>is_private\<close>, \<open>is_loopback\<close>, ...) that the exit server's target policy is built from; and
  the kinds of \<open>std::io::Error\<close> the code distinguishes.
\<close>

section \<open>Addresses\<close>

datatype Ipv4Addr = Ipv4 u8 u8 u8 u8

datatype Ipv6Addr = Ipv6 u16 u16 u16 u16 u16 u16 u16 u16

datatype IpAddr = V4 Ipv4Addr | V6 Ipv6Addr

datatype SocketAddr = SocketAddr (sa_ip: IpAddr) (sa_port: u16)

fun ipv4_octets :: "Ipv4Addr \<Rightarrow> u8 list" where
  "ipv4_octets (Ipv4 a b c d) = [a, b, c, d]"

definition ipv4_from :: "u8 list \<Rightarrow> Ipv4Addr" where
  "ipv4_from bs = Ipv4 (bs ! 0) (bs ! 1) (bs ! 2) (bs ! 3)"

fun ipv6_segments :: "Ipv6Addr \<Rightarrow> u16 list" where
  "ipv6_segments (Ipv6 a b c d e f g h) = [a, b, c, d, e, f, g, h]"

definition ipv6_octets :: "Ipv6Addr \<Rightarrow> u8 list" where
  "ipv6_octets ip = concat (map be16_bytes (ipv6_segments ip))"

definition ipv6_from :: "u8 list \<Rightarrow> Ipv6Addr" where
  "ipv6_from bs =
    Ipv6 (be16 (bs ! 0) (bs ! 1)) (be16 (bs ! 2) (bs ! 3)) (be16 (bs ! 4) (bs ! 5))
      (be16 (bs ! 6) (bs ! 7)) (be16 (bs ! 8) (bs ! 9)) (be16 (bs ! 10) (bs ! 11))
      (be16 (bs ! 12) (bs ! 13)) (be16 (bs ! 14) (bs ! 15))"

lemma length_ipv4_octets [simp]: "length (ipv4_octets ip) = 4"
  by (cases ip) simp

lemma length_ipv6_octets [simp]: "length (ipv6_octets ip) = 16"
  by (cases ip) (simp add: ipv6_octets_def)

lemma ipv4_from_octets [simp]: "ipv4_from (ipv4_octets ip) = ip"
  by (cases ip) (simp add: ipv4_from_def)

lemma ipv4_octets_from [simp]: "length bs = 4 \<Longrightarrow> ipv4_octets (ipv4_from bs) = bs"
  by (auto simp: ipv4_from_def length_eq_4_conv)

lemma ipv6_from_octets [simp]: "ipv6_from (ipv6_octets ip) = ip"
  by (cases ip) (simp add: ipv6_from_def ipv6_octets_def be16_bytes_def)

lemma ipv6_octets_from [simp]:
  assumes "length bs = 16"
  shows "ipv6_octets (ipv6_from bs) = bs"
proof -
  have "ipv6_octets (ipv6_from bs) = map (\<lambda>i. bs ! i) [0..<16]"
    by (simp add: ipv6_from_def ipv6_octets_def upt_rec numeral_eq_Suc)
  also have "\<dots> = bs"
    using assms by (simp add: map_index_take)
  finally show ?thesis .
qed

section \<open>Classification of IPv4 addresses\<close>

fun ipv4_is_private :: "Ipv4Addr \<Rightarrow> bool" where
  "ipv4_is_private (Ipv4 a b c d) \<longleftrightarrow>
    a = 10 \<or> (a = 172 \<and> 16 \<le> b \<and> b \<le> 31) \<or> (a = 192 \<and> b = 168)"

fun ipv4_is_loopback :: "Ipv4Addr \<Rightarrow> bool" where
  "ipv4_is_loopback (Ipv4 a b c d) \<longleftrightarrow> a = 127"

fun ipv4_is_link_local :: "Ipv4Addr \<Rightarrow> bool" where
  "ipv4_is_link_local (Ipv4 a b c d) \<longleftrightarrow> a = 169 \<and> b = 254"

fun ipv4_is_multicast :: "Ipv4Addr \<Rightarrow> bool" where
  "ipv4_is_multicast (Ipv4 a b c d) \<longleftrightarrow> 224 \<le> a \<and> a \<le> 239"

fun ipv4_is_unspecified :: "Ipv4Addr \<Rightarrow> bool" where
  "ipv4_is_unspecified (Ipv4 a b c d) \<longleftrightarrow> a = 0 \<and> b = 0 \<and> c = 0 \<and> d = 0"

fun ipv4_is_broadcast :: "Ipv4Addr \<Rightarrow> bool" where
  "ipv4_is_broadcast (Ipv4 a b c d) \<longleftrightarrow> a = 255 \<and> b = 255 \<and> c = 255 \<and> d = 255"

section \<open>Classification of IPv6 addresses\<close>

fun ipv6_is_loopback :: "Ipv6Addr \<Rightarrow> bool" where
  "ipv6_is_loopback ip \<longleftrightarrow> ip = Ipv6 0 0 0 0 0 0 0 1"

fun ipv6_is_unspecified :: "Ipv6Addr \<Rightarrow> bool" where
  "ipv6_is_unspecified ip \<longleftrightarrow> ip = Ipv6 0 0 0 0 0 0 0 0"

fun ipv6_is_multicast :: "Ipv6Addr \<Rightarrow> bool" where
  "ipv6_is_multicast (Ipv6 a b c d e f g h) \<longleftrightarrow> a AND 0xff00 = 0xff00"

fun ipv6_is_unique_local :: "Ipv6Addr \<Rightarrow> bool" where
  "ipv6_is_unique_local (Ipv6 a b c d e f g h) \<longleftrightarrow> a AND 0xfe00 = 0xfc00"

text \<open>\<open>to_ipv4_mapped\<close>: the addresses \<open>::ffff:a.b.c.d\<close>.\<close>

fun to_ipv4_mapped :: "Ipv6Addr \<Rightarrow> Ipv4Addr option" where
  "to_ipv4_mapped (Ipv6 a b c d e f g h) =
    (if a = 0 \<and> b = 0 \<and> c = 0 \<and> d = 0 \<and> e = 0 \<and> f = 0xffff
     then Some (Ipv4 (ucast (drop_bit 8 g)) (ucast g) (ucast (drop_bit 8 h)) (ucast h))
     else None)"

text \<open>The converse embedding \<open>Ipv4Addr::to_ipv6_mapped\<close>, used to state what mapping means.\<close>

fun to_ipv6_mapped :: "Ipv4Addr \<Rightarrow> Ipv6Addr" where
  "to_ipv6_mapped (Ipv4 a b c d) = Ipv6 0 0 0 0 0 0xffff (be16 a b) (be16 c d)"

lemma to_ipv4_mapped_Some [simp]: "to_ipv4_mapped (to_ipv6_mapped ip) = Some ip"
  by (cases ip) simp

lemma to_ipv4_mapped_iff: "to_ipv4_mapped ip = Some v \<longleftrightarrow> ip = to_ipv6_mapped v"
  by (cases ip; cases v) auto

section \<open>I/O errors\<close>

text \<open>
  A \<open>std::io::Error\<close> is represented by its kind. Errors of the QUIC streams that pass through
  the I/O traits arrive as such kinds too.
\<close>

datatype io_error =
    ConnectionRefused
  | NotFound
  | TimedOut
  | AddrNotAvailable
  | NetworkUnreachable
  | UnexpectedEof
  | AlreadyExists
  | OtherKind nat

end
