(* ===== verification/Effects.thy ===== *)
theory Effects
  imports RustNet
begin

text \<open>
  How an \<open>async\<close> function of the program is modelled.

  The program computes by calling third-party code: tokio's I/O traits and timers, the iroh
  transport, the DNS resolver. None of that is under \<open>src/\<close>, so it is a parameter: a record
  \<open>env\<close> of operations over a world of unknown type \<open>'w\<close>, with handles \<open>'h\<close> for streams. A
  function of the program is then an \<open>act\<close>: from the world it computes an outcome, the next
  world, and the list of events, that is the calls it made with their results, in order.

  The outcome \<open>Hang\<close> is a future that does not resolve: under a timeout it elapses, outside of
  one the task waits for ever. Theorems that mention no law of the environment hold for every
  behaviour of the third-party code; the laws other theorems need are the locales at the end.
\<close>

section \<open>Outcomes and acts\<close>

datatype ('e, 'a) outcome = Done 'a | Fail 'e | Hang

text \<open>The result of awaiting a future under \<open>tokio::time::timeout\<close>.\<close>

datatype ('e, 'a) timed = Completed "'e + 'a" | Elapsed

text \<open>
  What one poll of \<open>tokio::io::copy\<close> can report: bytes were moved from the reader to the writer,
  or the reader is at its end and the writer is flushed. A poll that is pending is \<open>Hang\<close>.
\<close>

datatype copy_progress = Moved "u8 list" | AtEnd

text \<open>
  A request to the provider as \<open>reqwest\<close> is given it. The URL is its serialisation; headers are in
  the order of \<open>header\<close> calls.
\<close>

record provider_request =
  pr_method :: rstring
  pr_url :: rstring
  pr_headers :: "(rstring \<times> u8 list) list"
  pr_body :: "u8 list"

text \<open>
  \<open>Open_bi_ev\<close> is a new stream on the one connection a SOCKS client has, \<open>Open_stream_ev\<close> one on the
  named connection, \<open>Dial_ev\<close> a new connection; \<open>Provider_chunk_ev\<close> is the next chunk of a response.
\<close>

datatype 'h event =
    Read_exact_ev 'h nat "(io_error, u8 list) outcome"
  | Read_ev 'h "(io_error, u8 list) outcome"
  | Fill_buf_ev 'h "(io_error, u8 list) outcome"
  | Consume_ev 'h nat
  | Write_all_ev 'h "u8 list" "(io_error, unit) outcome"
  | Flush_ev 'h "(io_error, unit) outcome"
  | Finish_ev 'h "(io_error, unit) outcome"
  | Shutdown_ev 'h "(io_error, unit) outcome"
  | Copy_ev 'h 'h "(io_error, copy_progress) outcome"
  | Deadline_ev "duration option"
  | Lookup_host_ev rstring u16 "(io_error, SocketAddr list) outcome"
  | Tcp_connect_ev SocketAddr "(io_error, 'h) outcome"
  | Open_bi_ev "(io_error, 'h \<times> 'h) outcome"
  | Dial_ev "(io_error, 'h) outcome"
  | Open_stream_ev 'h "(io_error, 'h \<times> 'h) outcome"
  | Provider_send_ev provider_request "(io_error, 'h) outcome"
  | Provider_chunk_ev 'h "(io_error, u8 list option) outcome"

type_synonym ('w, 'h, 'e, 'a) act = "'w \<Rightarrow> ('e, 'a) outcome \<times> 'w \<times> 'h event list"

definition ret :: "'a \<Rightarrow> ('w, 'h, 'e, 'a) act" where
  "ret x w = (Done x, w, [])"

definition raise :: "'e \<Rightarrow> ('w, 'h, 'e, 'a) act" where
  "raise e w = (Fail e, w, [])"

text \<open>Sequencing with \<open>?\<close>: an error or a future that hangs ends the function.\<close>

definition andthen ::
  "('w, 'h, 'e, 'a) act \<Rightarrow> ('a \<Rightarrow> ('w, 'h, 'e, 'b) act) \<Rightarrow> ('w, 'h, 'e, 'b) act" where
  "andthen m f w =
    (case m w of
       (Done x, w1, es1) \<Rightarrow> (case f x w1 of (r, w2, es2) \<Rightarrow> (r, w2, es1 @ es2))
     | (Fail e, w1, es1) \<Rightarrow> (Fail e, w1, es1)
     | (Hang, w1, es1) \<Rightarrow> (Hang, w1, es1))"

text \<open>\<open>map_err\<close>, and the conversion \<open>From\<close> that \<open>?\<close> applies to an error.\<close>

definition map_err :: "('e \<Rightarrow> 'f) \<Rightarrow> ('w, 'h, 'e, 'a) act \<Rightarrow> ('w, 'h, 'f, 'a) act" where
  "map_err g m w = (case m w of (r, w1, es) \<Rightarrow> (map_outcome g id r, w1, es))"

text \<open>A \<open>match\<close> on the \<open>Result\<close> of a future, instead of \<open>?\<close>.\<close>

definition attempt :: "('w, 'h, 'e, 'a) act \<Rightarrow> ('w, 'h, 'f, 'e + 'a) act" where
  "attempt m w =
    (case m w of
       (Done x, w1, es) \<Rightarrow> (Done (Inr x), w1, es)
     | (Fail e, w1, es) \<Rightarrow> (Done (Inl e), w1, es)
     | (Hang, w1, es) \<Rightarrow> (Hang, w1, es))"

text \<open>\<open>let _ = fut.await\<close>: the result, error or not, is dropped.\<close>

definition ignore :: "('w, 'h, 'e, 'a) act \<Rightarrow> ('w, 'h, 'f, unit) act" where
  "ignore m = andthen (attempt m) (\<lambda>_. ret ())"

section \<open>The environment\<close>

text \<open>
  The operations of the third-party code, as parameters. \<open>op_read_exact h n\<close> fills a buffer
  of \<open>n\<close> bytes: it gives the buffer by index. \<open>op_deadline\<close> tells the environment which
  deadline is in force, so that it can let the operations under it hang.
\<close>

record ('w, 'h) env =
  op_deadline :: "duration option \<Rightarrow> 'w \<Rightarrow> 'w"
  op_read_exact :: "'h \<Rightarrow> nat \<Rightarrow> 'w \<Rightarrow> (io_error, nat \<Rightarrow> u8) outcome \<times> 'w"
  op_read :: "'h \<Rightarrow> 'w \<Rightarrow> (io_error, u8 list) outcome \<times> 'w"
  op_fill_buf :: "'h \<Rightarrow> 'w \<Rightarrow> (io_error, u8 list) outcome \<times> 'w"
  op_consume :: "'h \<Rightarrow> nat \<Rightarrow> 'w \<Rightarrow> 'w"
  op_buffer :: "'h \<Rightarrow> 'w \<Rightarrow> u8 list"
  op_write_all :: "'h \<Rightarrow> u8 list \<Rightarrow> 'w \<Rightarrow> (io_error, unit) outcome \<times> 'w"
  op_flush :: "'h \<Rightarrow> 'w \<Rightarrow> (io_error, unit) outcome \<times> 'w"
  op_finish :: "'h \<Rightarrow> 'w \<Rightarrow> (io_error, unit) outcome \<times> 'w"
  op_shutdown :: "'h \<Rightarrow> 'w \<Rightarrow> (io_error, unit) outcome \<times> 'w"
  op_copy_step :: "'h \<Rightarrow> 'h \<Rightarrow> 'w \<Rightarrow> (io_error, copy_progress) outcome \<times> 'w"
  op_lookup_host :: "rstring \<Rightarrow> u16 \<Rightarrow> 'w \<Rightarrow> (io_error, SocketAddr list) outcome \<times> 'w"
  op_tcp_connect :: "SocketAddr \<Rightarrow> 'w \<Rightarrow> (io_error, 'h) outcome \<times> 'w"
  op_open_bi :: "'w \<Rightarrow> (io_error, 'h \<times> 'h) outcome \<times> 'w"
  op_dial :: "'w \<Rightarrow> (io_error, 'h) outcome \<times> 'w"
  op_open_stream :: "'h \<Rightarrow> 'w \<Rightarrow> (io_error, 'h \<times> 'h) outcome \<times> 'w"
  op_provider_send :: "provider_request \<Rightarrow> 'w \<Rightarrow> (io_error, 'h) outcome \<times> 'w"
  op_provider_chunk :: "'h \<Rightarrow> 'w \<Rightarrow> (io_error, u8 list option) outcome \<times> 'w"

definition call ::
  "(('e, 'a) outcome \<Rightarrow> 'h event) \<Rightarrow> ('w \<Rightarrow> ('e, 'a) outcome \<times> 'w) \<Rightarrow> ('w, 'h, 'e, 'a) act" where
  "call ev f w = (case f w of (r, w1) \<Rightarrow> (r, w1, [ev r]))"

definition read_exact :: "('w, 'h, 'z) env_scheme \<Rightarrow> 'h \<Rightarrow> nat \<Rightarrow> ('w, 'h, io_error, u8 list) act" where
  "read_exact E h n =
    call (Read_exact_ev h n)
      (\<lambda>w. case op_read_exact E h n w of
         (r, w1) \<Rightarrow> (map_outcome id (\<lambda>f. map f [0..<n]) r, w1))"

text \<open>\<open>read_u8\<close> and \<open>read_u16\<close> are documented as big-endian reads of one and two bytes.\<close>

definition read_u8 :: "('w, 'h, 'z) env_scheme \<Rightarrow> 'h \<Rightarrow> ('w, 'h, io_error, u8) act" where
  "read_u8 E h = andthen (read_exact E h 1) (\<lambda>bs. ret (bs ! 0))"

definition read_u16 :: "('w, 'h, 'z) env_scheme \<Rightarrow> 'h \<Rightarrow> ('w, 'h, io_error, u16) act" where
  "read_u16 E h = andthen (read_exact E h 2) (\<lambda>bs. ret (be16 (bs ! 0) (bs ! 1)))"

definition read_some :: "('w, 'h, 'z) env_scheme \<Rightarrow> 'h \<Rightarrow> ('w, 'h, io_error, u8 list) act" where
  "read_some E h = call (Read_ev h) (op_read E h)"

definition fill_buf :: "('w, 'h, 'z) env_scheme \<Rightarrow> 'h \<Rightarrow> ('w, 'h, io_error, u8 list) act" where
  "fill_buf E h = call (Fill_buf_ev h) (op_fill_buf E h)"

definition consume :: "('w, 'h, 'z) env_scheme \<Rightarrow> 'h \<Rightarrow> nat \<Rightarrow> ('w, 'h, 'e, unit) act" where
  "consume E h n w = (Done (), op_consume E h n w, [Consume_ev h n])"

definition write_all :: "('w, 'h, 'z) env_scheme \<Rightarrow> 'h \<Rightarrow> u8 list \<Rightarrow> ('w, 'h, io_error, unit) act" where
  "write_all E h bs = call (Write_all_ev h bs) (op_write_all E h bs)"

definition write_u8 :: "('w, 'h, 'z) env_scheme \<Rightarrow> 'h \<Rightarrow> u8 \<Rightarrow> ('w, 'h, io_error, unit) act" where
  "write_u8 E h b = write_all E h [b]"

definition write_u16 :: "('w, 'h, 'z) env_scheme \<Rightarrow> 'h \<Rightarrow> u16 \<Rightarrow> ('w, 'h, io_error, unit) act" where
  "write_u16 E h x = write_all E h (be16_bytes x)"

definition flush :: "('w, 'h, 'z) env_scheme \<Rightarrow> 'h \<Rightarrow> ('w, 'h, io_error, unit) act" where
  "flush E h = call (Flush_ev h) (op_flush E h)"

definition finish :: "('w, 'h, 'z) env_scheme \<Rightarrow> 'h \<Rightarrow> ('w, 'h, io_error, unit) act" where
  "finish E h = call (Finish_ev h) (op_finish E h)"

definition shutdown :: "('w, 'h, 'z) env_scheme \<Rightarrow> 'h \<Rightarrow> ('w, 'h, io_error, unit) act" where
  "shutdown E h = call (Shutdown_ev h) (op_shutdown E h)"

definition copy_step ::
  "('w, 'h, 'z) env_scheme \<Rightarrow> 'h \<Rightarrow> 'h \<Rightarrow> ('w, 'h, io_error, copy_progress) act" where
  "copy_step E src dst = call (Copy_ev src dst) (op_copy_step E src dst)"

definition lookup_host ::
  "('w, 'h, 'z) env_scheme \<Rightarrow> rstring \<Rightarrow> u16 \<Rightarrow> ('w, 'h, io_error, SocketAddr list) act" where
  "lookup_host E d p = call (Lookup_host_ev d p) (op_lookup_host E d p)"

definition tcp_connect :: "('w, 'h, 'z) env_scheme \<Rightarrow> SocketAddr \<Rightarrow> ('w, 'h, io_error, 'h) act" where
  "tcp_connect E a = call (Tcp_connect_ev a) (op_tcp_connect E a)"

definition open_bi :: "('w, 'h, 'z) env_scheme \<Rightarrow> ('w, 'h, io_error, 'h \<times> 'h) act" where
  "open_bi E = call Open_bi_ev (op_open_bi E)"

definition dial :: "('w, 'h, 'z) env_scheme \<Rightarrow> ('w, 'h, io_error, 'h) act" where
  "dial E = call Dial_ev (op_dial E)"

definition open_stream :: "('w, 'h, 'z) env_scheme \<Rightarrow> 'h \<Rightarrow> ('w, 'h, io_error, 'h \<times> 'h) act" where
  "open_stream E c = call (Open_stream_ev c) (op_open_stream E c)"

definition provider_send ::
  "('w, 'h, 'z) env_scheme \<Rightarrow> provider_request \<Rightarrow> ('w, 'h, io_error, 'h) act" where
  "provider_send E req = call (Provider_send_ev req) (op_provider_send E req)"

definition provider_chunk ::
  "('w, 'h, 'z) env_scheme \<Rightarrow> 'h \<Rightarrow> ('w, 'h, io_error, u8 list option) act" where
  "provider_chunk E resp = call (Provider_chunk_ev resp) (op_provider_chunk E resp)"

text \<open>A \<open>Result\<close> that is already there, under \<open>?\<close>.\<close>

definition from_result :: "'e + 'a \<Rightarrow> ('w, 'h, 'e, 'a) act" where
  "from_result res = (case res of Inl e \<Rightarrow> raise e | Inr x \<Rightarrow> ret x)"

text \<open>
  A future that never resolves, and one poll of a future that may be pending: \<open>None\<close>.
\<close>

definition hang :: "('w, 'h, 'e, 'a) act" where
  "hang w = (Hang, w, [])"

definition poll :: "('w, 'h, 'e, 'a) act \<Rightarrow> ('w, 'h, 'e, 'a option) act" where
  "poll m w =
    (case m w of
       (Done x, w1, es) \<Rightarrow> (Done (Some x), w1, es)
     | (Fail e, w1, es) \<Rightarrow> (Fail e, w1, es)
     | (Hang, w1, es) \<Rightarrow> (Done None, w1, es))"

text \<open>
  \<open>tokio::time::timeout\<close>: the future is polled under the deadline and dropped when it elapses;
  what it did before that stays done.
\<close>

definition timeout ::
  "('w, 'h, 'z) env_scheme \<Rightarrow> duration \<Rightarrow> ('w, 'h, 'e, 'a) act \<Rightarrow> ('w, 'h, 'f, ('e, 'a) timed) act" where
  "timeout E d m w =
    (case m (op_deadline E (Some d) w) of
       (r, w1, es) \<Rightarrow>
         (Done (case r of Done x \<Rightarrow> Completed (Inr x) | Fail e \<Rightarrow> Completed (Inl e) | Hang \<Rightarrow> Elapsed),
          op_deadline E None w1,
          Deadline_ev (Some d) # es @ [Deadline_ev None]))"

end
