(* ===== verification/Logic.thy ===== *)
theory Logic
  imports Effects
begin

text \<open>
  Reasoning about acts: weakest preconditions, claims about every call an act makes, pure
  parsers that effectful decoders are compared with, and the interfaces (locales) that state
  what the development relies on where it relies on more than the shape of a call.
\<close>

section \<open>Weakest preconditions\<close>

definition wp ::
  "('w, 'h, 'e, 'a) act \<Rightarrow> (('e, 'a) outcome \<Rightarrow> 'w \<Rightarrow> 'h event list \<Rightarrow> bool) \<Rightarrow> 'w \<Rightarrow> bool" where
  "wp m Q w = (case m w of (r, w1, es) \<Rightarrow> Q r w1 es)"

lemma wpI: "(\<And>r w1 es. m w = (r, w1, es) \<Longrightarrow> Q r w1 es) \<Longrightarrow> wp m Q w"
  by (cases "m w") (auto simp: wp_def)

lemma wpD: "wp m Q w \<Longrightarrow> m w = (r, w1, es) \<Longrightarrow> Q r w1 es"
  by (simp add: wp_def)

lemma wp_mono: "wp m Q w \<Longrightarrow> (\<And>r w1 es. Q r w1 es \<Longrightarrow> R r w1 es) \<Longrightarrow> wp m R w"
  by (auto simp: wp_def split: prod.splits)

lemma wp_conj: "wp m (\<lambda>r w1 es. Q r w1 es \<and> R r w1 es) w \<longleftrightarrow> wp m Q w \<and> wp m R w"
  by (auto simp: wp_def split: prod.splits)

lemma wp_ret [wp_simps]: "wp (ret x) Q w = Q (Done x) w []"
  by (simp add: wp_def ret_def)

lemma wp_raise [wp_simps]: "wp (raise e) Q w = Q (Fail e) w []"
  by (simp add: wp_def raise_def)

lemma wp_andthen [wp_simps]:
  "wp (andthen m f) Q w =
    wp m (\<lambda>r w1 es. case r of
        Done x \<Rightarrow> wp (f x) (\<lambda>r2 w2 es2. Q r2 w2 (es @ es2)) w1
      | Fail e \<Rightarrow> Q (Fail e) w1 es
      | Hang \<Rightarrow> Q Hang w1 es) w"
  by (auto simp: wp_def andthen_def split: prod.splits outcome.splits)

lemma wp_map_err [wp_simps]:
  "wp (map_err g m) Q w = wp m (\<lambda>r w1 es. Q (map_outcome g id r) w1 es) w"
  by (auto simp: wp_def map_err_def split: prod.splits)

lemma wp_attempt [wp_simps]:
  "wp (attempt m) Q w =
    wp m (\<lambda>r w1 es. case r of
        Done x \<Rightarrow> Q (Done (Inr x)) w1 es
      | Fail e \<Rightarrow> Q (Done (Inl e)) w1 es
      | Hang \<Rightarrow> Q Hang w1 es) w"
  by (auto simp: wp_def attempt_def split: prod.splits outcome.splits)

lemma wp_ignore [wp_simps]:
  "wp (ignore m) Q w = wp m (\<lambda>r w1 es. Q (if r = Hang then Hang else Done ()) w1 es) w"
  unfolding ignore_def wp_andthen wp_attempt wp_ret
  by (auto simp: wp_def split: prod.splits outcome.splits)

lemma wp_timeout [wp_simps]:
  "wp (timeout E d m) Q w =
    wp m (\<lambda>r w1 es. Q (Done (case r of Done x \<Rightarrow> Completed (Inr x)
                                | Fail e \<Rightarrow> Completed (Inl e) | Hang \<Rightarrow> Elapsed))
               (op_deadline E None w1) (Deadline_ev (Some d) # es @ [Deadline_ev None]))
      (op_deadline E (Some d) w)"
  by (auto simp: wp_def timeout_def split: prod.splits)

lemma wp_hang [wp_simps]: "wp hang Q w = Q Hang w []"
  by (simp add: wp_def hang_def)

lemma wp_poll [wp_simps]:
  "wp (poll m) Q w =
    wp m (\<lambda>r w1 es. case r of
        Done x \<Rightarrow> Q (Done (Some x)) w1 es
      | Fail e \<Rightarrow> Q (Fail e) w1 es
      | Hang \<Rightarrow> Q (Done None) w1 es) w"
  by (auto simp: wp_def poll_def split: prod.splits outcome.splits)

lemma wp_from_result [wp_simps]:
  "wp (from_result res) Q w = (case res of Inl e \<Rightarrow> Q (Fail e) w [] | Inr x \<Rightarrow> Q (Done x) w [])"
  by (simp add: wp_def from_result_def ret_def raise_def split: sum.split)

lemma wp_call: "wp (call ev f) Q w = (case f w of (r, w1) \<Rightarrow> Q r w1 [ev r])"
  by (simp add: wp_def call_def split: prod.splits)

lemma wp_if: "wp (if b then m1 else m2) Q w = (if b then wp m1 Q w else wp m2 Q w)"
  by simp

text \<open>The laws that re-associate a sequence.\<close>

lemma andthen_assoc: "andthen (andthen m f) g = andthen m (\<lambda>x. andthen (f x) g)"
  by (rule ext) (auto simp: andthen_def split: prod.splits outcome.splits)

lemma raise_andthen [simp]: "andthen (raise e) f = raise e"
  by (rule ext) (simp add: andthen_def raise_def)

lemma ret_andthen [simp]: "andthen (ret x) f = f x"
  by (rule ext) (simp add: andthen_def ret_def split: prod.splits)

lemma andthen_if: "andthen (if b then m else n) f = (if b then andthen m f else andthen n f)"
  by simp

lemma act_run:
  obtains r w1 es where "(m :: ('w, 'h, 'e, 'a) act) w = (r, w1, es)"
  by (cases "m w")

lemma andthen_runs:
  assumes "andthen m f w = (r, w2, es)"
  obtains (ran) x w1 es1 es2 where "m w = (Done x, w1, es1)" "f x w1 = (r, w2, es2)" "es = es1 @ es2"
    | (failed) e where "m w = (Fail e, w2, es)" "r = Fail e"
    | (hung) "m w = (Hang, w2, es)" "r = Hang"
  using assms by (auto simp: andthen_def split: prod.splits outcome.splits)

lemma timeout_runs:
  assumes "timeout E d m w = (r, w2, es)"
  obtains r1 w1 es1 where "m (op_deadline E (Some d) w) = (r1, w1, es1)"
    "r = Done (case r1 of Done x \<Rightarrow> Completed (Inr x) | Fail e \<Rightarrow> Completed (Inl e) | Hang \<Rightarrow> Elapsed)"
    "w2 = op_deadline E None w1" "es = Deadline_ev (Some d) # es1 @ [Deadline_ev None]"
  using assms by (auto simp: timeout_def split: prod.splits)

lemma map_err_runs:
  assumes "map_err g m w = (r, w1, es)"
  obtains r1 where "m w = (r1, w1, es)" "r = map_outcome g id r1"
  using assms by (auto simp: map_err_def split: prod.splits)

text \<open>
  A recursive call in the continuation of an act happens only for a result the act can have; this
  is what the termination of the looping functions rests on.
\<close>

definition results :: "('w, 'h, 'e, 'a) act \<Rightarrow> 'a set" where
  "results m = {x. \<exists>w w1 es. m w = (Done x, w1, es)}"

lemma andthen_cong [fundef_cong]:
  "\<lbrakk> m = m'; \<And>x. x \<in> results m' \<Longrightarrow> f x = f' x \<rbrakk> \<Longrightarrow> andthen m f = andthen m' f'"
  by (rule ext) (fastforce simp: andthen_def results_def split: prod.splits outcome.splits)

section \<open>Claims about every event\<close>

text \<open>
  \<open>emits P R m\<close>: whatever the environment does, every event of \<open>m\<close> satisfies \<open>P\<close>, and a
  result satisfies \<open>R\<close>.
\<close>

definition emits ::
  "('h event \<Rightarrow> bool) \<Rightarrow> ('a \<Rightarrow> bool) \<Rightarrow> ('w, 'h, 'e, 'a) act \<Rightarrow> bool" where
  "emits P R m \<longleftrightarrow> (\<forall>w r w1 es. m w = (r, w1, es) \<longrightarrow> list_all P es \<and> (\<forall>x. r = Done x \<longrightarrow> R x))"

lemma emitsD:
  "emits P R m \<Longrightarrow> m w = (r, w1, es) \<Longrightarrow> list_all P es \<and> (\<forall>x. r = Done x \<longrightarrow> R x)"
  by (simp add: emits_def)

lemma emits_ret [emits_rules]: "R x \<Longrightarrow> emits P R (ret x)"
  by (simp add: emits_def ret_def)

lemma emits_raise [emits_rules]: "emits P R (raise e)"
  by (simp add: emits_def raise_def)

lemma emits_andthen [emits_rules]:
  "emits P R m \<Longrightarrow> (\<And>x. R x \<Longrightarrow> emits P S (f x)) \<Longrightarrow> emits P S (andthen m f)"
  by (fastforce simp: emits_def andthen_def split: prod.splits outcome.splits)

lemma map_outcome_Done [simp]: "map_outcome g id r = Done x \<longleftrightarrow> r = Done x"
  by (cases r) auto

lemma map_outcome_Hang [simp]: "map_outcome g id r = Hang \<longleftrightarrow> r = Hang"
  by (cases r) auto

lemma map_outcome_Fail [simp]: "map_outcome g id r = Fail e \<longleftrightarrow> (\<exists>e'. r = Fail e' \<and> e = g e')"
  by (cases r) auto

lemma emits_map_err [emits_rules]: "emits P R m \<Longrightarrow> emits P R (map_err g m)"
  by (fastforce simp: emits_def map_err_def split: prod.splits)

lemma emits_attempt [emits_rules]:
  "emits P R m \<Longrightarrow> emits P (\<lambda>x. case x of Inl e \<Rightarrow> True | Inr y \<Rightarrow> R y) (attempt m)"
  by (fastforce simp: emits_def attempt_def split: prod.splits outcome.splits sum.splits)

lemma emits_ignore [emits_rules]: "emits P R m \<Longrightarrow> emits P (\<lambda>_. True) (ignore m)"
  unfolding ignore_def by (rule emits_andthen, rule emits_attempt) (auto intro: emits_ret)

lemma emits_timeout [emits_rules]:
  assumes "emits P R m" and "P (Deadline_ev (Some d))" and "P (Deadline_ev None)"
  shows "emits P (\<lambda>t. case t of Completed (Inr x) \<Rightarrow> R x | _ \<Rightarrow> True) (timeout E d m)"
  using assms unfolding emits_def timeout_def
  by (fastforce split: prod.splits outcome.splits)

lemma emits_hang [emits_rules]: "emits P R hang"
  by (simp add: emits_def hang_def)

lemma emits_poll [emits_rules]:
  "emits P R m \<Longrightarrow> emits P (\<lambda>x. case x of None \<Rightarrow> True | Some y \<Rightarrow> R y) (poll m)"
  by (fastforce simp: emits_def poll_def split: prod.splits outcome.splits option.splits)

lemma emits_call: "(\<And>r. P (ev r)) \<Longrightarrow> emits P (\<lambda>_. True) (call ev f)"
  by (auto simp: emits_def call_def split: prod.splits)

lemma emits_weaken: "emits P R m \<Longrightarrow> (\<And>x. R x \<Longrightarrow> S x) \<Longrightarrow> emits P S m"
  by (auto simp: emits_def)

lemma emits_from_result [emits_rules]: "emits P (\<lambda>x. res = Inr x) (from_result res)"
  by (cases res) (simp_all add: from_result_def emits_def ret_def raise_def)

lemma emits_read_exact [emits_rules]:
  "(\<And>r. P (Read_exact_ev h n r)) \<Longrightarrow> emits P (\<lambda>_. True) (read_exact E h n)"
  unfolding read_exact_def by (rule emits_call)

lemma emits_read_u8 [emits_rules]:
  "(\<And>r. P (Read_exact_ev h 1 r)) \<Longrightarrow> emits P (\<lambda>_. True) (read_u8 E h)"
  unfolding read_u8_def by (rule emits_andthen, rule emits_read_exact) (auto intro: emits_ret)

lemma emits_read_u16 [emits_rules]:
  "(\<And>r. P (Read_exact_ev h 2 r)) \<Longrightarrow> emits P (\<lambda>_. True) (read_u16 E h)"
  unfolding read_u16_def by (rule emits_andthen, rule emits_read_exact) (auto intro: emits_ret)

lemma emits_write_all [emits_rules]:
  "(\<And>r. P (Write_all_ev h bs r)) \<Longrightarrow> emits P (\<lambda>_. True) (write_all E h bs)"
  unfolding write_all_def by (rule emits_call)

lemma emits_write_u8 [emits_rules]:
  "(\<And>bs r. P (Write_all_ev h bs r)) \<Longrightarrow> emits P (\<lambda>_. True) (write_u8 E h b)"
  unfolding write_u8_def by (rule emits_write_all)

lemma emits_write_u16 [emits_rules]:
  "(\<And>bs r. P (Write_all_ev h bs r)) \<Longrightarrow> emits P (\<lambda>_. True) (write_u16 E h x)"
  unfolding write_u16_def by (rule emits_write_all)

lemma emits_flush [emits_rules]: "(\<And>r. P (Flush_ev h r)) \<Longrightarrow> emits P (\<lambda>_. True) (flush E h)"
  unfolding flush_def by (rule emits_call)

lemma emits_finish [emits_rules]: "(\<And>r. P (Finish_ev h r)) \<Longrightarrow> emits P (\<lambda>_. True) (finish E h)"
  unfolding finish_def by (rule emits_call)

lemma emits_shutdown [emits_rules]: "(\<And>r. P (Shutdown_ev h r)) \<Longrightarrow> emits P (\<lambda>_. True) (shutdown E h)"
  unfolding shutdown_def by (rule emits_call)

lemma emits_copy_step [emits_rules]:
  "(\<And>r. P (Copy_ev src dst r)) \<Longrightarrow> emits P (\<lambda>_. True) (copy_step E src dst)"
  unfolding copy_step_def by (rule emits_call)

lemma emits_lookup_host [emits_rules]:
  "(\<And>r. P (Lookup_host_ev d p r)) \<Longrightarrow> emits P (\<lambda>_. True) (lookup_host E d p)"
  unfolding lookup_host_def by (rule emits_call)

lemma emits_tcp_connect [emits_rules]:
  "(\<And>r. P (Tcp_connect_ev a r)) \<Longrightarrow> emits P (\<lambda>_. True) (tcp_connect E a)"
  unfolding tcp_connect_def by (rule emits_call)

lemma emits_read_some [emits_rules]: "(\<And>r. P (Read_ev h r)) \<Longrightarrow> emits P (\<lambda>_. True) (read_some E h)"
  unfolding read_some_def by (rule emits_call)

lemma emits_dial [emits_rules]: "(\<And>r. P (Dial_ev r)) \<Longrightarrow> emits P (\<lambda>_. True) (dial E)"
  unfolding dial_def by (rule emits_call)

lemma emits_open_stream [emits_rules]:
  "(\<And>r. P (Open_stream_ev c r)) \<Longrightarrow> emits P (\<lambda>_. True) (open_stream E c)"
  unfolding open_stream_def by (rule emits_call)

lemma emits_provider_send [emits_rules]:
  "(\<And>r. P (Provider_send_ev req r)) \<Longrightarrow> emits P (\<lambda>_. True) (provider_send E req)"
  unfolding provider_send_def by (rule emits_call)

lemma emits_provider_chunk [emits_rules]:
  "(\<And>r. P (Provider_chunk_ev resp r)) \<Longrightarrow> emits P (\<lambda>_. True) (provider_chunk E resp)"
  unfolding provider_chunk_def by (rule emits_call)

lemma emits_if [emits_rules]:
  "\<lbrakk> b \<Longrightarrow> emits P R m; \<not> b \<Longrightarrow> emits P R n \<rbrakk> \<Longrightarrow> emits P R (if b then m else n)"
  by simp

text \<open>The same without a claim about the result, for claims about the calls only.\<close>

lemma calls_andthen: "\<lbrakk> emits P (\<lambda>_. True) m; \<And>x. emits P (\<lambda>_. True) (f x) \<rbrakk> \<Longrightarrow> emits P (\<lambda>_. True) (andthen m f)"
  by (rule emits_andthen)

lemma calls_weaken: "emits P R m \<Longrightarrow> emits P (\<lambda>_. True) m"
  by (erule emits_weaken) simp

lemma calls_ret: "emits P (\<lambda>_. True) (ret x)"
  by (rule emits_ret) simp

lemma calls_attempt: "emits P (\<lambda>_. True) m \<Longrightarrow> emits P (\<lambda>_. True) (attempt m)"
  by (rule calls_weaken) (rule emits_attempt)

lemma calls_poll: "emits P (\<lambda>_. True) m \<Longrightarrow> emits P (\<lambda>_. True) (poll m)"
  by (rule calls_weaken) (rule emits_poll)

lemma calls_timeout:
  "\<lbrakk> emits P (\<lambda>_. True) m; P (Deadline_ev (Some d)); P (Deadline_ev None) \<rbrakk> \<Longrightarrow>
    emits P (\<lambda>_. True) (timeout E d m)"
  by (rule calls_weaken) (rule emits_timeout)

lemma calls_from_result: "emits P (\<lambda>_. True) (from_result res)"
  by (rule calls_weaken) (rule emits_from_result)

lemmas calls_rules =
  calls_andthen calls_ret emits_raise emits_hang emits_map_err calls_attempt calls_poll calls_timeout
  calls_from_result emits_ignore emits_read_exact emits_read_u8 emits_read_u16 emits_write_all
  emits_write_u8 emits_write_u16 emits_flush emits_finish emits_shutdown emits_copy_step
  emits_lookup_host emits_tcp_connect emits_read_some emits_dial emits_open_stream emits_provider_send
  emits_provider_chunk emits_if

lemma emits_mono: "emits P R m \<Longrightarrow> (\<And>e. P e \<Longrightarrow> Q e) \<Longrightarrow> emits Q R m"
  by (fastforce simp: emits_def elim: list.pred_mono_strong)

section \<open>What a handle sent and received\<close>

fun sent_by :: "'h \<Rightarrow> 'h event \<Rightarrow> u8 list" where
  "sent_by h (Write_all_ev h' bs (Done u)) = (if h' = h then bs else [])"
| "sent_by h (Copy_ev src dst (Done (Moved bs))) = (if dst = h then bs else [])"
| "sent_by h e = []"

fun received_by :: "'h \<Rightarrow> 'h event \<Rightarrow> u8 list" where
  "received_by h (Read_exact_ev h' n (Done bs)) = (if h' = h then bs else [])"
| "received_by h (Read_ev h' (Done bs)) = (if h' = h then bs else [])"
| "received_by h (Copy_ev src dst (Done (Moved bs))) = (if src = h then bs else [])"
| "received_by h e = []"

definition sent :: "'h \<Rightarrow> 'h event list \<Rightarrow> u8 list" where
  "sent h es = concat (map (sent_by h) es)"

definition received :: "'h \<Rightarrow> 'h event list \<Rightarrow> u8 list" where
  "received h es = concat (map (received_by h) es)"

lemma sent_simps [simp]:
  "sent h [] = []"
  "sent h (e # es) = sent_by h e @ sent h es"
  "sent h (es @ fs) = sent h es @ sent h fs"
  by (simp_all add: sent_def)

lemma received_simps [simp]:
  "received h [] = []"
  "received h (e # es) = received_by h e @ received h es"
  "received h (es @ fs) = received h es @ received h fs"
  by (simp_all add: received_def)

text \<open>
  \<open>sends h bs m\<close>: when \<open>m\<close> completes it has sent exactly \<open>bs\<close> on \<open>h\<close>, whatever else it did.
\<close>

definition sends :: "'h \<Rightarrow> u8 list \<Rightarrow> ('w, 'h, 'e, 'a) act \<Rightarrow> bool" where
  "sends h bs m \<longleftrightarrow> (\<forall>w x w1 es. m w = (Done x, w1, es) \<longrightarrow> sent h es = bs)"

lemma sendsD: "sends h bs m \<Longrightarrow> m w = (Done x, w1, es) \<Longrightarrow> sent h es = bs"
  unfolding sends_def by blast

lemma sends_ret [sends_rules]: "sends h [] (ret x)"
  by (simp add: sends_def ret_def)

lemma sends_raise [sends_rules]: "sends h bs (raise e)"
  by (simp add: sends_def raise_def)

lemma sends_andthen [sends_rules]:
  "\<lbrakk> sends h as m; \<And>x. sends h bs (f x) \<rbrakk> \<Longrightarrow> sends h (as @ bs) (andthen m f)"
  by (fastforce simp: sends_def andthen_def split: prod.splits outcome.splits)

lemma sends_if [sends_rules]:
  "sends h bs m \<Longrightarrow> sends h bs n \<Longrightarrow> sends h bs (if b then m else n)"
  by simp

lemma sends_map_err [sends_rules]: "sends h bs m \<Longrightarrow> sends h bs (map_err g m)"
  by (fastforce simp: sends_def map_err_def split: prod.splits)

lemma sends_write_all [sends_rules]: "sends h bs (write_all E h bs)"
  by (auto simp: sends_def write_all_def call_def split: prod.splits)

lemma sends_write_u8 [sends_rules]: "sends h [b] (write_u8 E h b)"
  unfolding write_u8_def by (rule sends_write_all)

lemma sends_write_u16 [sends_rules]: "sends h (be16_bytes x) (write_u16 E h x)"
  unfolding write_u16_def by (rule sends_write_all)

lemma sends_flush [sends_rules]: "sends h [] (flush E k)"
  by (auto simp: sends_def flush_def call_def split: prod.splits)

lemma sends_finish [sends_rules]: "sends h [] (finish E k)"
  by (auto simp: sends_def finish_def call_def split: prod.splits)

lemma sends_shutdown [sends_rules]: "sends h [] (shutdown E k)"
  by (auto simp: sends_def shutdown_def call_def split: prod.splits)

lemma sends_read_exact [sends_rules]: "sends h [] (read_exact E k n)"
  by (auto simp: sends_def read_exact_def call_def split: prod.splits)

lemma sends_provider_chunk [sends_rules]: "sends h [] (provider_chunk E k)"
  by (auto simp: sends_def provider_chunk_def call_def split: prod.splits)

lemma sends_other: "k \<noteq> h \<Longrightarrow> sends h [] (write_all E k bs)"
  by (auto simp: sends_def write_all_def call_def split: prod.splits)

lemma sends_eq: "sends h as m \<Longrightarrow> as = bs \<Longrightarrow> sends h bs m"
  by simp

text \<open>The same at any moment: \<open>m\<close> has sent a part of \<open>bs\<close> from its start, and all of it once it completes.\<close>

definition sends_upto :: "'h \<Rightarrow> u8 list \<Rightarrow> ('w, 'h, 'e, 'a) act \<Rightarrow> bool" where
  "sends_upto h bs m \<longleftrightarrow>
    sends h bs m \<and> (\<forall>w r w1 es. m w = (r, w1, es) \<longrightarrow> (\<exists>rest. bs = sent h es @ rest))"

lemma sends_uptoD: "sends_upto h bs m \<Longrightarrow> m w = (r, w1, es) \<Longrightarrow> \<exists>rest. bs = sent h es @ rest"
  unfolding sends_upto_def by blast

lemma sends_upto_silent: "(\<And>w r w1 es. m w = (r, w1, es) \<Longrightarrow> sent h es = []) \<Longrightarrow> sends_upto h [] m"
  unfolding sends_upto_def sends_def by blast

lemma sends_upto_ret: "sends_upto h [] (ret x)"
  by (rule sends_upto_silent) (simp add: ret_def)

lemma sends_upto_andthen:
  assumes "sends_upto h as m" and "\<And>x. sends_upto h bs (f x)"
  shows "sends_upto h (as @ bs) (andthen m f)"
  unfolding sends_upto_def
proof (intro conjI allI impI)
  show "sends h (as @ bs) (andthen m f)"
    using assms by (auto simp: sends_upto_def intro: sends_andthen)
  fix w r w1 es assume "andthen m f w = (r, w1, es)"
  then show "\<exists>rest. as @ bs = sent h es @ rest"
  proof (cases rule: andthen_runs)
    case (ran x w2 es1 es2)
    have "sent h es1 = as"
      using assms(1) ran(1) by (auto simp: sends_upto_def dest: sendsD)
    with sends_uptoD [OF assms(2) ran(2)] show ?thesis
      by (auto simp: ran(3))
  qed (use sends_uptoD [OF assms(1)] in fastforce)+
qed

lemma sends_upto_map_err: "sends_upto h bs m \<Longrightarrow> sends_upto h bs (map_err g m)"
  unfolding sends_upto_def by (auto intro: sends_map_err elim!: map_err_runs)

lemma sends_upto_write_all: "sends_upto h bs (write_all E h bs)"
proof -
  have "sent_by h (Write_all_ev h bs r) = (case r of Done u \<Rightarrow> bs | _ \<Rightarrow> [])" for r
    by (cases r) simp_all
  then show ?thesis
    using sends_write_all [of h bs E]
    by (auto simp: sends_upto_def write_all_def call_def split: prod.splits outcome.splits)
qed

lemma sends_upto_write_u8: "sends_upto h [b] (write_u8 E h b)"
  unfolding write_u8_def by (rule sends_upto_write_all)

lemma sends_upto_write_u16: "sends_upto h (be16_bytes x) (write_u16 E h x)"
  unfolding write_u16_def by (rule sends_upto_write_all)

lemma sends_upto_flush: "sends_upto h [] (flush E k)"
  by (rule sends_upto_silent) (auto simp: flush_def call_def split: prod.splits)

lemma sends_upto_finish: "sends_upto h [] (finish E k)"
  by (rule sends_upto_silent) (auto simp: finish_def call_def split: prod.splits)

lemmas sends_upto_rules =
  sends_upto_ret sends_upto_andthen sends_upto_map_err sends_upto_write_all sends_upto_write_u8
  sends_upto_write_u16 sends_upto_flush sends_upto_finish

lemma sends_upto_eq: "sends_upto h as m \<Longrightarrow> as = bs \<Longrightarrow> sends_upto h bs m"
  by simp

text \<open>
  \<open>refuses h P bs m\<close>: when \<open>m\<close> ends in an error that satisfies \<open>P\<close> it has sent exactly
  \<open>bs\<close> on \<open>h\<close>.
\<close>

definition refuses :: "'h \<Rightarrow> ('e \<Rightarrow> bool) \<Rightarrow> u8 list \<Rightarrow> ('w, 'h, 'e, 'a) act \<Rightarrow> bool" where
  "refuses h P bs m \<longleftrightarrow> (\<forall>w e w1 es. m w = (Fail e, w1, es) \<longrightarrow> P e \<longrightarrow> sent h es = bs)"

lemma refusesD: "refuses h P bs m \<Longrightarrow> m w = (Fail e, w1, es) \<Longrightarrow> P e \<Longrightarrow> sent h es = bs"
  unfolding refuses_def by blast

lemma refuses_raise: "refuses h P [] (raise e)"
  by (simp add: refuses_def raise_def)

lemma refuses_andthen:
  "\<lbrakk> sends h as (map_err g m); \<And>k. \<not> P (g k); \<And>x. refuses h P bs (f x) \<rbrakk> \<Longrightarrow>
    refuses h P (as @ bs) (andthen (map_err g m) f)"
  by (fastforce simp: refuses_def sends_def andthen_def map_err_def split: prod.splits outcome.splits)

text \<open>An act that never completes.\<close>

definition never :: "('w, 'h, 'e, 'a) act \<Rightarrow> bool" where
  "never m \<longleftrightarrow> (\<forall>w x w1 es. m w \<noteq> (Done x, w1, es))"

lemma neverD: "never m \<Longrightarrow> \<not> m w = (Done x, w1, es)"
  unfolding never_def by blast

lemma never_raise: "never (raise e)"
  by (simp add: never_def raise_def)

lemma never_andthen: "(\<And>x. never (f x)) \<Longrightarrow> never (andthen m f)"
  by (fastforce simp: never_def andthen_def split: prod.splits outcome.splits)

end
