(* ===== verification/Wire.thy ===== *)
theory Wire
  imports Logic
begin

text \<open>
  Wire formats: pure parsers over a byte list, the interface \<open>byte_source\<close> that says what a
  stream read delivers, the relation \<open>decodes\<close> between an effectful decoder and a pure parser,
  and the interface \<open>wire_codec\<close> of an encoder with its parser. The decoders of \<open>socks5.rs\<close>
  and \<open>tunnel.rs\<close> are related to their parsers by \<open>decodes\<close>, and their formats are
  interpretations of \<open>wire_codec\<close>.
\<close>

section \<open>Pure parsers\<close>

text \<open>\<open>Short\<close>: the input ended before the message did.\<close>

datatype ('e, 'a) parsed = Parsed 'a "u8 list" | Refused 'e | Short

type_synonym ('e, 'a) parser = "u8 list \<Rightarrow> ('e, 'a) parsed"

definition p_ret :: "'a \<Rightarrow> ('e, 'a) parser" where
  "p_ret x bs = Parsed x bs"

definition p_fail :: "'e \<Rightarrow> ('e, 'a) parser" where
  "p_fail e bs = Refused e"

definition p_then :: "('e, 'a) parser \<Rightarrow> ('a \<Rightarrow> ('e, 'b) parser) \<Rightarrow> ('e, 'b) parser" where
  "p_then p q bs =
    (case p bs of Parsed x rest \<Rightarrow> q x rest | Refused e \<Rightarrow> Refused e | Short \<Rightarrow> Short)"

definition p_take :: "nat \<Rightarrow> ('e, u8 list) parser" where
  "p_take n bs = (if n \<le> length bs then Parsed (take n bs) (drop n bs) else Short)"

definition p_u8 :: "('e, u8) parser" where
  "p_u8 = p_then (p_take 1) (\<lambda>bs. p_ret (bs ! 0))"

definition p_u16 :: "('e, u16) parser" where
  "p_u16 = p_then (p_take 2) (\<lambda>bs. p_ret (be16 (bs ! 0) (bs ! 1)))"

lemma p_u8_Cons [wire_simps]: "p_u8 (b # bs) = Parsed b bs"
  by (simp add: p_u8_def p_then_def p_take_def p_ret_def)

lemma p_u8_Nil [wire_simps]: "p_u8 [] = Short"
  by (simp add: p_u8_def p_then_def p_take_def)

lemma p_u16_bytes [wire_simps]: "p_u16 (be16_bytes x @ bs) = Parsed x bs"
  by (simp add: p_u16_def p_then_def p_take_def p_ret_def be16_bytes_def)

lemma p_take_append [wire_simps]: "length xs = n \<Longrightarrow> p_take n (xs @ bs) = Parsed xs bs"
  by (simp add: p_take_def)

declare p_then_def [wire_simps]

lemma p_ret_fail_apply [wire_simps]:
  "p_ret x bs = Parsed x bs"
  "p_fail e bs = Refused e"
  by (simp_all add: p_ret_def p_fail_def)

lemma p_then_Parsed:
  "p_then p q bs = Parsed y rest \<longleftrightarrow> (\<exists>x mid. p bs = Parsed x mid \<and> q x mid = Parsed y rest)"
  by (auto simp: p_then_def split: parsed.splits)

lemma p_ret_Parsed: "p_ret x bs = Parsed y rest \<longleftrightarrow> y = x \<and> rest = bs"
  by (auto simp: p_ret_def)

lemma p_fail_Parsed: "\<not> p_fail e bs = Parsed y rest"
  by (simp add: p_fail_def)

lemma p_take_Parsed: "p_take n bs = Parsed xs rest \<longleftrightarrow> length xs = n \<and> bs = xs @ rest"
  by (auto simp: p_take_def)

lemma p_u8_Parsed: "p_u8 bs = Parsed b rest \<longleftrightarrow> bs = b # rest"
  by (cases bs) (auto simp: wire_simps)

lemma p_u16_Parsed: "p_u16 bs = Parsed x rest \<longleftrightarrow> bs = be16_bytes x @ rest"
proof
  assume "p_u16 bs = Parsed x rest"
  then obtain ys where "length ys = 2" "bs = ys @ rest" "x = be16 (ys ! 0) (ys ! 1)"
    by (auto simp: p_u16_def p_then_Parsed p_take_Parsed p_ret_Parsed)
  then show "bs = be16_bytes x @ rest"
    by (simp add: length_2_nth)
qed (simp add: wire_simps)

lemmas parsed_iffs = p_then_Parsed p_ret_Parsed p_fail_Parsed p_take_Parsed p_u8_Parsed p_u16_Parsed

section \<open>The stream a decoder reads from\<close>

text \<open>
  \<open>pending w h\<close> is what the peer delivers on \<open>h\<close> from here on. \<open>read_exact\<close> is documented to
  fill the buffer with the next bytes of the stream, and not to succeed when the stream holds
  fewer. Writing and arming a deadline leave what is to be read alone.
\<close>

locale byte_source =
  fixes E :: "('w, 'h, 'z) env_scheme"
    and pending :: "'w \<Rightarrow> 'h \<Rightarrow> u8 list"
  assumes read_full:
      "\<And>n w h r w1. \<lbrakk> n \<le> length (pending w h); op_read_exact E h n w = (r, w1) \<rbrakk> \<Longrightarrow>
        (\<exists>f. r = Done f \<and> map f [0..<n] = take n (pending w h)) \<and>
        pending w1 = (pending w)(h := drop n (pending w h))"
    and read_short:
      "\<And>n w h r w1. \<lbrakk> length (pending w h) < n; op_read_exact E h n w = (r, w1) \<rbrakk> \<Longrightarrow> \<forall>f. r \<noteq> Done f"
    and write_keeps: "\<And>h bs w r w1. op_write_all E h bs w = (r, w1) \<Longrightarrow> pending w1 = pending w"
    and flush_keeps: "\<And>h w r w1. op_flush E h w = (r, w1) \<Longrightarrow> pending w1 = pending w"
    and deadline_keeps: "pending (op_deadline E d w) = pending w"

text \<open>
  \<open>decodes io pending h m p\<close>: reading from \<open>h\<close>, the act \<open>m\<close> computes what the parser \<open>p\<close>
  computes on the pending bytes: the same result with the same bytes left, the same refusal,
  and an I/O error (or no end) where the bytes run out.
\<close>

definition decodes ::
  "(io_error \<Rightarrow> 'e) \<Rightarrow> ('w \<Rightarrow> 'h \<Rightarrow> u8 list) \<Rightarrow> 'h \<Rightarrow> ('w, 'h, 'e, 'a) act \<Rightarrow> ('e, 'a) parser \<Rightarrow> bool"
  where
  "decodes io pend h m p \<longleftrightarrow>
    (\<forall>w r w1 es. m w = (r, w1, es) \<longrightarrow>
      (case p (pend w h) of
         Parsed x rest \<Rightarrow> r = Done x \<and> pend w1 = (pend w)(h := rest)
       | Refused e \<Rightarrow> r = Fail e
       | Short \<Rightarrow> r = Hang \<or> (\<exists>k. r = Fail (io k))))"

lemma decodesD:
  assumes "decodes io pend h m p" and "m w = (r, w1, es)"
  shows "p (pend w h) = Parsed x rest \<Longrightarrow> r = Done x \<and> pend w1 = (pend w)(h := rest)"
    and "p (pend w h) = Refused e \<Longrightarrow> r = Fail e"
    and "p (pend w h) = Short \<Longrightarrow> r = Hang \<or> (\<exists>k. r = Fail (io k))"
proof -
  have run: "case p (pend w h) of
      Parsed x rest \<Rightarrow> r = Done x \<and> pend w1 = (pend w)(h := rest)
    | Refused e \<Rightarrow> r = Fail e
    | Short \<Rightarrow> r = Hang \<or> (\<exists>k. r = Fail (io k))"
    using assms unfolding decodes_def by blast
  then show "p (pend w h) = Parsed x rest \<Longrightarrow> r = Done x \<and> pend w1 = (pend w)(h := rest)"
    and "p (pend w h) = Refused e \<Longrightarrow> r = Fail e"
    and "p (pend w h) = Short \<Longrightarrow> r = Hang \<or> (\<exists>k. r = Fail (io k))"
    by simp_all
qed

lemma decodes_ret [refines_rules]: "decodes io pend h (ret x) (p_ret x)"
  by (auto simp: decodes_def ret_def p_ret_def)

lemma decodes_raise [refines_rules]: "decodes io pend h (raise e) (p_fail e)"
  by (auto simp: decodes_def raise_def p_fail_def)

lemma decodes_andthen [refines_rules]:
  assumes m: "decodes io pend h m p" and f: "\<And>x. x \<in> results m \<Longrightarrow> decodes io pend h (f x) (q x)"
  shows "decodes io pend h (andthen m f) (p_then p q)"
  unfolding decodes_def
proof (intro allI impI)
  fix w r w2 es
  assume run: "andthen m f w = (r, w2, es)"
  obtain r1 w1 es1 where m1: "m w = (r1, w1, es1)"
    by (cases "m w") auto
  show "case p_then p q (pend w h) of
      Parsed y rest \<Rightarrow> r = Done y \<and> pend w2 = (pend w)(h := rest)
    | Refused e \<Rightarrow> r = Fail e
    | Short \<Rightarrow> r = Hang \<or> (\<exists>k. r = Fail (io k))"
  proof (cases "p (pend w h)")
    case (Parsed x rest)
    with m m1 have r1: "r1 = Done x" and pend1: "pend w1 = (pend w)(h := rest)"
      by (auto dest: decodesD(1))
    obtain r2 w3 es2 where f1: "f x w1 = (r2, w3, es2)"
      by (cases "f x w1") auto
    with run m1 r1 have "r = r2" "w2 = w3"
      by (auto simp: andthen_def)
    moreover have "x \<in> results m"
      using m1 r1 by (auto simp: results_def)
    ultimately show ?thesis
      using f [of x] f1 pend1 Parsed unfolding decodes_def p_then_def by (fastforce split: parsed.splits)
  next
    case (Refused e)
    with m m1 run show ?thesis
      by (auto simp: andthen_def p_then_def dest: decodesD(2))
  next
    case Short
    with decodesD(3) [OF m m1] run m1 show ?thesis
      by (auto simp: andthen_def p_then_def)
  qed
qed

text \<open>Errors renamed on both sides.\<close>

definition p_map_err :: "('e \<Rightarrow> 'f) \<Rightarrow> ('e, 'a) parser \<Rightarrow> ('f, 'a) parser" where
  "p_map_err g p bs = (case p bs of Parsed x rest \<Rightarrow> Parsed x rest | Refused e \<Rightarrow> Refused (g e) | Short \<Rightarrow> Short)"

lemma decodes_map_err:
  assumes "decodes io pend h m p"
  shows "decodes (\<lambda>k. g (io k)) pend h (map_err g m) (p_map_err g p)"
  unfolding decodes_def
proof (intro allI impI)
  fix w r w1 es
  assume "map_err g m w = (r, w1, es)"
  then obtain r1 where "m w = (r1, w1, es)" "r = map_outcome g id r1"
    by (rule map_err_runs)
  with decodesD [OF assms this(1)]
  show "case p_map_err g p (pend w h) of
      Parsed x rest \<Rightarrow> r = Done x \<and> pend w1 = (pend w)(h := rest)
    | Refused e \<Rightarrow> r = Fail e
    | Short \<Rightarrow> r = Hang \<or> (\<exists>k. r = Fail (g (io k)))"
    by (cases "p (pend w h)") (auto simp: p_map_err_def)
qed

lemma decodes_from_result [refines_rules]:
  "decodes io pend h (from_result res) (case res of Inl e \<Rightarrow> p_fail e | Inr x \<Rightarrow> p_ret x)"
  by (cases res) (simp_all add: from_result_def decodes_ret decodes_raise)

lemma decodes_if [refines_rules]:
  "\<lbrakk> b \<Longrightarrow> decodes io pend h m p; \<not> b \<Longrightarrow> decodes io pend h n q \<rbrakk> \<Longrightarrow>
    decodes io pend h (if b then m else n) (if b then p else q)"
  by simp

lemma decodes_case_option [refines_rules]:
  "\<lbrakk> ov = None \<Longrightarrow> decodes io pend h m p; \<And>x. ov = Some x \<Longrightarrow> decodes io pend h (f x) (q x) \<rbrakk> \<Longrightarrow>
    decodes io pend h (case ov of None \<Rightarrow> m | Some x \<Rightarrow> f x) (case ov of None \<Rightarrow> p | Some x \<Rightarrow> q x)"
  by (cases ov) simp_all

text \<open>What a decoder that follows a codec's parser does, in one statement.\<close>

lemma decodes_result:
  assumes "decodes io pend h m p" and "m w = (r, w1, es)"
  shows "r = Done x \<longleftrightarrow> (\<exists>rest. p (pend w h) = Parsed x rest)"
    and "p (pend w h) = Parsed x rest \<Longrightarrow> pend w1 = (pend w)(h := rest)"
  using decodesD [OF assms] by (cases "p (pend w h)"; auto)+

context byte_source
begin

lemma decodes_read_exact:
  "decodes io pending h (map_err io (read_exact E h n)) (p_take n)"
proof -
  have "case p_take n (pending w h) of
      Parsed x rest \<Rightarrow> r = Done x \<and> pending w1 = (pending w)(h := rest)
    | Refused e \<Rightarrow> r = Fail e
    | Short \<Rightarrow> r = Hang \<or> (\<exists>k. r = Fail (io k))"
    if run: "map_err io (read_exact E h n) w = (r, w1, es)" for w r w1 es
  proof -
    obtain q w2 where q: "op_read_exact E h n w = (q, w2)"
      by (cases "op_read_exact E h n w")
    with run have "w1 = w2" and r: "r = map_outcome io id (map_outcome id (\<lambda>f. map f [0..<n]) q)"
      by (auto simp: map_err_def read_exact_def call_def)
    with q show ?thesis
      using read_full [of n w h q w2] read_short [of w h n q w2]
      by (cases q; cases "n \<le> length (pending w h)") (auto simp: p_take_def)
  qed
  then show ?thesis
    by (auto simp: decodes_def)
qed

lemma decodes_read_u8: "decodes io pending h (map_err io (read_u8 E h)) p_u8"
proof -
  have "map_err io (read_u8 E h) = andthen (map_err io (read_exact E h 1)) (\<lambda>bs. ret (bs ! 0))"
    by (rule ext)
      (auto simp: read_u8_def map_err_def andthen_def ret_def split: prod.splits outcome.splits)
  then show ?thesis
    unfolding p_u8_def by (auto intro: decodes_andthen decodes_read_exact decodes_ret)
qed

lemma decodes_read_u16: "decodes io pending h (map_err io (read_u16 E h)) p_u16"
proof -
  have "map_err io (read_u16 E h) =
      andthen (map_err io (read_exact E h 2)) (\<lambda>bs. ret (be16 (bs ! 0) (bs ! 1)))"
    by (rule ext)
      (auto simp: read_u16_def map_err_def andthen_def ret_def split: prod.splits outcome.splits)
  then show ?thesis
    unfolding p_u16_def by (auto intro: decodes_andthen decodes_read_exact decodes_ret)
qed

text \<open>Reading with enough bytes pending, as a weakest-precondition rule.\<close>

lemma wp_read_exact:
  assumes "n \<le> length (pending w h)"
    and "\<And>w1. pending w1 = (pending w)(h := drop n (pending w h)) \<Longrightarrow>
      Q (Done (take n (pending w h))) w1 [Read_exact_ev h n (Done (take n (pending w h)))]"
  shows "wp (read_exact E h n) Q w"
proof -
  obtain r w1 where "op_read_exact E h n w = (r, w1)"
    by (cases "op_read_exact E h n w")
  with read_full [OF assms(1) this] assms(2) show ?thesis
    by (auto simp: read_exact_def wp_call)
qed

lemma wp_read_u8:
  assumes "pending w h = b # bs"
    and "\<And>w1. pending w1 = (pending w)(h := bs) \<Longrightarrow> Q (Done b) w1 [Read_exact_ev h 1 (Done [b])]"
  shows "wp (read_u8 E h) Q w"
  unfolding read_u8_def wp_andthen
  by (rule wp_read_exact) (use assms in \<open>simp_all add: wp_ret\<close>)

lemma wp_write_all:
  assumes "\<And>r w1. pending w1 = pending w \<Longrightarrow> Q r w1 [Write_all_ev h bs r]"
  shows "wp (write_all E h bs) Q w"
  using assms write_keeps by (auto simp: write_all_def wp_call split: prod.splits)

lemma wp_flush:
  assumes "\<And>r w1. pending w1 = pending w \<Longrightarrow> Q r w1 [Flush_ev h r]"
  shows "wp (flush E h) Q w"
  using assms flush_keeps by (auto simp: flush_def wp_call split: prod.splits)

lemmas decodes_reads = decodes_read_exact decodes_read_u8 decodes_read_u16

end

section \<open>What a decoder has read\<close>

text \<open>
  \<open>takes h m p\<close>: when \<open>m\<close> has a result, it is the one that \<open>p\<close> finds in the bytes that \<open>m\<close> received on \<open>h\<close>, and
  \<open>m\<close> received not a byte more than \<open>p\<close> needs. This relies on no law of the environment: it compares the result
  with the calls of the run.
\<close>

definition takes :: "'h \<Rightarrow> ('w, 'h, 'e, 'a) act \<Rightarrow> ('f, 'a) parser \<Rightarrow> bool" where
  "takes h m p \<longleftrightarrow> (\<forall>w x w1 es rest. m w = (Done x, w1, es) \<longrightarrow> p (received h es @ rest) = Parsed x rest)"

lemma takesD: "takes h m p \<Longrightarrow> m w = (Done x, w1, es) \<Longrightarrow> p (received h es @ rest) = Parsed x rest"
  unfolding takes_def by blast

lemma takes_ret: "takes h (ret x) (p_ret x)"
  by (auto simp: takes_def ret_def p_ret_def)

lemma takes_raise: "takes h (raise e) (p_fail f)"
  by (auto simp: takes_def raise_def)

lemma takes_andthen: "takes h m p \<Longrightarrow> (\<And>x. takes h (f x) (q x)) \<Longrightarrow> takes h (andthen m f) (p_then p q)"
  by (fastforce simp: takes_def p_then_def elim!: andthen_runs)

lemma takes_map_err: "takes h m p \<Longrightarrow> takes h (map_err g m) p"
  unfolding takes_def by (auto elim!: map_err_runs split: if_splits) (metis map_outcome_Done)

lemma takes_if: "takes h m p \<Longrightarrow> takes h n q \<Longrightarrow> takes h (if b then m else n) (if b then p else q)"
  by simp

lemma takes_case_option:
  "\<lbrakk> takes h m p; \<And>x. takes h (f x) (q x) \<rbrakk> \<Longrightarrow>
    takes h (case ov of None \<Rightarrow> m | Some x \<Rightarrow> f x) (case ov of None \<Rightarrow> p | Some x \<Rightarrow> q x)"
  by (cases ov) simp_all

lemma takes_case_sum:
  "\<lbrakk> \<And>x. takes h (f x) (p x); \<And>x. takes h (g x) (q x) \<rbrakk> \<Longrightarrow>
    takes h (case s of Inl x \<Rightarrow> f x | Inr x \<Rightarrow> g x) (case s of Inl x \<Rightarrow> p x | Inr x \<Rightarrow> q x)"
  by (cases s) simp_all

lemma takes_read_exact: "takes h (read_exact E h n) (p_take n)"
proof -
  have "p_take n (bs @ rest) = Parsed bs rest" if "length bs = n" for bs rest
    using that by (simp add: p_take_def)
  moreover have "length bs = n" if "map_outcome id (\<lambda>f. map f [0..<n]) got = Done bs"
    for got :: "(io_error, nat \<Rightarrow> u8) outcome" and bs
    using that by (cases got) auto
  ultimately show ?thesis
    by (auto simp: takes_def read_exact_def call_def split: prod.splits)
qed

lemma takes_read_u8: "takes h (read_u8 E h) p_u8"
  unfolding read_u8_def p_u8_def by (intro takes_andthen takes_read_exact takes_ret)

lemma takes_read_u16: "takes h (read_u16 E h) p_u16"
  unfolding read_u16_def p_u16_def by (intro takes_andthen takes_read_exact takes_ret)

lemmas takes_rules =
  takes_ret takes_raise takes_andthen takes_map_err takes_if takes_case_option takes_case_sum takes_read_exact
  takes_read_u8 takes_read_u16

section \<open>Buffered streams\<close>

text \<open>
  A \<open>BufReader\<close>: \<open>fill_buf\<close> is documented to return some of the bytes to come, and none only
  when the stream is at its end; \<open>consume\<close> takes bytes off the front. How many bytes a call
  returns is up to the network. \<open>ended h\<close> says that the stream of \<open>h\<close> has an end after the pending
  bytes; otherwise reading past them does not succeed.
\<close>

locale buffered_source = byte_source +
  fixes ended :: "'b \<Rightarrow> bool"
  assumes fill_some:
      "\<And>w h r w1. \<lbrakk> pending w h \<noteq> []; op_fill_buf E h w = (r, w1) \<rbrakk> \<Longrightarrow>
        pending w1 = pending w \<and> (\<exists>bs rest. r = Done bs \<and> bs \<noteq> [] \<and> pending w h = bs @ rest)"
    and fill_none:
      "\<And>w h r w1. \<lbrakk> pending w h = []; op_fill_buf E h w = (r, w1) \<rbrakk> \<Longrightarrow>
        pending w1 = pending w \<and> (if ended h then r = Done [] else \<forall>bs. r \<noteq> Done bs)"
    and consume_drops: "\<And>w h n. pending (op_consume E h n w) = (pending w)(h := drop n (pending w h))"

section \<open>Codecs\<close>

text \<open>
  An encoder with a parser that reads back every well-formed message, whatever follows it.
  That alone makes the messages self-delimiting.
\<close>

locale wire_format =
  fixes wf :: "'a \<Rightarrow> bool"
    and enc :: "'a \<Rightarrow> u8 list"
    and parse :: "('e, 'a) parser"
  assumes parse_enc: "wf x \<Longrightarrow> parse (enc x @ rest) = Parsed x rest"
begin

lemma prefix_free:
  assumes "wf x" "wf y" "enc x @ xs = enc y @ ys"
  shows "x = y \<and> xs = ys"
proof -
  have "Parsed x xs = parse (enc x @ xs)"
    using assms(1) by (simp add: parse_enc)
  also have "\<dots> = Parsed y ys"
    using assms(2,3) by (simp add: parse_enc)
  finally show ?thesis by simp
qed

lemma enc_inj: "wf x \<Longrightarrow> wf y \<Longrightarrow> enc x = enc y \<Longrightarrow> x = y"
  using prefix_free [of x y "[]" "[]"] by simp

lemma concat_inj:
  "\<lbrakk> list_all wf xs; list_all wf ys; concat (map enc xs) = concat (map enc ys);
     length xs = length ys \<rbrakk> \<Longrightarrow> xs = ys"
proof (induction xs arbitrary: ys)
  case (Cons x xs)
  then obtain y ys' where ys: "ys = y # ys'" and wf: "wf x" "wf y"
    and eq: "enc x @ concat (map enc xs) = enc y @ concat (map enc ys')"
    by (cases ys) auto
  from prefix_free [OF wf eq] Cons ys show ?case
    by simp
qed simp

end

text \<open>A codec also accepts nothing but encodings of well-formed messages.\<close>

locale wire_codec = wire_format +
  assumes enc_parse: "parse bs = Parsed x rest \<Longrightarrow> wf x \<and> bs = enc x @ rest"
begin

lemma parsed_iff: "parse bs = Parsed x rest \<longleftrightarrow> wf x \<and> bs = enc x @ rest"
  using parse_enc enc_parse by blast

lemma truncated_not_parsed:
  assumes "wf x" "k < length (enc x)"
  shows "parse (take k (enc x)) \<noteq> Parsed y rest"
proof
  assume "parse (take k (enc x)) = Parsed y rest"
  then have y: "wf y" and t: "take k (enc x) = enc y @ rest"
    by (auto dest: enc_parse)
  have "enc x @ [] = enc y @ (rest @ drop k (enc x))"
    using t by (metis append.assoc append_Nil2 append_take_drop_id)
  from prefix_free [OF \<open>wf x\<close> y this] assms(2) show False
    by auto
qed

end

end
