(* ===== verification/Loopback.thy ===== *)
theory Loopback
  imports Wire
begin

text \<open>
  A concrete environment: every handle has an inbox that its peer has filled and an outbox it
  writes to, names resolve and targets accept by tables. It is the instance at which the
  theorems about arbitrary environments are evaluated, and it satisfies the interface
  \<open>byte_source\<close>. Nothing of the program's model is defined in terms of it.
\<close>

section \<open>The world\<close>

datatype stream_end = AtEof | Stalled

record loop_world =
  inbox :: "nat \<Rightarrow> u8 list"
  buffered :: "nat \<Rightarrow> nat"
  chunk_size :: nat
  stream_end :: "nat \<Rightarrow> stream_end"
  outbox :: "nat \<Rightarrow> u8 list"
  finished :: "nat \<Rightarrow> bool"
  name_table :: "rstring \<Rightarrow> SocketAddr list option"
  host_table :: "SocketAddr \<Rightarrow> (io_error, nat) outcome"
  new_streams :: "(io_error, nat \<times> nat) outcome list"
  new_connections :: "(io_error, nat) outcome list"
  provider :: "provider_request \<Rightarrow> (io_error, nat) outcome"
  provider_body :: "nat \<Rightarrow> u8 list list"
  loop_managed :: "(u64 \<times> nat) option"
  loop_next_id :: u64

definition empty_world :: loop_world where
  "empty_world =
    \<lparr>inbox = (\<lambda>_. []), buffered = (\<lambda>_. 0), chunk_size = 8192, stream_end = (\<lambda>_. AtEof),
     outbox = (\<lambda>_. []), finished = (\<lambda>_. False), name_table = (\<lambda>_. None),
     host_table = (\<lambda>_. Fail ConnectionRefused), new_streams = [], new_connections = [],
     provider = (\<lambda>_. Fail ConnectionRefused), provider_body = (\<lambda>_. []), loop_managed = None, loop_next_id = 1\<rparr>"

definition short_read :: "stream_end \<Rightarrow> (io_error, 'a) outcome" where
  "short_read e = (case e of AtEof \<Rightarrow> Fail UnexpectedEof | Stalled \<Rightarrow> Hang)"

definition take_inbox :: "nat \<Rightarrow> nat \<Rightarrow> loop_world \<Rightarrow> loop_world" where
  "take_inbox h n w =
    w\<lparr>inbox := (inbox w)(h := drop n (inbox w h)), buffered := (buffered w)(h := buffered w h - n)\<rparr>"

definition loop_read_exact :: "nat \<Rightarrow> nat \<Rightarrow> loop_world \<Rightarrow> (io_error, nat \<Rightarrow> u8) outcome \<times> loop_world" where
  "loop_read_exact h n w =
    (if n \<le> length (inbox w h) then (Done (\<lambda>i. inbox w h ! i), take_inbox h n w)
     else (short_read (stream_end w h), take_inbox h n w))"

definition loop_read :: "nat \<Rightarrow> loop_world \<Rightarrow> (io_error, u8 list) outcome \<times> loop_world" where
  "loop_read h w =
    (if inbox w h = [] \<and> stream_end w h = Stalled then (Hang, w)
     else (Done (take (chunk_size w) (inbox w h)), take_inbox h (chunk_size w) w))"

definition loop_fill_buf :: "nat \<Rightarrow> loop_world \<Rightarrow> (io_error, u8 list) outcome \<times> loop_world" where
  "loop_fill_buf h w =
    (if inbox w h = [] \<and> stream_end w h = Stalled then (Hang, w)
     else
       (let b = (if buffered w h = 0 then chunk_size w else buffered w h)
        in (Done (take b (inbox w h)), w\<lparr>buffered := (buffered w)(h := min b (length (inbox w h)))\<rparr>)))"

definition loop_buffer :: "nat \<Rightarrow> loop_world \<Rightarrow> u8 list" where
  "loop_buffer h w = take (buffered w h) (inbox w h)"

definition loop_write_all :: "nat \<Rightarrow> u8 list \<Rightarrow> loop_world \<Rightarrow> (io_error, unit) outcome \<times> loop_world" where
  "loop_write_all h bs w =
    (if finished w h then (Fail (OtherKind 0), w)
     else (Done (), w\<lparr>outbox := (outbox w)(h := outbox w h @ bs)\<rparr>))"

definition loop_finish :: "nat \<Rightarrow> loop_world \<Rightarrow> (io_error, unit) outcome \<times> loop_world" where
  "loop_finish h w =
    (if finished w h then (Fail (OtherKind 0), w)
     else (Done (), w\<lparr>finished := (finished w)(h := True)\<rparr>))"

definition loop_copy_step ::
  "nat \<Rightarrow> nat \<Rightarrow> loop_world \<Rightarrow> (io_error, copy_progress) outcome \<times> loop_world" where
  "loop_copy_step src dst w =
    (if finished w dst then (Fail (OtherKind 0), w)
     else if inbox w src = [] then
       (case stream_end w src of AtEof \<Rightarrow> (Done AtEnd, w) | Stalled \<Rightarrow> (Hang, w))
     else
       (Done (Moved (take (chunk_size w) (inbox w src))),
        take_inbox src (chunk_size w)
          (w\<lparr>outbox := (outbox w)(dst := outbox w dst @ take (chunk_size w) (inbox w src))\<rparr>)))"

definition loop_lookup_host ::
  "rstring \<Rightarrow> u16 \<Rightarrow> loop_world \<Rightarrow> (io_error, SocketAddr list) outcome \<times> loop_world" where
  "loop_lookup_host d p w =
    (case name_table w d of None \<Rightarrow> (Fail NotFound, w) | Some as \<Rightarrow> (Done as, w))"

definition loop_open_bi :: "loop_world \<Rightarrow> (io_error, nat \<times> nat) outcome \<times> loop_world" where
  "loop_open_bi w =
    (case new_streams w of
       [] \<Rightarrow> (Fail (OtherKind 1), w)
     | r # rs \<Rightarrow> (r, w\<lparr>new_streams := rs\<rparr>))"

definition loop_dial :: "loop_world \<Rightarrow> (io_error, nat) outcome \<times> loop_world" where
  "loop_dial w =
    (case new_connections w of
       [] \<Rightarrow> (Fail (OtherKind 1), w)
     | r # rs \<Rightarrow> (r, w\<lparr>new_connections := rs\<rparr>))"

definition loop_provider_chunk :: "nat \<Rightarrow> loop_world \<Rightarrow> (io_error, u8 list option) outcome \<times> loop_world" where
  "loop_provider_chunk resp w =
    (case provider_body w resp of
       [] \<Rightarrow> (Done None, w)
     | c # cs \<Rightarrow> (Done (Some c), w\<lparr>provider_body := (provider_body w)(resp := cs)\<rparr>))"

definition loop_env :: "(loop_world, nat) env" where
  "loop_env =
    \<lparr>op_deadline = (\<lambda>d w. w),
     op_read_exact = loop_read_exact,
     op_read = loop_read,
     op_fill_buf = loop_fill_buf,
     op_consume = take_inbox,
     op_buffer = loop_buffer,
     op_write_all = loop_write_all,
     op_flush = (\<lambda>h w. (Done (), w)),
     op_finish = loop_finish,
     op_shutdown = loop_finish,
     op_copy_step = loop_copy_step,
     op_lookup_host = loop_lookup_host,
     op_tcp_connect = (\<lambda>a w. (host_table w a, w)),
     op_open_bi = loop_open_bi,
     op_dial = loop_dial,
     op_open_stream = (\<lambda>c. loop_open_bi),
     op_provider_send = (\<lambda>req w. (provider w req, w)),
     op_provider_chunk = loop_provider_chunk\<rparr>"

lemmas loop_defs =
  loop_env_def loop_read_exact_def loop_read_def loop_fill_buf_def loop_buffer_def
  loop_write_all_def loop_finish_def loop_copy_step_def loop_lookup_host_def loop_open_bi_def loop_dial_def
  loop_provider_chunk_def take_inbox_def
  short_read_def empty_world_def

text \<open>Unfolding an act on a concrete world, for evaluation.\<close>

lemmas act_defs =
  ret_def raise_def andthen_def map_err_def attempt_def ignore_def timeout_def call_def
  read_exact_def read_u8_def read_u16_def read_some_def fill_buf_def consume_def write_all_def
  write_u8_def write_u16_def flush_def finish_def shutdown_def copy_step_def lookup_host_def tcp_connect_def
  open_bi_def dial_def open_stream_def provider_send_def provider_chunk_def hang_def poll_def

text \<open>
  Evaluation step by step: consumed input stays folded in \<open>take_inbox\<close>, so that long runs over
  one handle evaluate fast.
\<close>

lemma take_inbox_sel:
  "inbox (take_inbox h n w) = (inbox w)(h := drop n (inbox w h))"
  "finished (take_inbox h n w) = finished w"
  "host_table (take_inbox h n w) = host_table w"
  "name_table (take_inbox h n w) = name_table w"
  "new_streams (take_inbox h n w) = new_streams w"
  "outbox (take_inbox h n w) = outbox w"
  "stream_end (take_inbox h n w) = stream_end w"
  "new_connections (take_inbox h n w) = new_connections w"
  "provider (take_inbox h n w) = provider w"
  "provider_body (take_inbox h n w) = provider_body w"
  "chunk_size (take_inbox h n w) = chunk_size w"
  "loop_managed (take_inbox h n w) = loop_managed w"
  "loop_next_id (take_inbox h n w) = loop_next_id w"
  by (simp_all add: take_inbox_def)

lemma take_inbox_twice: "take_inbox h n (take_inbox h m w) = take_inbox h (m + n) w"
  by (simp add: take_inbox_def add.commute)

lemma loop_read_exact_eval:
  "read_exact loop_env h n w =
    (if n \<le> length (inbox w h)
     then (Done (take n (inbox w h)), take_inbox h n w, [Read_exact_ev h n (Done (take n (inbox w h)))])
     else (short_read (stream_end w h), take_inbox h n w, [Read_exact_ev h n (short_read (stream_end w h))]))"
  by (simp add: read_exact_def call_def loop_env_def loop_read_exact_def map_index_take short_read_def
      split: stream_end.split)

lemma loop_sel:
  "op_deadline loop_env d w = w"
  "op_write_all loop_env = loop_write_all"
  "op_flush loop_env h w = (Done (), w)"
  "op_finish loop_env = loop_finish"
  "op_shutdown loop_env = loop_finish"
  "op_lookup_host loop_env = loop_lookup_host"
  "op_tcp_connect loop_env a w = (host_table w a, w)"
  "op_open_bi loop_env = loop_open_bi"
  "op_copy_step loop_env = loop_copy_step"
  "op_dial loop_env = loop_dial"
  "op_open_stream loop_env c = loop_open_bi"
  "op_provider_send loop_env req w = (provider w req, w)"
  "op_provider_chunk loop_env = loop_provider_chunk"
  "op_read loop_env = loop_read"
  by (simp_all add: loop_env_def)

lemmas loop_eval =
  take_inbox_sel take_inbox_twice loop_read_exact_eval loop_sel loop_write_all_def loop_finish_def
  loop_lookup_host_def loop_open_bi_def loop_copy_step_def loop_dial_def loop_provider_chunk_def loop_read_def
  short_read_def empty_world_def
  ret_def raise_def andthen_def map_err_def attempt_def ignore_def timeout_def call_def hang_def poll_def
  read_u8_def read_u16_def write_all_def write_u8_def write_u16_def flush_def finish_def shutdown_def
  copy_step_def lookup_host_def tcp_connect_def open_bi_def dial_def open_stream_def provider_send_def
  provider_chunk_def read_some_def from_result_def

section \<open>It is a byte source\<close>

interpretation loop_source: byte_source loop_env inbox
proof unfold_locales
  fix n w h r and w1 :: loop_world
  assume "n \<le> length (inbox w h)" and "op_read_exact loop_env h n w = (r, w1)"
  then show "(\<exists>f. r = Done f \<and> map f [0..<n] = take n (inbox w h)) \<and>
      inbox w1 = (inbox w)(h := drop n (inbox w h))"
    by (auto simp: loop_env_def loop_read_exact_def take_inbox_def map_index_take)
next
  fix n w h r and w1 :: loop_world
  assume "length (inbox w h) < n" and "op_read_exact loop_env h n w = (r, w1)"
  then show "\<forall>f. r \<noteq> Done f"
    by (auto simp: loop_env_def loop_read_exact_def short_read_def split: stream_end.splits)
qed (auto simp: loop_env_def loop_write_all_def split: if_splits)

section \<open>It is a buffered source\<close>

text \<open>The same environment with streams that all end after their inbox, read in any chunks.\<close>

definition loop_fill_chunk :: "nat \<Rightarrow> loop_world \<Rightarrow> (io_error, u8 list) outcome \<times> loop_world" where
  "loop_fill_chunk h w = (Done (take (max 1 (chunk_size w)) (inbox w h)), w)"

definition ending_env :: "(loop_world, nat) env" where
  "ending_env = loop_env\<lparr>op_fill_buf := loop_fill_chunk\<rparr>"

interpretation ending_source: buffered_source ending_env inbox "\<lambda>_. True"
proof unfold_locales
  fix n w h r and w1 :: loop_world
  assume "n \<le> length (inbox w h)" and "op_read_exact ending_env h n w = (r, w1)"
  then show "(\<exists>f. r = Done f \<and> map f [0..<n] = take n (inbox w h)) \<and>
      inbox w1 = (inbox w)(h := drop n (inbox w h))"
    by (intro loop_source.read_full) (simp_all add: ending_env_def)
next
  fix n w h r and w1 :: loop_world
  assume "length (inbox w h) < n" and "op_read_exact ending_env h n w = (r, w1)"
  then show "\<forall>f. r \<noteq> Done f"
    by (intro loop_source.read_short) (simp_all add: ending_env_def)
next
  fix w h r and w1 :: loop_world
  assume "inbox w h \<noteq> []" and "op_fill_buf ending_env h w = (r, w1)"
  then have "r = Done (take (max 1 (chunk_size w)) (inbox w h))" "w1 = w"
    "take (max 1 (chunk_size w)) (inbox w h) \<noteq> []"
    by (auto simp: ending_env_def loop_fill_chunk_def)
  moreover have "inbox w h = take (max 1 (chunk_size w)) (inbox w h) @ drop (max 1 (chunk_size w)) (inbox w h)"
    by (rule append_take_drop_id [symmetric])
  ultimately show "inbox w1 = inbox w \<and> (\<exists>bs rest. r = Done bs \<and> bs \<noteq> [] \<and> inbox w h = bs @ rest)"
    by blast
next
  fix h bs r and w w1 :: loop_world
  assume "op_write_all ending_env h bs w = (r, w1)"
  then show "inbox w1 = inbox w"
    by (auto simp: ending_env_def loop_env_def loop_write_all_def split: if_splits)
next
  fix h r and w w1 :: loop_world
  assume "op_flush ending_env h w = (r, w1)"
  then show "inbox w1 = inbox w"
    by (auto simp add: ending_env_def loop_env_def)
next
  fix d and w :: loop_world
  show "inbox (op_deadline ending_env d w) = inbox w"
    by (simp add: ending_env_def loop_env_def)
next
  fix w h r and w1 :: loop_world
  assume "inbox w h = []" and "op_fill_buf ending_env h w = (r, w1)"
  then show "inbox w1 = inbox w \<and> (if True then r = Done [] else \<forall>bs. r \<noteq> Done bs)"
    by (auto simp add: ending_env_def loop_fill_chunk_def)
next
  fix h n and w :: loop_world
  show "inbox (op_consume ending_env h n w) = (inbox w)(h := drop n (inbox w h))"
    by (simp add: ending_env_def loop_env_def take_inbox_def)
qed

end
