(* ===== verification/Socks5.thy ===== *)
theory Socks5
  imports Loopback
begin

text \<open>
  \<open>src/socks5.rs\<close>: the SOCKS5 side of the local client. The request type with its targets, the
  reply codes and errors, domain validation, method negotiation, the CONNECT request decoder
  and the reply writer; then the wire format of a CONNECT request as a codec and the
  functional behaviour of the three effectful functions.
\<close>

section \<open>Data\<close>

datatype TargetAddr = Ip IpAddr | Domain rstring

record ConnectRequest =
  cr_target :: TargetAddr
  cr_port :: u16

datatype ReplyCode =
    Succeeded
  | GeneralFailure
  | ConnectionNotAllowed
  | ReplyNetworkUnreachable
  | HostUnreachable
  | ReplyConnectionRefused
  | TtlExpired
  | CommandNotSupported
  | AddressTypeNotSupported

datatype SocksError =
    SocksIo io_error
  | SocksUnsupportedVersion u8
  | NoSupportedAuthMethod
  | SocksUnsupportedCommand u8
  | SocksUnsupportedAddressType u8
  | InvalidReserved u8
  | SocksInvalidDomain
  | InvalidReplyCode u8

text \<open>The discriminants of \<open>ReplyCode\<close> (\<open>#[repr(u8)]\<close>, \<open>code as u8\<close>).\<close>

fun reply_code_u8 :: "ReplyCode \<Rightarrow> u8" where
  "reply_code_u8 Succeeded = 0x00"
| "reply_code_u8 GeneralFailure = 0x01"
| "reply_code_u8 ConnectionNotAllowed = 0x02"
| "reply_code_u8 ReplyNetworkUnreachable = 0x03"
| "reply_code_u8 HostUnreachable = 0x04"
| "reply_code_u8 ReplyConnectionRefused = 0x05"
| "reply_code_u8 TtlExpired = 0x06"
| "reply_code_u8 CommandNotSupported = 0x07"
| "reply_code_u8 AddressTypeNotSupported = 0x08"

definition reply_code_try_from :: "u8 \<Rightarrow> SocksError + ReplyCode" where
  "reply_code_try_from value =
    (if value = 0x00 then Inr Succeeded
     else if value = 0x01 then Inr GeneralFailure
     else if value = 0x02 then Inr ConnectionNotAllowed
     else if value = 0x03 then Inr ReplyNetworkUnreachable
     else if value = 0x04 then Inr HostUnreachable
     else if value = 0x05 then Inr ReplyConnectionRefused
     else if value = 0x06 then Inr TtlExpired
     else if value = 0x07 then Inr CommandNotSupported
     else if value = 0x08 then Inr AddressTypeNotSupported
     else Inl (InvalidReplyCode value))"

text \<open>\<open>SocksError::reply_code\<close>: what the client is told about an error.\<close>

fun error_reply_code :: "SocksError \<Rightarrow> ReplyCode" where
  "error_reply_code (SocksUnsupportedCommand _) = CommandNotSupported"
| "error_reply_code (SocksUnsupportedAddressType _) = AddressTypeNotSupported"
| "error_reply_code _ = GeneralFailure"

definition validate_domain :: "rstring \<Rightarrow> bool" where
  "validate_domain domain \<longleftrightarrow>
    domain \<noteq> [] \<and>
    \<not> list_ex (\<lambda>byte. byte = 0 \<or> is_ascii_control byte \<or> is_ascii_whitespace byte) domain"

section \<open>Operations\<close>

abbreviation socks_io :: "('w, 'h, io_error, 'a) act \<Rightarrow> ('w, 'h, SocksError, 'a) act" where
  "socks_io \<equiv> map_err SocksIo"

definition negotiate_no_auth :: "('w, 'h, 'z) env_scheme \<Rightarrow> 'h \<Rightarrow> ('w, 'h, SocksError, unit) act" where
  "negotiate_no_auth E stream =
    andthen (socks_io (read_u8 E stream)) (\<lambda>version.
    if version \<noteq> 0x05 then raise (SocksUnsupportedVersion version)
    else
      andthen (socks_io (read_u8 E stream)) (\<lambda>nmethods.
      andthen (socks_io (read_exact E stream (unat nmethods))) (\<lambda>methods.
      if 0x00 \<in> set methods then
        andthen (socks_io (write_all E stream [0x05, 0x00])) (\<lambda>_.
        andthen (socks_io (flush E stream)) (\<lambda>_.
        ret ()))
      else
        andthen (socks_io (write_all E stream [0x05, 0xff])) (\<lambda>_.
        andthen (socks_io (flush E stream)) (\<lambda>_.
        raise NoSupportedAuthMethod)))))"

definition read_connect_request ::
  "('w, 'h, 'z) env_scheme \<Rightarrow> 'h \<Rightarrow> ('w, 'h, SocksError, ConnectRequest) act" where
  "read_connect_request E stream =
    andthen (socks_io (read_u8 E stream)) (\<lambda>version.
    if version \<noteq> 0x05 then raise (SocksUnsupportedVersion version)
    else
      andthen (socks_io (read_u8 E stream)) (\<lambda>command.
      andthen (socks_io (read_u8 E stream)) (\<lambda>reserved.
      andthen (socks_io (read_u8 E stream)) (\<lambda>atyp.
      if command \<noteq> 0x01 then raise (SocksUnsupportedCommand command)
      else if reserved \<noteq> 0x00 then raise (InvalidReserved reserved)
      else
        andthen
          (if atyp = 0x01 then
             andthen (socks_io (read_exact E stream 4)) (\<lambda>octets.
             ret (Ip (V4 (ipv4_from octets))))
           else if atyp = 0x03 then
             andthen (socks_io (read_u8 E stream)) (\<lambda>len.
             andthen (socks_io (read_exact E stream (unat len))) (\<lambda>bytes.
             case from_utf8 bytes of
               None \<Rightarrow> raise SocksInvalidDomain
             | Some domain \<Rightarrow>
                 if \<not> validate_domain domain then raise SocksInvalidDomain
                 else ret (Domain domain)))
           else if atyp = 0x04 then
             andthen (socks_io (read_exact E stream 16)) (\<lambda>octets.
             ret (Ip (V6 (ipv6_from octets))))
           else raise (SocksUnsupportedAddressType atyp))
          (\<lambda>target.
        andthen (socks_io (read_u16 E stream)) (\<lambda>port.
        ret \<lparr>cr_target = target, cr_port = port\<rparr>))))))"

definition write_reply ::
  "('w, 'h, 'z) env_scheme \<Rightarrow> 'h \<Rightarrow> ReplyCode \<Rightarrow> ('w, 'h, SocksError, unit) act" where
  "write_reply E stream code =
    andthen (socks_io (write_all E stream [0x05, reply_code_u8 code, 0x00, 0x01, 0, 0, 0, 0, 0, 0])) (\<lambda>_.
    andthen (socks_io (flush E stream)) (\<lambda>_.
    ret ()))"

section \<open>Reply codes\<close>

lemma reply_code_roundtrip [simp]: "reply_code_try_from (reply_code_u8 c) = Inr c"
  by (cases c) (simp_all add: reply_code_try_from_def)

lemma reply_code_try_from_Inr: "reply_code_try_from b = Inr c \<longleftrightarrow> b = reply_code_u8 c"
proof
  show "reply_code_try_from b = Inr c \<Longrightarrow> b = reply_code_u8 c"
    by (auto simp: reply_code_try_from_def split: if_splits)
qed simp

lemma reply_code_u8_inject [simp]: "reply_code_u8 c = reply_code_u8 d \<longleftrightarrow> c = d"
  by (metis reply_code_roundtrip sum.inject(2))

lemma reply_code_try_from_Inl:
  "reply_code_try_from b = Inl e \<Longrightarrow> e = InvalidReplyCode b \<and> 8 < b"
proof -
  assume e: "reply_code_try_from b = Inl e"
  then have "e = InvalidReplyCode b" and "b \<notin> {0, 1, 2, 3, 4, 5, 6, 7, 8}"
    by (auto simp: reply_code_try_from_def split: if_splits)
  moreover have "8 < b" if "b \<notin> {0, 1, 2, 3, 4, 5, 6, 7, 8}"
  proof (rule ccontr)
    assume "\<not> 8 < b"
    then have "unat b \<in> {0, 1, 2, 3, 4, 5, 6, 7, 8}"
      by (auto simp: word_less_nat_alt)
    moreover have "b = of_nat (unat b)"
      by simp
    ultimately have "b \<in> {0, 1, 2, 3, 4, 5, 6, 7, 8}"
      by (elim insertE emptyE; simp)
    with that show False by simp
  qed
  ultimately show ?thesis by simp
qed

section \<open>The CONNECT request on the wire\<close>

definition wf_request :: "ConnectRequest \<Rightarrow> bool" where
  "wf_request r =
    (case cr_target r of
       Domain d \<Rightarrow> validate_domain d \<and> valid_utf8 d \<and> length d \<le> 255
     | Ip _ \<Rightarrow> True)"

definition socks_request_bytes :: "ConnectRequest \<Rightarrow> u8 list" where
  "socks_request_bytes r =
    [0x05, 0x01, 0x00] @
    (case cr_target r of
       Ip (V4 ip) \<Rightarrow> 0x01 # ipv4_octets ip
     | Domain d \<Rightarrow> 0x03 # of_nat (length d) # d
     | Ip (V6 ip) \<Rightarrow> 0x04 # ipv6_octets ip) @
    be16_bytes (cr_port r)"

definition parse_domain :: "'e \<Rightarrow> ('e, TargetAddr) parser" where
  "parse_domain bad =
    p_then p_u8 (\<lambda>len.
    p_then (p_take (unat len)) (\<lambda>bytes.
    case from_utf8 bytes of
      None \<Rightarrow> p_fail bad
    | Some domain \<Rightarrow> if \<not> validate_domain domain then p_fail bad else p_ret (Domain domain)))"

definition parse_target :: "'e \<Rightarrow> (u8 \<Rightarrow> 'e) \<Rightarrow> u8 \<Rightarrow> ('e, TargetAddr) parser" where
  "parse_target bad unsupported atyp =
    (if atyp = 0x01 then p_then (p_take 4) (\<lambda>octets. p_ret (Ip (V4 (ipv4_from octets))))
     else if atyp = 0x03 then parse_domain bad
     else if atyp = 0x04 then p_then (p_take 16) (\<lambda>octets. p_ret (Ip (V6 (ipv6_from octets))))
     else p_fail (unsupported atyp))"

definition parse_connect_request :: "(SocksError, ConnectRequest) parser" where
  "parse_connect_request =
    p_then p_u8 (\<lambda>version.
    if version \<noteq> 0x05 then p_fail (SocksUnsupportedVersion version)
    else
      p_then p_u8 (\<lambda>command.
      p_then p_u8 (\<lambda>reserved.
      p_then p_u8 (\<lambda>atyp.
      if command \<noteq> 0x01 then p_fail (SocksUnsupportedCommand command)
      else if reserved \<noteq> 0x00 then p_fail (InvalidReserved reserved)
      else
        p_then (parse_target SocksInvalidDomain SocksUnsupportedAddressType atyp) (\<lambda>target.
        p_then p_u16 (\<lambda>port.
        p_ret \<lparr>cr_target = target, cr_port = port\<rparr>))))))"

text \<open>The address part of both wire formats: type byte and address bytes of a target.\<close>

fun target_atyp :: "TargetAddr \<Rightarrow> u8" where
  "target_atyp (Ip (V4 ip)) = 0x01"
| "target_atyp (Domain d) = 0x03"
| "target_atyp (Ip (V6 ip)) = 0x04"

fun target_bytes :: "TargetAddr \<Rightarrow> u8 list" where
  "target_bytes (Ip (V4 ip)) = ipv4_octets ip"
| "target_bytes (Domain d) = of_nat (length d) # d"
| "target_bytes (Ip (V6 ip)) = ipv6_octets ip"

fun wf_target :: "TargetAddr \<Rightarrow> bool" where
  "wf_target (Domain d) \<longleftrightarrow> validate_domain d \<and> valid_utf8 d \<and> length d \<le> 255"
| "wf_target (Ip _) \<longleftrightarrow> True"

lemma wf_request_target: "wf_request r \<longleftrightarrow> wf_target (cr_target r)"
  by (cases "cr_target r") (auto simp: wf_request_def)

lemma socks_request_bytes_eq:
  "socks_request_bytes r =
    [0x05, 0x01, 0x00] @ target_atyp (cr_target r) # target_bytes (cr_target r) @ be16_bytes (cr_port r)"
  by (auto simp: socks_request_bytes_def split: TargetAddr.splits IpAddr.splits)

lemma unat_of_nat_u8 [simp]: "n \<le> 255 \<Longrightarrow> unat (of_nat n :: u8) = n"
  by (simp add: unat_of_nat)

lemma parse_target_bytes [wire_simps]:
  assumes "wf_target t"
  shows "parse_target bad unsupported (target_atyp t) (target_bytes t @ rest) = Parsed t rest"
proof (cases t rule: target_bytes.cases)
  case (2 d)
  with assms show ?thesis
    by (simp add: parse_target_def parse_domain_def wire_simps from_utf8_def)
qed (simp_all add: parse_target_def wire_simps)

lemma parse_target_Parsed:
  assumes "parse_target bad unsupported atyp bs = Parsed t rest"
  shows "wf_target t \<and> atyp = target_atyp t \<and> bs = target_bytes t @ rest"
proof -
  have "unat (len :: u8) \<le> 255" for len
    using unsigned_less [of len, where ?'a = nat] by simp
  then show ?thesis
    using assms unfolding parse_target_def parse_domain_def
    by (auto simp: parsed_iffs split: if_splits option.splits)
qed

interpretation socks_wire: wire_codec wf_request socks_request_bytes parse_connect_request
proof unfold_locales
  fix r :: ConnectRequest and rest
  assume "wf_request r"
  then show "parse_connect_request (socks_request_bytes r @ rest) = Parsed r rest"
    by (simp add: parse_connect_request_def socks_request_bytes_eq wf_request_target wire_simps)
next
  fix bs r rest
  assume "parse_connect_request bs = Parsed r rest"
  then show "wf_request r \<and> bs = socks_request_bytes r @ rest"
    by (auto simp: parse_connect_request_def socks_request_bytes_eq wf_request_target parsed_iffs
        split: if_splits dest!: parse_target_Parsed)
qed

section \<open>The decoder reads the wire format\<close>

text \<open>Negotiation is reading a greeting, then answering it.\<close>

definition read_greeting :: "('w, 'h, 'z) env_scheme \<Rightarrow> 'h \<Rightarrow> ('w, 'h, SocksError, u8 list) act" where
  "read_greeting E h =
    andthen (socks_io (read_u8 E h)) (\<lambda>version.
    if version \<noteq> 0x05 then raise (SocksUnsupportedVersion version)
    else andthen (socks_io (read_u8 E h)) (\<lambda>nmethods. socks_io (read_exact E h (unat nmethods))))"

definition answer_greeting :: "('w, 'h, 'z) env_scheme \<Rightarrow> 'h \<Rightarrow> u8 list \<Rightarrow> ('w, 'h, SocksError, unit) act" where
  "answer_greeting E h methods =
    andthen (socks_io (write_all E h [0x05, if 0x00 \<in> set methods then 0x00 else 0xff])) (\<lambda>_.
    andthen (socks_io (flush E h)) (\<lambda>_.
    if 0x00 \<in> set methods then ret () else raise NoSupportedAuthMethod))"

definition parse_greeting :: "(SocksError, u8 list) parser" where
  "parse_greeting =
    p_then p_u8 (\<lambda>version.
    if version \<noteq> 0x05 then p_fail (SocksUnsupportedVersion version)
    else p_then p_u8 (\<lambda>nmethods. p_take (unat nmethods)))"

lemma negotiate_no_auth_split:
  "negotiate_no_auth E h = andthen (read_greeting E h) (answer_greeting E h)"
proof -
  have "(\<lambda>ms. if 0x00 \<in> set ms then
        andthen (socks_io (write_all E h [0x05, 0x00])) (\<lambda>_. andthen (socks_io (flush E h)) (\<lambda>_. ret ()))
      else andthen (socks_io (write_all E h [0x05, 0xff])) (\<lambda>_. andthen (socks_io (flush E h))
        (\<lambda>_. raise NoSupportedAuthMethod))) = answer_greeting E h"
    by (rule ext) (simp add: answer_greeting_def)
  then show ?thesis
    unfolding negotiate_no_auth_def read_greeting_def
    by (simp add: andthen_assoc andthen_if cong: if_cong)
qed

lemma parse_greeting_bytes:
  "length methods = unat n \<Longrightarrow>
    parse_greeting (v # n # methods @ rest) =
      (if v \<noteq> 0x05 then Refused (SocksUnsupportedVersion v) else Parsed methods rest)"
  by (simp add: parse_greeting_def wire_simps)

lemma answer_greeting_sent:
  assumes "answer_greeting E h methods w = (r, w1, es)"
  shows "0x00 \<in> set methods \<Longrightarrow> r \<noteq> Fail NoSupportedAuthMethod \<and> (r = Done () \<longrightarrow> sent h es = [0x05, 0x00])"
    and "0x00 \<notin> set methods \<Longrightarrow>
      r \<noteq> Done () \<and> (r = Fail NoSupportedAuthMethod \<longrightarrow> sent h es = [0x05, 0xff])"
  using assms
  by (auto simp: answer_greeting_def andthen_def map_err_def write_all_def flush_def call_def
      ret_def raise_def split: prod.splits outcome.splits)

text \<open>Reading a greeting writes nothing.\<close>

lemma read_greeting_silent: "read_greeting E h w = (r, w1, es) \<Longrightarrow> sent k es = []"
  by (auto simp: read_greeting_def andthen_def map_err_def read_u8_def read_exact_def call_def
      ret_def raise_def split: prod.splits outcome.splits if_splits)

context byte_source
begin

lemma read_connect_request_decodes:
  "decodes SocksIo pending h (read_connect_request E h) parse_connect_request"
  unfolding read_connect_request_def parse_connect_request_def parse_target_def parse_domain_def
  by (intro refines_rules decodes_reads)

lemma read_greeting_decodes:
  "decodes SocksIo pending h (read_greeting E h) parse_greeting"
  unfolding read_greeting_def parse_greeting_def
  by (intro refines_rules decodes_reads)

end

text \<open>What a successful reader has received.\<close>

lemma read_connect_request_received:
  assumes "read_connect_request E h w = (Done req, w1, es)"
  shows "wf_request req \<and> received h es = socks_request_bytes req"
proof -
  have "takes h (read_connect_request E h) parse_connect_request"
    unfolding read_connect_request_def parse_connect_request_def parse_target_def parse_domain_def
    by (intro takes_rules)
  from takesD [OF this assms, of "[]"] show ?thesis
    by (simp add: socks_wire.parsed_iff)
qed

lemma read_greeting_received:
  assumes "read_greeting E h w = (Done methods, w1, es)"
  shows "parse_greeting (received h es) = Parsed methods []"
proof -
  have "takes h (read_greeting E h) parse_greeting"
    unfolding read_greeting_def parse_greeting_def by (intro takes_rules)
  from takesD [OF this assms, of "[]"] show ?thesis
    by simp
qed

section \<open>Properties\<close>

text \<open>
  The SOCKS5 CONNECT decoder accepts exactly the wire format. Reading from a stream whose
  peer delivers the pending bytes, \<open>read_connect_request\<close> returns a request if and only if
  the bytes begin with the encoding of that request and the request is well formed (a domain
  is valid UTF-8, not empty, at most 255 bytes, without control or white space bytes); and it
  then consumes exactly the encoding, leaving what follows for the tunnel.
\<close>

theorem connect_request_decoded:
  assumes "byte_source E pending"
    and "read_connect_request E h w = (r, w1, es)"
  shows "(r = Done req \<longleftrightarrow> wf_request req \<and> (\<exists>rest. pending w h = socks_request_bytes req @ rest)) \<and>
    (\<forall>rest. wf_request req \<longrightarrow> pending w h = socks_request_bytes req @ rest \<longrightarrow>
       pending w1 = (pending w)(h := rest))"
proof -
  note dec = byte_source.read_connect_request_decodes [OF assms(1), of h]
  show ?thesis
    using decodes_result [OF dec assms(2), of req]
    by (auto simp: socks_wire.parsed_iff)
qed

theorem connect_request_decoded_witness:
  "fst (read_connect_request loop_env 0
      (empty_world\<lparr>inbox := (\<lambda>_. [0x05, 0x01, 0x00, 0x03, 2, 0x61, 0x62, 1, 187, 7])\<rparr>)) =
    Done \<lparr>cr_target = Domain (ascii ''ab''), cr_port = 443\<rparr>"
proof -
  let ?w = "empty_world\<lparr>inbox := (\<lambda>_. [0x05, 0x01, 0x00, 0x03, 2, 0x61, 0x62, 1, 187, 7])\<rparr>"
  let ?req = "\<lparr>cr_target = Domain (ascii ''ab''), cr_port = 443\<rparr> :: ConnectRequest"
  obtain r w1 es where run: "read_connect_request loop_env 0 ?w = (r, w1, es)"
    by (cases "read_connect_request loop_env 0 ?w") auto
  have "wf_request ?req"
    by (simp add: wf_request_def validate_domain_def is_ascii_control_def is_ascii_whitespace_def)
  moreover have "inbox ?w 0 = socks_request_bytes ?req @ [7]"
    by (simp add: socks_request_bytes_def be16_bytes_def)
  ultimately show ?thesis
    using connect_request_decoded [OF loop_source.byte_source_axioms run, of ?req]
    unfolding run prod.sel by blast
qed

text \<open>
  Method negotiation. On a greeting of version 5 that offers a list of methods, the client
  proxy selects no authentication (writes exactly \<open>05 00\<close>) and goes on if and only if the
  list offers method 0; otherwise it never succeeds, and when it reports that no method is
  supported it has written exactly \<open>05 ff\<close>. On any other version it writes nothing.
\<close>

theorem negotiation_outcome:
  assumes "byte_source E pending"
    and "negotiate_no_auth E h w = (r, w1, es)"
    and "pending w h = v # n # methods @ rest" and "length methods = unat n"
  shows "if v \<noteq> 0x05 then r = Fail (SocksUnsupportedVersion v) \<and> sent h es = []
    else if 0x00 \<in> set methods
      then r \<noteq> Fail NoSupportedAuthMethod \<and> (r = Done () \<longrightarrow> sent h es = [0x05, 0x00])
    else r \<noteq> Done () \<and> (r = Fail NoSupportedAuthMethod \<longrightarrow> sent h es = [0x05, 0xff])"
proof -
  note greeting = byte_source.read_greeting_decodes [OF assms(1), of h]
  show ?thesis
    using assms(2) [unfolded negotiate_no_auth_split]
  proof (cases rule: andthen_runs)
    case (ran ms w2 es1 es2)
    have "v = 0x05" "ms = methods"
      using decodesD [OF greeting ran(1)] assms(3,4) by (cases "v = 0x05"; simp add: parse_greeting_bytes)+
    with answer_greeting_sent [OF ran(2)] show ?thesis
      by (auto simp: ran(3) read_greeting_silent [OF ran(1)])
  next
    case (failed e)
    with assms(3,4) decodesD [OF greeting failed(1)] show ?thesis
      by (cases "v = 0x05"; simp add: parse_greeting_bytes read_greeting_silent [OF failed(1)])
  next
    case hung
    with assms(3,4) decodesD [OF greeting hung(1)] show ?thesis
      by (cases "v = 0x05"; simp add: parse_greeting_bytes)
  qed
qed

theorem negotiation_outcome_witness:
  "case negotiate_no_auth loop_env 0 (empty_world\<lparr>inbox := (\<lambda>_. [0x05, 2, 2, 0])\<rparr>) of
     (r, w1, es) \<Rightarrow> r = Done () \<and> sent 0 es = [0x05, 0x00]"
proof -
  let ?w = "empty_world\<lparr>inbox := (\<lambda>_. [0x05, 2, 2, 0])\<rparr>"
  obtain r w1 es where run: "negotiate_no_auth loop_env 0 ?w = (r, w1, es)"
    by (cases "negotiate_no_auth loop_env 0 ?w") auto
  have "inbox ?w 0 = 0x05 # 2 # [2, 0] @ []" "length [2, 0 :: u8] = unat (2 :: u8)"
    by simp_all
  from negotiation_outcome [OF loop_source.byte_source_axioms run this]
  have "r = Done () \<longrightarrow> sent 0 es = [0x05, 0x00]"
    by simp
  moreover have "r = Done ()"
    using run by (auto simp: negotiate_no_auth_def act_defs loop_defs upt_rec)
  ultimately show ?thesis
    using run by simp
qed

text \<open>
  Reply codes survive the wire. Reading back the byte of a reply code gives that code; a
  byte decodes to a code only if it is that code's byte; and the rejected bytes are exactly
  those above 8.
\<close>

theorem reply_code_bytes:
  "reply_code_try_from (reply_code_u8 c) = Inr c \<and>
   (reply_code_try_from b = Inr c \<longleftrightarrow> b = reply_code_u8 c) \<and>
   (reply_code_try_from b = Inl (InvalidReplyCode b) \<longleftrightarrow> 8 < b)"
proof -
  have "8 < b \<longleftrightarrow> (\<forall>c. b \<noteq> reply_code_u8 c)"
  proof
    have "\<not> 8 < reply_code_u8 c" for c
      by (cases c) simp_all
    then show "8 < b \<Longrightarrow> \<forall>c. b \<noteq> reply_code_u8 c"
      by auto
    show "\<forall>c. b \<noteq> reply_code_u8 c \<Longrightarrow> 8 < b"
      by (cases "reply_code_try_from b") (auto simp: reply_code_try_from_Inr dest: reply_code_try_from_Inl)
  qed
  then show ?thesis
    by (cases "reply_code_try_from b")
      (auto simp: reply_code_try_from_Inr dest: reply_code_try_from_Inl)
qed

end
