(* ===== verification/Tunnel.thy ===== *)
theory Tunnel
  imports Socks5
begin

text \<open>
  \<open>src/tunnel.rs\<close>: the request and the response that client and exit server exchange on a
  tunnel stream, with their effectful writers and readers, the wire formats as codecs, and the
  round trips.
\<close>

section \<open>Data\<close>

definition MAGIC :: "u8 list" where
  "MAGIC = ascii ''IRPX''"

definition VERSION :: u8 where
  "VERSION = 1"

definition CMD_CONNECT :: u8 where
  "CMD_CONNECT = 1"

datatype TunnelError =
    TunnelIo io_error
  | BadMagic
  | BadVersion u8
  | TunnelUnsupportedCommand u8
  | TunnelUnsupportedAddressType u8
  | DomainTooLong
  | TunnelInvalidDomain
  | InvalidStatus u8

abbreviation tunnel_io :: "('w, 'h, io_error, 'a) act \<Rightarrow> ('w, 'h, TunnelError, 'a) act" where
  "tunnel_io \<equiv> map_err TunnelIo"

text \<open>
  The handlers of both programs return \<open>anyhow::Result\<close>: an error of any of these types, with
  context that only logs show.
\<close>

datatype anyhow_error = IoErr io_error | TunnelErr TunnelError | SocksErr SocksError | Message string

section \<open>Operations\<close>

definition write_request ::
  "('w, 'h, 'z) env_scheme \<Rightarrow> 'h \<Rightarrow> ConnectRequest \<Rightarrow> ('w, 'h, TunnelError, unit) act" where
  "write_request E writer request =
    andthen (tunnel_io (write_all E writer MAGIC)) (\<lambda>_.
    andthen (tunnel_io (write_u8 E writer VERSION)) (\<lambda>_.
    andthen (tunnel_io (write_u8 E writer CMD_CONNECT)) (\<lambda>_.
    andthen
      (case cr_target request of
         Ip (V4 ip) \<Rightarrow>
           andthen (tunnel_io (write_u8 E writer 0x01)) (\<lambda>_.
           andthen (tunnel_io (write_u16 E writer (cr_port request))) (\<lambda>_.
           tunnel_io (write_all E writer (ipv4_octets ip))))
       | Domain domain \<Rightarrow>
           if \<not> validate_domain domain then raise TunnelInvalidDomain
           else if length domain > 255 then raise DomainTooLong
           else
             andthen (tunnel_io (write_u8 E writer 0x03)) (\<lambda>_.
             andthen (tunnel_io (write_u16 E writer (cr_port request))) (\<lambda>_.
             andthen (tunnel_io (write_u8 E writer (of_nat (length domain)))) (\<lambda>_.
             tunnel_io (write_all E writer domain))))
       | Ip (V6 ip) \<Rightarrow>
           andthen (tunnel_io (write_u8 E writer 0x04)) (\<lambda>_.
           andthen (tunnel_io (write_u16 E writer (cr_port request))) (\<lambda>_.
           tunnel_io (write_all E writer (ipv6_octets ip)))))
      (\<lambda>_.
    andthen (tunnel_io (flush E writer)) (\<lambda>_.
    ret ())))))"

definition read_magic_and_version :: "('w, 'h, 'z) env_scheme \<Rightarrow> 'h \<Rightarrow> ('w, 'h, TunnelError, unit) act" where
  "read_magic_and_version E reader =
    andthen (tunnel_io (read_exact E reader 4)) (\<lambda>magic.
    if magic \<noteq> MAGIC then raise BadMagic
    else
      andthen (tunnel_io (read_u8 E reader)) (\<lambda>version.
      if version \<noteq> VERSION then raise (BadVersion version)
      else ret ()))"

definition read_request :: "('w, 'h, 'z) env_scheme \<Rightarrow> 'h \<Rightarrow> ('w, 'h, TunnelError, ConnectRequest) act" where
  "read_request E reader =
    andthen (read_magic_and_version E reader) (\<lambda>_.
    andthen (tunnel_io (read_u8 E reader)) (\<lambda>command.
    if command \<noteq> CMD_CONNECT then raise (TunnelUnsupportedCommand command)
    else
      andthen (tunnel_io (read_u8 E reader)) (\<lambda>atyp.
      andthen (tunnel_io (read_u16 E reader)) (\<lambda>port.
      andthen
        (if atyp = 0x01 then
           andthen (tunnel_io (read_exact E reader 4)) (\<lambda>octets.
           ret (Ip (V4 (ipv4_from octets))))
         else if atyp = 0x03 then
           andthen (tunnel_io (read_u8 E reader)) (\<lambda>len.
           andthen (tunnel_io (read_exact E reader (unat len))) (\<lambda>bytes.
           case from_utf8 bytes of
             None \<Rightarrow> raise TunnelInvalidDomain
           | Some domain \<Rightarrow>
               if \<not> validate_domain domain then raise TunnelInvalidDomain
               else ret (Domain domain)))
         else if atyp = 0x04 then
           andthen (tunnel_io (read_exact E reader 16)) (\<lambda>octets.
           ret (Ip (V6 (ipv6_from octets))))
         else raise (TunnelUnsupportedAddressType atyp))
        (\<lambda>target.
      ret \<lparr>cr_target = target, cr_port = port\<rparr>)))))"

definition write_response ::
  "('w, 'h, 'z) env_scheme \<Rightarrow> 'h \<Rightarrow> ReplyCode \<Rightarrow> ('w, 'h, TunnelError, unit) act" where
  "write_response E writer status =
    andthen (tunnel_io (write_all E writer MAGIC)) (\<lambda>_.
    andthen (tunnel_io (write_u8 E writer VERSION)) (\<lambda>_.
    andthen (tunnel_io (write_u8 E writer (reply_code_u8 status))) (\<lambda>_.
    andthen (tunnel_io (write_u16 E writer 0)) (\<lambda>_.
    andthen (tunnel_io (flush E writer)) (\<lambda>_.
    ret ())))))"

definition read_response :: "('w, 'h, 'z) env_scheme \<Rightarrow> 'h \<Rightarrow> ('w, 'h, TunnelError, ReplyCode) act" where
  "read_response E reader =
    andthen (read_magic_and_version E reader) (\<lambda>_.
    andthen (tunnel_io (read_u8 E reader)) (\<lambda>status.
    andthen (tunnel_io (read_u16 E reader)) (\<lambda>reserved.
    case reply_code_try_from status of
      Inl _ \<Rightarrow> raise (InvalidStatus status)
    | Inr code \<Rightarrow> ret code)))"

section \<open>Wire formats\<close>

definition tunnel_request_bytes :: "ConnectRequest \<Rightarrow> u8 list" where
  "tunnel_request_bytes r =
    MAGIC @ [VERSION, CMD_CONNECT, target_atyp (cr_target r)] @ be16_bytes (cr_port r) @
    target_bytes (cr_target r)"

definition tunnel_response_bytes :: "ReplyCode \<Rightarrow> u8 list" where
  "tunnel_response_bytes c = MAGIC @ [VERSION, reply_code_u8 c, 0, 0]"

definition parse_magic_and_version :: "(TunnelError, unit) parser" where
  "parse_magic_and_version =
    p_then (p_take 4) (\<lambda>magic.
    if magic \<noteq> MAGIC then p_fail BadMagic
    else p_then p_u8 (\<lambda>version. if version \<noteq> VERSION then p_fail (BadVersion version) else p_ret ()))"

definition parse_request :: "(TunnelError, ConnectRequest) parser" where
  "parse_request =
    p_then parse_magic_and_version (\<lambda>_.
    p_then p_u8 (\<lambda>command.
    if command \<noteq> CMD_CONNECT then p_fail (TunnelUnsupportedCommand command)
    else
      p_then p_u8 (\<lambda>atyp.
      p_then p_u16 (\<lambda>port.
      p_then (parse_target TunnelInvalidDomain TunnelUnsupportedAddressType atyp) (\<lambda>target.
      p_ret \<lparr>cr_target = target, cr_port = port\<rparr>)))))"

definition parse_response :: "(TunnelError, ReplyCode) parser" where
  "parse_response =
    p_then parse_magic_and_version (\<lambda>_.
    p_then p_u8 (\<lambda>status.
    p_then p_u16 (\<lambda>reserved.
    case reply_code_try_from status of
      Inl _ \<Rightarrow> p_fail (InvalidStatus status)
    | Inr code \<Rightarrow> p_ret code)))"

lemma length_MAGIC [simp]: "length MAGIC = 4"
  by (simp add: MAGIC_def)

lemma parse_header_bytes [wire_simps]:
  "parse_magic_and_version (MAGIC @ VERSION # rest) = Parsed () rest"
  by (simp add: parse_magic_and_version_def wire_simps)

lemma parse_header_Parsed:
  "parse_magic_and_version bs = Parsed u rest \<longleftrightarrow> bs = MAGIC @ VERSION # rest"
  by (auto simp: parse_magic_and_version_def parsed_iffs split: if_splits)

interpretation tunnel_wire: wire_codec wf_request tunnel_request_bytes parse_request
proof unfold_locales
  fix r :: ConnectRequest and rest
  assume "wf_request r"
  then show "parse_request (tunnel_request_bytes r @ rest) = Parsed r rest"
    by (simp add: parse_request_def tunnel_request_bytes_def wf_request_target wire_simps)
next
  fix bs r rest
  assume "parse_request bs = Parsed r rest"
  then show "wf_request r \<and> bs = tunnel_request_bytes r @ rest"
    by (auto simp: parse_request_def tunnel_request_bytes_def wf_request_target parsed_iffs
        parse_header_Parsed split: if_splits dest!: parse_target_Parsed)
qed

text \<open>
  The response has two reserved bytes that the reader ignores, so its format is
  self-delimiting but not canonical.
\<close>

interpretation response_wire: wire_format "\<lambda>c. True" tunnel_response_bytes parse_response
proof unfold_locales
  fix c rest
  have "(p_u16 :: (TunnelError, u16) parser) (0 # 0 # rest) = Parsed 0 rest"
    using p_u16_bytes [of 0 rest] by (simp add: be16_bytes_def)
  then show "parse_response (tunnel_response_bytes c @ rest) = Parsed c rest"
    by (simp add: parse_response_def tunnel_response_bytes_def wire_simps)
qed

section \<open>The readers parse, the writers send\<close>

lemma decodes_case_sum [refines_rules]:
  "\<lbrakk> \<And>x. s = Inl x \<Longrightarrow> decodes io pend h (f x) (p x); \<And>x. s = Inr x \<Longrightarrow> decodes io pend h (g x) (q x) \<rbrakk> \<Longrightarrow>
    decodes io pend h (case s of Inl x \<Rightarrow> f x | Inr x \<Rightarrow> g x) (case s of Inl x \<Rightarrow> p x | Inr x \<Rightarrow> q x)"
  by (cases s) simp_all

context byte_source
begin

lemma read_header_decodes:
  "decodes TunnelIo pending h (read_magic_and_version E h) parse_magic_and_version"
  unfolding read_magic_and_version_def parse_magic_and_version_def
  by (intro refines_rules decodes_reads)

lemma read_request_decodes: "decodes TunnelIo pending h (read_request E h) parse_request"
  unfolding read_request_def parse_request_def parse_target_def parse_domain_def
  by (intro refines_rules decodes_reads read_header_decodes)

lemma read_response_decodes: "decodes TunnelIo pending h (read_response E h) parse_response"
  unfolding read_response_def parse_response_def
  by (intro refines_rules decodes_reads read_header_decodes)

end

lemma read_request_received:
  assumes "read_request E h w = (Done req, w1, es)"
  shows "wf_request req \<and> received h es = tunnel_request_bytes req"
proof -
  have "takes h (read_request E h) parse_request"
    unfolding read_request_def parse_request_def parse_target_def parse_domain_def
      read_magic_and_version_def parse_magic_and_version_def
    by (intro takes_rules)
  from takesD [OF this assms, of "[]"] show ?thesis
    by (simp add: tunnel_wire.parsed_iff)
qed

lemma write_request_sends:
  "sends h (tunnel_request_bytes req) (write_request E h req)"
proof (cases "cr_target req" rule: target_bytes.cases)
  case (1 ip)
  show ?thesis
    unfolding write_request_def
    by (rule sends_eq, simp only: 1 TargetAddr.case IpAddr.case, (rule sends_rules)+) (simp add: tunnel_request_bytes_def 1)
next
  case (2 d)
  show ?thesis
    unfolding write_request_def
    by (rule sends_eq, simp only: 2 TargetAddr.case IpAddr.case, (rule sends_rules)+) (simp add: tunnel_request_bytes_def 2)
next
  case (3 ip)
  show ?thesis
    unfolding write_request_def
    by (rule sends_eq, simp only: 3 TargetAddr.case IpAddr.case, (rule sends_rules)+) (simp add: tunnel_request_bytes_def 3)
qed

lemma write_response_sends [sends_rules]:
  "sends h (tunnel_response_bytes c) (write_response E h c)"
  unfolding write_response_def
  by (rule sends_eq, (rule sends_rules)+) (simp add: tunnel_response_bytes_def be16_bytes_def)

lemma write_request_domain:
  assumes "cr_target req = Domain d"
  shows "write_request E h req =
    andthen (tunnel_io (write_all E h MAGIC)) (\<lambda>_.
    andthen (tunnel_io (write_u8 E h VERSION)) (\<lambda>_.
    andthen (tunnel_io (write_u8 E h CMD_CONNECT)) (\<lambda>_.
    if \<not> validate_domain d then raise TunnelInvalidDomain
    else if length d > 255 then raise DomainTooLong
    else
      andthen (tunnel_io (write_u8 E h 0x03)) (\<lambda>_.
      andthen (tunnel_io (write_u16 E h (cr_port req))) (\<lambda>_.
      andthen (tunnel_io (write_u8 E h (of_nat (length d)))) (\<lambda>_.
      andthen (tunnel_io (write_all E h d)) (\<lambda>_.
      andthen (tunnel_io (flush E h)) (\<lambda>_. ret ()))))))))"
  by (simp add: write_request_def assms andthen_if andthen_assoc cong: if_cong)

lemma write_request_never:
  "\<lbrakk> cr_target req = Domain d; \<not> (validate_domain d \<and> length d \<le> 255) \<rbrakk> \<Longrightarrow>
    never (write_request E h req)"
  by (auto simp: write_request_domain intro!: never_andthen never_raise)

text \<open>A rejected domain is noticed only after the header is out.\<close>

lemma write_request_refuses:
  assumes "cr_target req = Domain d" and "\<not> (validate_domain d \<and> length d \<le> 255)"
  shows "refuses h (\<lambda>e. e \<notin> range TunnelIo) (MAGIC @ [VERSION] @ [CMD_CONNECT] @ []) (write_request E h req)"
  using assms unfolding write_request_domain [OF assms(1)]
  by (intro refuses_andthen) (auto intro: refuses_raise sends_rules)

text \<open>Any other error comes from the stream.\<close>

definition io_only :: "('w, 'h, TunnelError, 'a) act \<Rightarrow> bool" where
  "io_only m \<longleftrightarrow> (\<forall>w e w1 es. m w = (Fail e, w1, es) \<longrightarrow> e \<in> range TunnelIo)"

lemma io_only_rules:
  "io_only (tunnel_io n)"
  "io_only (ret x)"
  "\<lbrakk> io_only m; \<And>y. io_only (f y) \<rbrakk> \<Longrightarrow> io_only (andthen m f)"
  by (fastforce simp: io_only_def map_err_def andthen_def ret_def split: prod.splits outcome.splits)+

section \<open>Properties\<close>

text \<open>
  C18: A tunnel request survives the tunnel. If the client's \<open>write_request\<close> completes, then a
  server whose stream delivers the bytes that were sent, followed by anything, reads back
  exactly the same request and consumes exactly those bytes. (That a domain is valid UTF-8 is
  what Rust's type \<open>String\<close> guarantees.)
\<close>

theorem tunnel_request_roundtrip:
  assumes "byte_source F pending"
    and "write_request E h req w = (Done (), w1, es)"
    and "\<forall>d. cr_target req = Domain d \<longrightarrow> valid_utf8 d"
    and "pending v k = sent h es @ rest"
    and "read_request F k v = (r, v1, fs)"
  shows "r = Done req \<and> pending v1 = (pending v)(k := rest)"
proof -
  have sent: "sent h es = tunnel_request_bytes req"
    using sendsD [OF write_request_sends assms(2)] .
  have "wf_request req"
    using assms(3) neverD [OF write_request_never] assms(2)
    by (fastforce simp: wf_request_def split: TargetAddr.splits)
  then have "parse_request (pending v k) = Parsed req rest"
    by (simp add: assms(4) sent tunnel_wire.parse_enc)
  then show ?thesis
    using decodesD(1) [OF byte_source.read_request_decodes [OF assms(1)] assms(5)] by blast
qed

definition example_request :: ConnectRequest where
  "example_request = \<lparr>cr_target = Domain (ascii ''ab''), cr_port = 443\<rparr>"

theorem tunnel_request_roundtrip_witness:
  "\<exists>w1 es v1 fs. write_request loop_env 0 example_request empty_world = (Done (), w1, es) \<and>
    read_request loop_env 1 (empty_world\<lparr>inbox := (\<lambda>_. sent 0 es @ [9])\<rparr>) = (Done example_request, v1, fs)"
proof -
  obtain w1 es where wr: "write_request loop_env 0 example_request empty_world = (Done (), w1, es)"
    by (simp add: write_request_def example_request_def validate_domain_def is_ascii_control_def
        is_ascii_whitespace_def act_defs loop_defs)
  let ?v = "empty_world\<lparr>inbox := (\<lambda>_. sent 0 es @ [9])\<rparr>"
  obtain r v1 fs where rd: "read_request loop_env 1 ?v = (r, v1, fs)"
    by (cases "read_request loop_env 1 ?v") auto
  have utf8: "\<forall>d. cr_target example_request = Domain d \<longrightarrow> valid_utf8 d"
    by (simp add: example_request_def)
  have "inbox ?v 1 = sent 0 es @ [9]"
    by simp
  from tunnel_request_roundtrip [OF loop_source.byte_source_axioms wr utf8 this rd] wr rd
  show ?thesis by blast
qed

text \<open>
  The tunnel request decoder accepts exactly the wire format: it returns a request if and
  only if the pending bytes begin with magic, version, the CONNECT command, address type, port
  and address of that request, and the request is well formed. In particular a decoded domain
  is never empty and never holds a control or white space byte, whoever wrote the bytes.
\<close>

theorem tunnel_request_decoded:
  assumes "byte_source E pending"
    and "read_request E h w = (r, w1, es)"
  shows "r = Done req \<longleftrightarrow>
    wf_request req \<and> (\<exists>rest. pending w h = tunnel_request_bytes req @ rest)"
  using decodes_result(1) [OF byte_source.read_request_decodes [OF assms(1)] assms(2), of req]
  by (auto simp: tunnel_wire.parsed_iff)

theorem tunnel_request_decoded_witness:
  "\<exists>w1 es. read_request loop_env 0
      (empty_world\<lparr>inbox := (\<lambda>_. tunnel_request_bytes example_request)\<rparr>) = (Done example_request, w1, es)"
proof -
  let ?w = "empty_world\<lparr>inbox := (\<lambda>_. tunnel_request_bytes example_request)\<rparr>"
  obtain r w1 es where run: "read_request loop_env 0 ?w = (r, w1, es)"
    by (cases "read_request loop_env 0 ?w") auto
  have "wf_request example_request"
    by (simp add: example_request_def wf_request_def validate_domain_def is_ascii_control_def
        is_ascii_whitespace_def)
  with tunnel_request_decoded [OF loop_source.byte_source_axioms run, of example_request] run
  show ?thesis by auto
qed

text \<open>
  A tunnel response survives the tunnel: what a completed \<open>write_response\<close> has sent,
  \<open>read_response\<close> reads back as the same reply code.
\<close>

theorem tunnel_response_roundtrip:
  assumes "byte_source F pending"
    and "write_response E h code w = (Done (), w1, es)"
    and "pending v k = sent h es @ rest"
    and "read_response F k v = (r, v1, fs)"
  shows "r = Done code \<and> pending v1 = (pending v)(k := rest)"
proof -
  have "parse_response (pending v k) = Parsed code rest"
    using sendsD [OF write_response_sends assms(2)] assms(3)
    by (simp add: response_wire.parse_enc)
  then show ?thesis
    using decodesD(1) [OF byte_source.read_response_decodes [OF assms(1)] assms(4)] by blast
qed

theorem tunnel_response_roundtrip_witness:
  "\<exists>w1 es v1 fs. write_response loop_env 0 TtlExpired empty_world = (Done (), w1, es) \<and>
    read_response loop_env 1 (empty_world\<lparr>inbox := (\<lambda>_. sent 0 es @ [])\<rparr>) = (Done TtlExpired, v1, fs)"
proof -
  obtain w1 es where wr: "write_response loop_env 0 TtlExpired empty_world = (Done (), w1, es)"
    by (simp add: write_response_def act_defs loop_defs)
  let ?v = "empty_world\<lparr>inbox := (\<lambda>_. sent 0 es @ [])\<rparr>"
  obtain r v1 fs where rd: "read_response loop_env 1 ?v = (r, v1, fs)"
    by (cases "read_response loop_env 1 ?v") auto
  have "inbox ?v 1 = sent 0 es @ []"
    by simp
  from tunnel_response_roundtrip [OF loop_source.byte_source_axioms wr this rd] wr rd
  show ?thesis by blast
qed

text \<open>
  C40: An invalid domain is rejected by the writer, but not before encoding: when
  \<open>write_request\<close> fails with an invalid or too long domain, the six bytes of magic, version
  and command are already on the stream.
\<close>

theorem rejected_domain_leaves_header:
  assumes "write_request E h req w = (Fail e, w1, es)"
    and "e = TunnelInvalidDomain \<or> e = DomainTooLong"
  shows "sent h es = MAGIC @ [VERSION, CMD_CONNECT] \<and>
    (\<exists>d. cr_target req = Domain d \<and> \<not> (validate_domain d \<and> length d \<le> 255))"
proof (cases "\<exists>d. cr_target req = Domain d \<and> \<not> (validate_domain d \<and> length d \<le> 255)")
  case True
  then obtain d where "cr_target req = Domain d" "\<not> (validate_domain d \<and> length d \<le> 255)"
    by blast
  from refusesD [OF write_request_refuses [OF this] assms(1)] assms(2) True show ?thesis
    by auto
next
  case False
  then have "io_only (write_request E h req)"
    by (cases "cr_target req" rule: target_bytes.cases)
      (auto simp: write_request_def intro!: io_only_rules)
  with assms(1) have "e \<in> range TunnelIo"
    unfolding io_only_def by blast
  with assms(2) show ?thesis
    by auto
qed

theorem rejected_domain_leaves_header_witness:
  "\<exists>w1 es. write_request loop_env 0 \<lparr>cr_target = Domain [], cr_port = 443\<rparr> empty_world =
      (Fail TunnelInvalidDomain, w1, es) \<and> sent 0 es = [73, 82, 80, 88, 1, 1]"
proof -
  obtain w1 es where wr: "write_request loop_env 0 \<lparr>cr_target = Domain [], cr_port = 443\<rparr> empty_world =
      (Fail TunnelInvalidDomain, w1, es)"
    by (simp add: write_request_def validate_domain_def act_defs loop_defs)
  from rejected_domain_leaves_header [OF this] wr show ?thesis
    by (simp add: MAGIC_def VERSION_def CMD_CONNECT_def)
qed

end
