(* ===== verification/TargetPolicy.thy ===== *)
theory TargetPolicy
  imports Socks5
begin

unbundle bit_operations_syntax

text \<open>
  The policy part of \<open>src/server.rs\<close>: which addresses the exit server may connect to, which of
  a name's addresses it picks, how a failed connection is reported, and which peers may use
  the server. The IPv4 policy is compared with a list of address blocks.
\<close>

section \<open>Addresses\<close>

definition is_public_ipv4 :: "Ipv4Addr \<Rightarrow> bool" where
  "is_public_ipv4 ip \<longleftrightarrow>
    \<not> (ipv4_is_private ip
      \<or> ipv4_is_loopback ip
      \<or> ipv4_is_link_local ip
      \<or> ipv4_is_multicast ip
      \<or> ipv4_is_unspecified ip
      \<or> ipv4_is_broadcast ip
      \<or> ipv4_octets ip ! 0 = 0
      \<or> ipv4_octets ip ! 0 \<ge> 224)"

definition is_ipv6_unicast_link_local :: "Ipv6Addr \<Rightarrow> bool" where
  "is_ipv6_unicast_link_local ip \<longleftrightarrow> ipv6_segments ip ! 0 AND 0xffc0 = 0xfe80"

definition is_public_ipv6 :: "Ipv6Addr \<Rightarrow> bool" where
  "is_public_ipv6 ip \<longleftrightarrow>
    (case to_ipv4_mapped ip of
       Some mapped \<Rightarrow> is_public_ipv4 mapped
     | None \<Rightarrow>
         \<not> (ipv6_is_loopback ip
           \<or> ipv6_is_unspecified ip
           \<or> ipv6_is_multicast ip
           \<or> ipv6_is_unique_local ip
           \<or> is_ipv6_unicast_link_local ip))"

fun is_public_ip :: "IpAddr \<Rightarrow> bool" where
  "is_public_ip (V4 ip) = is_public_ipv4 ip"
| "is_public_ip (V6 ip) = is_public_ipv6 ip"

definition target_ip_allowed :: "IpAddr \<Rightarrow> bool \<Rightarrow> bool" where
  "target_ip_allowed ip allow_private_targets \<longleftrightarrow> allow_private_targets \<or> is_public_ip ip"

definition target_allowed :: "ConnectRequest \<Rightarrow> bool \<Rightarrow> bool" where
  "target_allowed request allow_private_targets \<longleftrightarrow>
    (case cr_target request of
       Domain _ \<Rightarrow> True
     | Ip ip \<Rightarrow> target_ip_allowed ip allow_private_targets)"

section \<open>Choosing an address\<close>

definition resolve_ip_target :: "IpAddr \<Rightarrow> u16 \<Rightarrow> bool \<Rightarrow> ReplyCode + SocketAddr" where
  "resolve_ip_target ip port allow_private_targets =
    (if target_ip_allowed ip allow_private_targets then Inr (SocketAddr ip port)
     else Inl ConnectionNotAllowed)"

text \<open>The loop over the resolved addresses, with its flag \<open>saw_denied\<close>.\<close>

fun select_loop :: "bool \<Rightarrow> bool \<Rightarrow> SocketAddr list \<Rightarrow> ReplyCode + SocketAddr" where
  "select_loop allow_private_targets saw_denied [] =
    (if saw_denied then Inl ConnectionNotAllowed else Inl HostUnreachable)"
| "select_loop allow_private_targets saw_denied (addr # addrs) =
    (if target_ip_allowed (sa_ip addr) allow_private_targets then Inr addr
     else select_loop allow_private_targets True addrs)"

definition select_allowed_resolved_addr :: "SocketAddr list \<Rightarrow> bool \<Rightarrow> ReplyCode + SocketAddr" where
  "select_allowed_resolved_addr addrs allow_private_targets =
    select_loop allow_private_targets False addrs"

fun map_connect_error :: "io_error \<Rightarrow> ReplyCode" where
  "map_connect_error ConnectionRefused = ReplyConnectionRefused"
| "map_connect_error NotFound = HostUnreachable"
| "map_connect_error TimedOut = TtlExpired"
| "map_connect_error AddrNotAvailable = HostUnreachable"
| "map_connect_error NetworkUnreachable = ReplyNetworkUnreachable"
| "map_connect_error _ = GeneralFailure"

section \<open>Peers\<close>

text \<open>
  \<open>PublicKey::from_str\<close> is iroh's: the parameter \<open>from_str\<close>. The error names the first value
  that is not a peer id.
\<close>

fun parse_allow_peers :: "(rstring \<Rightarrow> 'k option) \<Rightarrow> rstring list \<Rightarrow> rstring + 'k list" where
  "parse_allow_peers from_str [] = Inr []"
| "parse_allow_peers from_str (value # values) =
    (case from_str value of
       None \<Rightarrow> Inl value
     | Some k \<Rightarrow>
         (case parse_allow_peers from_str values of
            Inl e \<Rightarrow> Inl e
          | Inr ks \<Rightarrow> Inr (k # ks)))"

definition peer_allowed :: "'k \<Rightarrow> 'k list \<Rightarrow> bool" where
  "peer_allowed peer allow_peers \<longleftrightarrow> allow_peers = [] \<or> list_ex (\<lambda>allowed. allowed = peer) allow_peers"

section \<open>The policy as address blocks\<close>

text \<open>An IPv4 address as a number, and membership in a block \<open>base/len\<close>.\<close>

fun ipv4_num :: "Ipv4Addr \<Rightarrow> nat" where
  "ipv4_num (Ipv4 a b c d) = ((unat a * 256 + unat b) * 256 + unat c) * 256 + unat d"

definition in_block :: "Ipv4Addr \<Rightarrow> Ipv4Addr \<times> nat \<Rightarrow> bool" where
  "in_block ip blk \<longleftrightarrow>
    ipv4_num ip div 2 ^ (32 - snd blk) = ipv4_num (fst blk) div 2 ^ (32 - snd blk)"

definition blocked_ipv4 :: "(Ipv4Addr \<times> nat) list" where
  "blocked_ipv4 =
    [(Ipv4 0 0 0 0, 8), (Ipv4 10 0 0 0, 8), (Ipv4 127 0 0 0, 8), (Ipv4 169 254 0 0, 16),
     (Ipv4 172 16 0 0, 12), (Ipv4 192 168 0 0, 16), (Ipv4 224 0 0 0, 3)]"

lemma unat_u8_less: "unat (b :: u8) < 256"
  using unsigned_less [of b, where ?'a = nat] by simp

lemma word_eq_unat: "(a :: 'a::len word) = b \<longleftrightarrow> unat a = unat b"
proof
  assume "unat a = unat b"
  then have "(of_nat (unat a) :: 'a word) = of_nat (unat b)"
    by (rule arg_cong)
  then show "a = b"
    by simp
qed simp

lemma select_loop_cases:
  "select_loop p f addrs =
    (case filter (\<lambda>a. target_ip_allowed (sa_ip a) p) addrs of
       a # _ \<Rightarrow> Inr a
     | [] \<Rightarrow> if f \<or> addrs \<noteq> [] then Inl ConnectionNotAllowed else Inl HostUnreachable)"
  by (induction addrs arbitrary: f) auto

lemma div_ipv4_num:
  "ipv4_num (Ipv4 a b c d) div 16777216 = unat a"
  "ipv4_num (Ipv4 a b c d) div 65536 = unat a * 256 + unat b"
  "ipv4_num (Ipv4 a b c d) div 1048576 = unat a * 16 + unat b div 16"
  "ipv4_num (Ipv4 a b c d) div 536870912 = unat a div 32"
  using unat_u8_less [of a] unat_u8_less [of b] unat_u8_less [of c] unat_u8_less [of d]
  by simp_all

lemma block_arith:
  assumes "a < 256" "b < (256 :: nat)"
  shows "a div 32 = 7 \<longleftrightarrow> 224 \<le> a"
    and "a * 16 + b div 16 = 2753 \<longleftrightarrow> a = 172 \<and> 16 \<le> b \<and> b \<le> 31"
    and "a * 256 + b = 43518 \<longleftrightarrow> a = 169 \<and> b = 254"
    and "a * 256 + b = 49320 \<longleftrightarrow> a = 192 \<and> b = 168"
proof -
  show "a div 32 = 7 \<longleftrightarrow> 224 \<le> a"
    using assms by auto
  have "b div 16 < 16"
    using assms by auto
  moreover have "a * 16 + q = n \<longleftrightarrow> a = n div 16 \<and> q = n mod 16" if "q < 16" for q n :: nat
    using that by auto
  ultimately have "a * 16 + b div 16 = 2753 \<longleftrightarrow> a = 172 \<and> b div 16 = 1"
    by simp
  moreover have "b div 16 = 1 \<longleftrightarrow> 16 \<le> b \<and> b \<le> 31"
    by auto
  ultimately show "a * 16 + b div 16 = 2753 \<longleftrightarrow> a = 172 \<and> 16 \<le> b \<and> b \<le> 31"
    by simp
  have "a * 256 + b = n \<longleftrightarrow> a = n div 256 \<and> b = n mod 256" for n
    using assms by auto
  then show "a * 256 + b = 43518 \<longleftrightarrow> a = 169 \<and> b = 254" "a * 256 + b = 49320 \<longleftrightarrow> a = 192 \<and> b = 168"
    by simp_all
qed

lemma in_block_simps:
  "in_block (Ipv4 a b c d) (Ipv4 x 0 0 0, 8) \<longleftrightarrow> unat a = unat x"
  "in_block (Ipv4 a b c d) (Ipv4 169 254 0 0, 16) \<longleftrightarrow> unat a = 169 \<and> unat b = 254"
  "in_block (Ipv4 a b c d) (Ipv4 172 16 0 0, 12) \<longleftrightarrow> unat a = 172 \<and> 16 \<le> unat b \<and> unat b \<le> 31"
  "in_block (Ipv4 a b c d) (Ipv4 192 168 0 0, 16) \<longleftrightarrow> unat a = 192 \<and> unat b = 168"
  "in_block (Ipv4 a b c d) (Ipv4 224 0 0 0, 3) \<longleftrightarrow> 224 \<le> unat a"
  using block_arith [OF unat_u8_less [of a] unat_u8_less [of b]]
  by (simp_all add: in_block_def div_ipv4_num del: ipv4_num.simps)


section \<open>IPv6\<close>

lemma unat_u16_less: "unat (b :: u16) < 65536"
  using unsigned_less [of b, where ?'a = nat] by simp

lemma unat_and_high: "unat ((x :: u16) AND NOT (mask n)) = unat x div 2 ^ n * 2 ^ n"
proof -
  have "x AND NOT (mask n) = push_bit n (drop_bit n x)"
    by (rule bit_word_eqI) (auto simp: bit_simps)
  then have "unat (x AND NOT (mask n)) = take_bit 16 (unat x div 2 ^ n * 2 ^ n)"
    by (simp only: unsigned_push_bit_eq unsigned_drop_bit_eq) (use unat_u16_less [of x] in \<open>simp add: push_bit_eq_mult drop_bit_eq_div take_bit_eq_mod\<close>)
  moreover have "unat x div 2 ^ n * 2 ^ n < 65536"
    using unsigned_less [of x, where ?'a = nat]
    by (intro le_less_trans [OF div_times_less_eq_dividend]) simp
  ultimately show ?thesis
    by (simp add: take_bit_eq_mod)
qed

lemma high_masks:
  "(0xff00 :: u16) = NOT (mask 8)" "(0xfe00 :: u16) = NOT (mask 9)" "(0xffc0 :: u16) = NOT (mask 6)"
  by (simp_all add: mask_eq_exp_minus_1)

lemma first_segment_bits:
  "(x :: u16) AND 0xff00 = 0xff00 \<longleftrightarrow> unat x div 256 = 255"
  "x AND 0xfe00 = 0xfc00 \<longleftrightarrow> unat x div 512 = 126"
  "x AND 0xffc0 = 0xfe80 \<longleftrightarrow> unat x div 64 = 1018"
proof -
  show "x AND 0xff00 = 0xff00 \<longleftrightarrow> unat x div 256 = 255"
    using unat_and_high [of x 8] by (simp add: word_eq_unat high_masks [symmetric])
  show "x AND 0xfe00 = 0xfc00 \<longleftrightarrow> unat x div 512 = 126"
    using unat_and_high [of x 9] by (simp add: word_eq_unat high_masks [symmetric])
  show "x AND 0xffc0 = 0xfe80 \<longleftrightarrow> unat x div 64 = 1018"
    using unat_and_high [of x 6] by (simp add: word_eq_unat high_masks [symmetric])
qed

text \<open>Blocks of IPv6 addresses; a block of IPv4 addresses has a mapped one below \<open>::ffff:0:0/96\<close>.\<close>

fun ipv6_num :: "Ipv6Addr \<Rightarrow> nat" where
  "ipv6_num (Ipv6 a b c d e f g h) =
    ((((((unat a * 65536 + unat b) * 65536 + unat c) * 65536 + unat d) * 65536 + unat e) * 65536
      + unat f) * 65536 + unat g) * 65536 + unat h"

definition in_block6 :: "Ipv6Addr \<Rightarrow> Ipv6Addr \<times> nat \<Rightarrow> bool" where
  "in_block6 ip blk \<longleftrightarrow>
    ipv6_num ip div 2 ^ (128 - snd blk) = ipv6_num (fst blk) div 2 ^ (128 - snd blk)"

definition mapped_block :: "Ipv4Addr \<times> nat \<Rightarrow> Ipv6Addr \<times> nat" where
  "mapped_block blk = (to_ipv6_mapped (fst blk), 96 + snd blk)"

definition blocked_ipv6 :: "(Ipv6Addr \<times> nat) list" where
  "blocked_ipv6 =
    [(Ipv6 0 0 0 0 0 0 0 0, 128), (Ipv6 0 0 0 0 0 0 0 1, 128), (Ipv6 0xfc00 0 0 0 0 0 0 0, 7),
     (Ipv6 0xfe80 0 0 0 0 0 0 0, 10), (Ipv6 0xff00 0 0 0 0 0 0 0, 8)]"

lemma digits_eq:
  assumes "b < n" "b' < (n :: nat)"
  shows "a * n + b = a' * n + b' \<longleftrightarrow> a = a' \<and> b = b'"
proof
  assume eq: "a * n + b = a' * n + b'"
  have "(a * n + b) div n = (a' * n + b') div n" "(a * n + b) mod n = (a' * n + b') mod n"
    by (simp_all only: eq)
  then show "a = a' \<and> b = b'"
    using assms by simp
qed simp

lemma digit_eq:
  "(x :: nat) * 65536 + unat (y :: u16) = x' * 65536 + unat (y' :: u16) \<longleftrightarrow> x = x' \<and> y = y'"
  by (simp only: digits_eq [OF unat_u16_less unat_u16_less] word_eq_unat)

lemma ipv6_num_eq: "ipv6_num x = ipv6_num y \<longleftrightarrow> x = y"
  by (cases x; cases y)
    (simp only: ipv6_num.simps digit_eq Ipv6Addr.inject word_eq_unat [symmetric] conj_assoc)

lemma unat_be16: "unat (be16 a b) = unat a * 256 + unat b"
proof -
  have "unat (push_bit 8 (ucast a :: u16)) = unat a * 256"
    using unat_u8_less [of a]
    by (simp only: unsigned_push_bit_eq unsigned_ucast_eq) (simp add: push_bit_eq_mult take_bit_eq_mod)
  moreover have "be16 a b = push_bit 8 (ucast a) + ucast b"
    unfolding be16_def
    by (rule disjunctive_add [symmetric]) (auto simp: bit_simps dest: bit_imp_le_length)
  ultimately show ?thesis
    using unat_u8_less [of a] unat_u8_less [of b]
    by (simp add: unat_word_ariths unsigned_ucast_eq take_bit_eq_mod)
qed

text \<open>The number of an address: the first segment on top, and the low 32 bits below.\<close>

lemma div_first_segment: "ipv6_num (Ipv6 a b c d e f g h) div 2 ^ 112 = unat a"
  using unat_u16_less [of b] unat_u16_less [of c] unat_u16_less [of d] unat_u16_less [of e]
    unat_u16_less [of f] unat_u16_less [of g] unat_u16_less [of h]
  by (intro div_nat_eqI) simp_all

lemma block_split:
  assumes "k \<le> 32" "l < 2 ^ 32" "l' < (2 ^ 32 :: nat)"
  shows "(h * 2 ^ 32 + l) div 2 ^ k = (h' * 2 ^ 32 + l') div 2 ^ k \<longleftrightarrow>
    h = h' \<and> l div 2 ^ k = l' div 2 ^ k"
proof -
  have pow: "(2 :: nat) ^ 32 = 2 ^ (32 - k) * 2 ^ k"
    using assms(1) by (simp flip: power_add)
  have up: "(h * 2 ^ 32 + l) div 2 ^ k = h * 2 ^ (32 - k) + l div 2 ^ k" for h l :: nat
    unfolding pow by (simp flip: mult.assoc)
  have low: "l div 2 ^ k < 2 ^ (32 - k)" if "l < 2 ^ 32" for l :: nat
    using that unfolding pow by (simp add: less_mult_imp_div_less)
  show ?thesis
    unfolding up by (rule digits_eq) (use assms low in blast)+
qed

fun high_part :: "Ipv6Addr \<Rightarrow> nat" where
  "high_part (Ipv6 a b c d e f g h) =
    ((((unat a * 65536 + unat b) * 65536 + unat c) * 65536 + unat d) * 65536 + unat e) * 65536 + unat f"

fun low_part :: "Ipv6Addr \<Rightarrow> nat" where
  "low_part (Ipv6 a b c d e f g h) = unat g * 65536 + unat h"

lemma ipv6_num_parts: "ipv6_num ip = high_part ip * 2 ^ 32 + low_part ip"
  by (cases ip) simp

lemma low_part_less: "low_part ip < 2 ^ 32"
proof (cases ip)
  case (Ipv6 a b c d e f g h)
  show ?thesis
    using unat_u16_less [of g] unat_u16_less [of h] by (simp add: Ipv6)
qed

lemma mapped_parts:
  "high_part (to_ipv6_mapped v) = 0xffff" "low_part (to_ipv6_mapped v) = ipv4_num v"
  by (cases v; simp add: unat_be16)+

lemma high_part_mapped: "high_part ip = 0xffff \<longleftrightarrow> (\<exists>v. ip = to_ipv6_mapped v)"
proof
  assume eq: "high_part ip = 0xffff"
  obtain a b c d e f g h where ip: "ip = Ipv6 a b c d e f g h"
    by (cases ip)
  have "high_part ip = high_part (Ipv6 0 0 0 0 0 0xffff g h)"
    unfolding eq by simp
  then have "a = 0 \<and> b = 0 \<and> c = 0 \<and> d = 0 \<and> e = 0 \<and> f = 0xffff"
    unfolding ip by (simp only: high_part.simps digit_eq word_eq_unat [symmetric])
  then have "to_ipv4_mapped ip \<noteq> None"
    by (simp add: ip)
  then show "\<exists>v. ip = to_ipv6_mapped v"
    by (auto simp flip: to_ipv4_mapped_iff)
qed (auto simp: mapped_parts)

lemma in_mapped_block:
  assumes "snd blk \<le> 32"
  shows "in_block6 ip (mapped_block blk) \<longleftrightarrow>
    (case to_ipv4_mapped ip of None \<Rightarrow> False | Some v \<Rightarrow> in_block v blk)"
proof -
  have k: "128 - (96 + snd blk) = 32 - snd blk" "32 - snd blk \<le> 32"
    by simp_all
  have "in_block6 ip (mapped_block blk) \<longleftrightarrow>
      high_part ip = 0xffff \<and>
      low_part ip div 2 ^ (32 - snd blk) = ipv4_num (fst blk) div 2 ^ (32 - snd blk)"
    unfolding in_block6_def mapped_block_def fst_conv snd_conv k(1) ipv6_num_parts
    unfolding block_split [OF k(2) low_part_less low_part_less]
    unfolding mapped_parts ..
  then show ?thesis
    unfolding high_part_mapped
    by (cases "to_ipv4_mapped ip") (auto simp: to_ipv4_mapped_iff in_block_def mapped_parts)
qed

lemma in_blocked_ipv6:
  "list_ex (in_block6 (Ipv6 a b c d e f g h)) blocked_ipv6 \<longleftrightarrow>
    Ipv6 a b c d e f g h \<in> {Ipv6 0 0 0 0 0 0 0 0, Ipv6 0 0 0 0 0 0 0 1} \<or>
    unat a div 512 = 126 \<or> unat a div 64 = 1018 \<or> unat a div 256 = 255"
proof -
  have top: "ipv6_num (Ipv6 a b c d e f g h) div (2 ^ 112 * 2 ^ k) = unat a div 2 ^ k" for a b c d e f g h k
    by (simp only: div_mult2_eq div_first_segment)
  have pow: "(2 :: nat) ^ 121 = 2 ^ 112 * 2 ^ 9" "(2 :: nat) ^ 118 = 2 ^ 112 * 2 ^ 6" "(2 :: nat) ^ 120 = 2 ^ 112 * 2 ^ 8"
    by (simp_all flip: power_add)
  have "in_block6 (Ipv6 a b c d e f g h) (x, 128) \<longleftrightarrow> Ipv6 a b c d e f g h = x" for x
    by (simp add: in_block6_def ipv6_num_eq del: ipv6_num.simps)
  moreover have "in_block6 (Ipv6 a b c d e f g h) (Ipv6 0xfc00 0 0 0 0 0 0 0, 7) \<longleftrightarrow> unat a div 512 = 126"
    "in_block6 (Ipv6 a b c d e f g h) (Ipv6 0xfe80 0 0 0 0 0 0 0, 10) \<longleftrightarrow> unat a div 64 = 1018"
    "in_block6 (Ipv6 a b c d e f g h) (Ipv6 0xff00 0 0 0 0 0 0 0, 8) \<longleftrightarrow> unat a div 256 = 255"
    unfolding in_block6_def fst_conv snd_conv
    using top [of a b c d e f g h 9] top [of "0xfc00" 0 0 0 0 0 0 0 9]
      top [of a b c d e f g h 6] top [of "0xfe80" 0 0 0 0 0 0 0 6]
      top [of a b c d e f g h 8] top [of "0xff00" 0 0 0 0 0 0 0 8]
    by (simp_all del: ipv6_num.simps)
  ultimately show ?thesis
    by (simp add: blocked_ipv6_def disj_assoc)
qed

lemma in_mapped_blocks:
  "list_ex (in_block6 ip) (map mapped_block blocked_ipv4) \<longleftrightarrow>
    (case to_ipv4_mapped ip of None \<Rightarrow> False | Some v \<Rightarrow> list_ex (in_block v) blocked_ipv4)"
proof -
  have "list_ex (in_block6 ip) (map mapped_block blks) \<longleftrightarrow>
      (case to_ipv4_mapped ip of None \<Rightarrow> False | Some v \<Rightarrow> list_ex (in_block v) blks)"
    if "list_all (\<lambda>blk. snd blk \<le> 32) blks" for blks
    using that by (induction blks) (auto simp: in_mapped_block split: option.splits)
  moreover have "list_all (\<lambda>blk. snd blk \<le> 32) blocked_ipv4"
    by (simp add: blocked_ipv4_def)
  ultimately show ?thesis
    by blast
qed

lemma mapped_not_blocked_ipv6: "\<not> list_ex (in_block6 (to_ipv6_mapped v)) blocked_ipv6"
  by (cases v) (simp add: in_blocked_ipv6)

lemma unmapped_policy:
  assumes "to_ipv4_mapped ip = None"
  shows "is_public_ipv6 ip \<longleftrightarrow> \<not> list_ex (in_block6 ip) blocked_ipv6"
  using assms
  by (cases ip)
    (simp add: is_public_ipv6_def is_ipv6_unicast_link_local_def first_segment_bits in_blocked_ipv6
      del: to_ipv4_mapped.simps; blast)

lemma ipv4_policy_list: "is_public_ipv4 v \<longleftrightarrow> \<not> list_ex (in_block v) blocked_ipv4"
  by (cases v)
    (auto simp: blocked_ipv4_def in_block_simps is_public_ipv4_def word_eq_unat word_le_nat_alt)

text \<open>C23: the exit server's address policy without private targets. An IPv4 address is refused
  iff it lies in one of seven blocks (this network, the three private blocks, loopback,
  link-local, and everything from 224 up); an IPv6 address iff it lies in one of five
  (unspecified, loopback, unique-local, link-local, multicast) or in the mapped form of one of
  the seven, so that \<open>::ffff:127.0.0.1\<close> and its like are refused too. With private targets
  allowed nothing is refused.\<close>

theorem address_policy_blocks:
  "target_ip_allowed ip allow_private_targets \<longleftrightarrow> allow_private_targets \<or>
    (case ip of
       V4 v \<Rightarrow> \<not> list_ex (in_block v) blocked_ipv4
     | V6 v \<Rightarrow> \<not> list_ex (in_block6 v) (blocked_ipv6 @ map mapped_block blocked_ipv4))"
proof (cases ip)
  case (V6 v)
  show ?thesis
  proof (cases "to_ipv4_mapped v")
    case None
    then show ?thesis
      by (simp add: V6 target_ip_allowed_def unmapped_policy in_mapped_blocks)
  next
    case (Some x)
    then have "v = to_ipv6_mapped x"
      by (simp add: to_ipv4_mapped_iff)
    with Some show ?thesis
      by (simp add: V6 target_ip_allowed_def is_public_ipv6_def in_mapped_blocks
          mapped_not_blocked_ipv6 ipv4_policy_list)
  qed
qed (simp add: target_ip_allowed_def ipv4_policy_list)

section \<open>The choice among a name's addresses\<close>

text \<open>Of a name's addresses the server picks the first that the policy allows; it answers
  \<open>ConnectionNotAllowed\<close> exactly when there are addresses and all are refused, and
  \<open>HostUnreachable\<close> exactly when there is none. The flag \<open>saw_denied\<close> of the loop never
  changes the answer once an allowed address is found.\<close>

theorem first_allowed_address:
  "case select_allowed_resolved_addr addrs allow_private_targets of
     Inr addr \<Rightarrow>
       (\<exists>skipped rest. addrs = skipped @ addr # rest \<and>
          list_all (\<lambda>a. \<not> target_ip_allowed (sa_ip a) allow_private_targets) skipped \<and>
          target_ip_allowed (sa_ip addr) allow_private_targets)
   | Inl code \<Rightarrow>
       list_all (\<lambda>a. \<not> target_ip_allowed (sa_ip a) allow_private_targets) addrs \<and>
       code = (if addrs = [] then HostUnreachable else ConnectionNotAllowed)"
  unfolding select_allowed_resolved_addr_def select_loop_cases
  by (auto split: list.splits simp: filter_eq_Cons_iff filter_empty_conv list_all_iff)

section \<open>Bundles\<close>

lemmas policy_defs =
  target_allowed_def resolve_ip_target_def select_allowed_resolved_addr_def

end
