(* ===== verification/Relay.thy ===== *)
theory Relay
  imports Loopback
begin

text \<open>
  \<open>src/copy.rs\<close>, \<open>relay_tunnel_to_tcp\<close> of \<open>src/server.rs\<close> and \<open>relay_socks_tunnel\<close> of
  \<open>src/client.rs\<close>: two byte copies, one per direction, joined by \<open>tokio::try_join!\<close>. Each
  half copies until its reader is at its end and then closes its writer; the first error of
  either half ends both.

  The interleaving is explicit: a schedule says which half is polled next, for any order the
  runtime may choose. A schedule that runs out before both halves are complete is a relay that is
  still running: \<open>Hang\<close>. The interface \<open>ending_streams\<close> states when a relay does end.
\<close>

section \<open>The two halves\<close>

datatype closer = By_shutdown | By_finish

record 'h half =
  reader :: 'h
  writer :: 'h
  closed_by :: closer

datatype phase = Copying nat | Closing nat | Complete nat

definition close_writer :: "('w, 'h, 'z) env_scheme \<Rightarrow> 'h half \<Rightarrow> ('w, 'h, io_error, unit) act" where
  "close_writer E hf =
    (case closed_by hf of
       By_shutdown \<Rightarrow> shutdown E (writer hf)
     | By_finish \<Rightarrow> finish E (writer hf))"

definition poll_half ::
  "('w, 'h, 'z) env_scheme \<Rightarrow> 'h half \<Rightarrow> phase \<Rightarrow> ('w, 'h, io_error, phase) act" where
  "poll_half E hf ph =
    (case ph of
       Copying n \<Rightarrow>
         andthen (poll (copy_step E (reader hf) (writer hf))) (\<lambda>progress.
         case progress of
           None \<Rightarrow> ret (Copying n)
         | Some (Moved bs) \<Rightarrow> ret (Copying (n + length bs))
         | Some AtEnd \<Rightarrow> ret (Closing n))
     | Closing n \<Rightarrow>
         andthen (poll (close_writer E hf)) (\<lambda>closed.
         case closed of None \<Rightarrow> ret (Closing n) | Some _ \<Rightarrow> ret (Complete n))
     | Complete n \<Rightarrow> ret (Complete n))"

section \<open>Joining them\<close>

primrec try_join ::
  "('w, 'h, 'z) env_scheme \<Rightarrow> 'h half \<Rightarrow> 'h half \<Rightarrow> bool list \<Rightarrow> phase \<Rightarrow> phase \<Rightarrow>
    ('w, 'h, io_error, nat \<times> nat) act" where
  "try_join E a b [] p q =
    (case (p, q) of (Complete m, Complete n) \<Rightarrow> ret (m, n) | _ \<Rightarrow> hang)"
| "try_join E a b (left_next # sched) p q =
    (case (p, q) of
       (Complete m, Complete n) \<Rightarrow> ret (m, n)
     | _ \<Rightarrow>
         if left_next then andthen (poll_half E a p) (\<lambda>p'. try_join E a b sched p' q)
         else andthen (poll_half E b q) (\<lambda>q'. try_join E a b sched p q'))"

definition pump_bidirectional ::
  "('w, 'h, 'z) env_scheme \<Rightarrow> bool list \<Rightarrow> 'h \<Rightarrow> 'h \<Rightarrow> 'h \<Rightarrow> 'h \<Rightarrow> ('w, 'h, io_error, nat \<times> nat) act" where
  "pump_bidirectional E sched left_read left_write right_read right_write =
    try_join E
      \<lparr>reader = left_read, writer = right_write, closed_by = By_shutdown\<rparr>
      \<lparr>reader = right_read, writer = left_write, closed_by = By_shutdown\<rparr>
      sched (Copying 0) (Copying 0)"

text \<open>A TCP stream split in two is one handle: its halves never meet in the same copy.\<close>

definition relay_tunnel_to_tcp ::
  "('w, 'h, 'z) env_scheme \<Rightarrow> bool list \<Rightarrow> 'h \<Rightarrow> 'h \<Rightarrow> 'h \<Rightarrow> ('w, 'h, io_error, unit) act" where
  "relay_tunnel_to_tcp E sched send recv tcp =
    andthen
      (try_join E
        \<lparr>reader = recv, writer = tcp, closed_by = By_shutdown\<rparr>
        \<lparr>reader = tcp, writer = send, closed_by = By_finish\<rparr>
        sched (Copying 0) (Copying 0))
      (\<lambda>_. ret ())"

definition relay_socks_tunnel ::
  "('w, 'h, 'z) env_scheme \<Rightarrow> bool list \<Rightarrow> 'h \<Rightarrow> 'h \<Rightarrow> 'h \<Rightarrow> ('w, 'h, io_error, unit) act" where
  "relay_socks_tunnel E sched local send recv =
    andthen
      (try_join E
        \<lparr>reader = local, writer = send, closed_by = By_finish\<rparr>
        \<lparr>reader = recv, writer = local, closed_by = By_shutdown\<rparr>
        sched (Copying 0) (Copying 0))
      (\<lambda>_. ret ())"

text \<open>An instance: the tunnel stream (handles 1 and 2) brings two bytes, the target (3) three.\<close>

definition relay_world :: loop_world where
  "relay_world = empty_world\<lparr>inbox := (\<lambda>h. if h = 2 then ascii ''hi'' else if h = 3 then ascii ''yo!'' else [])\<rparr>"

definition relay_schedule :: "bool list" where
  "relay_schedule = [True, False, True, False, False, True, False, True, False]"

section \<open>What a half has done\<close>

fun closes :: "'h \<Rightarrow> 'h event \<Rightarrow> bool" where
  "closes h (Finish_ev h' (Done _)) \<longleftrightarrow> h' = h"
| "closes h (Shutdown_ev h' (Done _)) \<longleftrightarrow> h' = h"
| "closes h _ \<longleftrightarrow> False"

text \<open>A writer is closed at most once, and nothing is written to it afterwards.\<close>

fun quiet_after_close :: "'h \<Rightarrow> 'h event list \<Rightarrow> bool" where
  "quiet_after_close h [] \<longleftrightarrow> True"
| "quiet_after_close h (e # es) \<longleftrightarrow>
    (if closes h e then sent h es = [] \<and> \<not> list_ex (closes h) es else quiet_after_close h es)"

definition ended :: "'h half \<Rightarrow> 'h event list \<Rightarrow> bool" where
  "ended hf es \<longleftrightarrow> Copy_ev (reader hf) (writer hf) (Done AtEnd) \<in> set es"

lemma quiet_if_not_closed: "\<not> list_ex (closes h) es \<Longrightarrow> quiet_after_close h es"
  by (induction es) auto

text \<open>The events of a run that starts in phase \<open>p\<close>, seen from one half; and its byte count.\<close>

definition explains :: "'h half \<Rightarrow> phase \<Rightarrow> 'h event list \<Rightarrow> bool" where
  "explains hf p es \<longleftrightarrow>
    sent (writer hf) es = received (reader hf) es \<and>
    quiet_after_close (writer hf) es \<and>
    (case p of
       Copying n \<Rightarrow> list_ex (closes (writer hf)) es \<longrightarrow> ended hf es
     | Closing n \<Rightarrow> sent (writer hf) es = []
     | Complete n \<Rightarrow> sent (writer hf) es = [] \<and> \<not> list_ex (closes (writer hf)) es)"

fun phase_count :: "phase \<Rightarrow> nat" where
  "phase_count (Copying n) = n"
| "phase_count (Closing n) = n"
| "phase_count (Complete n) = n"

definition totals :: "'h half \<Rightarrow> phase \<Rightarrow> nat \<Rightarrow> 'h event list \<Rightarrow> bool" where
  "totals hf p m es \<longleftrightarrow>
    m = phase_count p + length (sent (writer hf) es) \<and>
    (p = Complete (phase_count p) \<or> list_ex (closes (writer hf)) es)"

lemma poll_half_runs:
  assumes "poll_half E hf p w = (r, w1, es)"
  obtains (copy) n pr where "p = Copying n" "es = [Copy_ev (reader hf) (writer hf) pr]"
      "r = (case pr of Done (Moved bs) \<Rightarrow> Done (Copying (n + length bs)) | Done AtEnd \<Rightarrow> Done (Closing n)
            | Fail e \<Rightarrow> Fail e | Hang \<Rightarrow> Done (Copying n))"
    | (close) n cr where "p = Closing n"
      "es = [case closed_by hf of By_shutdown \<Rightarrow> Shutdown_ev (writer hf) cr | By_finish \<Rightarrow> Finish_ev (writer hf) cr]"
      "r = (case cr of Done _ \<Rightarrow> Done (Complete n) | Fail e \<Rightarrow> Fail e | Hang \<Rightarrow> Done (Closing n))"
    | (idle) n where "p = Complete n" "es = []" "r = Done p"
proof (cases p)
  case (Copying n)
  then show thesis
    using assms copy
    by (auto simp: poll_half_def andthen_def poll_def copy_step_def call_def ret_def
        split: prod.splits outcome.splits copy_progress.splits)
next
  case (Closing n)
  then show thesis
    using assms close
    by (auto simp: poll_half_def andthen_def poll_def close_writer_def shutdown_def finish_def call_def ret_def
        split: prod.splits outcome.splits closer.splits)
next
  case (Complete n)
  then show thesis
    using assms idle by (simp add: poll_half_def ret_def)
qed

lemma poll_half_not_Hang: "poll_half E hf p w \<noteq> (Hang, w1, es)"
  by (auto elim!: poll_half_runs split: outcome.splits copy_progress.splits)

lemma explains_own:
  assumes "poll_half E hf p w = (Done p', w1, es1)" and "explains hf p' es"
  shows "explains hf p (es1 @ es)" and "totals hf p' m es \<Longrightarrow> totals hf p m (es1 @ es)"
  using assms(1)
  by (cases rule: poll_half_runs;
      use assms(2) in \<open>auto simp: explains_def totals_def ended_def quiet_if_not_closed
        split: closer.splits outcome.splits copy_progress.splits\<close>)+

lemma explains_failed: "poll_half E hf p w = (Fail e, w1, es) \<Longrightarrow> explains hf p es"
  by (erule poll_half_runs) (auto simp: explains_def split: closer.splits outcome.splits copy_progress.splits)

lemma explains_other:
  assumes "poll_half E a p w = (r, w1, es1)" "writer a \<noteq> writer b" "reader a \<noteq> reader b"
    and "explains b q es"
  shows "explains b q (es1 @ es)" and "totals b q m es \<Longrightarrow> totals b q m (es1 @ es)"
  using assms(1)
  by (cases rule: poll_half_runs;
      use assms(2-) in \<open>auto simp: explains_def totals_def ended_def
        split: closer.splits phase.splits outcome.splits copy_progress.splits\<close>)+

lemma explains_Nil: "explains hf p []"
  by (simp add: explains_def split: phase.splits)

section \<open>What a relay does\<close>

lemma try_join_explains:
  assumes "try_join E a b sched p q w = (r, w1, es)"
    and "writer a \<noteq> writer b" "reader a \<noteq> reader b"
  shows "explains a p es \<and> explains b q es \<and>
    (\<forall>m n. r = Done (m, n) \<longrightarrow> totals a p m es \<and> totals b q n es)"
  using assms(1)
proof (induction sched arbitrary: p q w es)
  case Nil
  then show ?case
    by (auto simp: explains_Nil totals_def ret_def hang_def split: phase.splits)
next
  case (Cons left_next sched)
  show ?case
  proof (cases "\<exists>m n. p = Complete m \<and> q = Complete n")
    case True
    then show ?thesis
      using Cons.prems by (auto simp: explains_Nil totals_def ret_def)
  next
    case False
    then have "try_join E a b (left_next # sched) p q =
        (if left_next then andthen (poll_half E a p) (\<lambda>p'. try_join E a b sched p' q)
         else andthen (poll_half E b q) (\<lambda>q'. try_join E a b sched p q'))"
      by (auto split: phase.splits)
    with Cons.prems consider
      (left) "left_next" "andthen (poll_half E a p) (\<lambda>p'. try_join E a b sched p' q) w = (r, w1, es)"
      | (right) "\<not> left_next" "andthen (poll_half E b q) (\<lambda>q'. try_join E a b sched p q') w = (r, w1, es)"
      by (auto split: if_splits)
    then show ?thesis
    proof cases
      case left
      from left(2) show ?thesis
      proof (cases rule: andthen_runs)
        case (ran p' w' es1 es2)
        note ih = Cons.IH [OF ran(2)]
        show ?thesis
          using ih explains_own [OF ran(1), of es2] explains_other [OF ran(1) assms(2,3), of q es2]
          unfolding ran(3) by blast
      next
        case (failed e)
        then show ?thesis
          using explains_failed [OF failed(1)] explains_other(1) [OF failed(1) assms(2,3) explains_Nil]
          by simp
      qed (simp add: poll_half_not_Hang)
    next
      case right
      from right(2) show ?thesis
      proof (cases rule: andthen_runs)
        case (ran q' w' es1 es2)
        note ih = Cons.IH [OF ran(2)]
        show ?thesis
          using ih explains_own [OF ran(1), of es2]
            explains_other [OF ran(1) assms(2) [symmetric] assms(3) [symmetric], of p es2]
          unfolding ran(3) by blast
      next
        case (failed e)
        then show ?thesis
          using explains_failed [OF failed(1)]
            explains_other(1) [OF failed(1) assms(2) [symmetric] assms(3) [symmetric] explains_Nil]
          by simp
      qed (simp add: poll_half_not_Hang)
    qed
  qed
qed

text \<open>One direction \<open>src\<close> to \<open>dst\<close> of a relay is faithful: everything read was written, in order;
  \<open>dst\<close> was closed only after \<open>src\<close> had ended, and left alone afterwards.\<close>

definition direction_faithful :: "'h \<Rightarrow> 'h \<Rightarrow> 'h event list \<Rightarrow> bool" where
  "direction_faithful src dst es \<longleftrightarrow>
    sent dst es = received src es \<and>
    quiet_after_close dst es \<and>
    (list_ex (closes dst) es \<longrightarrow> Copy_ev src dst (Done AtEnd) \<in> set es)"

lemma explains_faithful:
  "explains hf (Copying n) es \<Longrightarrow> direction_faithful (reader hf) (writer hf) es"
  by (simp add: explains_def direction_faithful_def ended_def)

text \<open>\<open>pump_bidirectional\<close>, for any interleaving of its halves and any behaviour of the
  streams, whether it completes, fails or is still running: in each direction the bytes
  written are the bytes read, a side is closed only after the other side has ended, and is not
  touched afterwards. When it completes, both sides have been closed and the two counts it
  returns are the numbers of bytes delivered.\<close>

theorem pump_faithful:
  assumes "pump_bidirectional E sched left_read left_write right_read right_write w = (r, w1, es)"
    and "left_read \<noteq> right_read" "left_write \<noteq> right_write"
  shows "direction_faithful left_read right_write es \<and> direction_faithful right_read left_write es \<and>
    (case r of
       Done (m, n) \<Rightarrow>
         m = length (sent right_write es) \<and> n = length (sent left_write es) \<and>
         list_ex (closes right_write) es \<and> list_ex (closes left_write) es
     | _ \<Rightarrow> True)"
  using try_join_explains [OF assms(1) [unfolded pump_bidirectional_def]] assms(2,3)
  by (auto simp: totals_def split: outcome.splits dest!: explains_faithful)

lemmas relay_eval_steps =
  relay_tunnel_to_tcp_def relay_socks_tunnel_def poll_half_def close_writer_def relay_schedule_def

lemmas relay_eval =
  relay_tunnel_to_tcp_def relay_socks_tunnel_def pump_bidirectional_def poll_half_def close_writer_def
  relay_world_def relay_schedule_def act_defs loop_defs

theorem pump_faithful_witness:
  "\<exists>w1 es. pump_bidirectional loop_env relay_schedule 2 1 3 4 relay_world = (Done (2, 3), w1, es) \<and>
    direction_faithful 2 4 es \<and> direction_faithful 3 1 es \<and> length (sent 1 es) = 3"
proof -
  obtain w1 es where run: "pump_bidirectional loop_env relay_schedule 2 1 3 4 relay_world = (Done (2, 3), w1, es)"
    by (simp add: relay_eval)
  from pump_faithful [OF this] run show ?thesis
    by auto
qed

lemma andthen_ret_unit:
  assumes "andthen m (\<lambda>_. ret ()) w = (r, w1, es)"
  obtains r' where "m w = (r', w1, es)" "r = Done () \<Longrightarrow> \<exists>x. r' = Done x"
  using assms by (cases rule: andthen_runs) (auto simp: ret_def)

lemma relay_tunnel_run:
  assumes "relay_tunnel_to_tcp E sched send recv tcp w = (r, w1, es)"
    and "recv \<noteq> tcp" "send \<noteq> tcp"
  shows "direction_faithful recv tcp es \<and> direction_faithful tcp send es \<and>
    (case r of Done _ \<Rightarrow> list_ex (closes tcp) es \<and> list_ex (closes send) es | _ \<Rightarrow> True)"
  using assms(1) unfolding relay_tunnel_to_tcp_def
proof (rule andthen_ret_unit)
  fix r' assume run: "try_join E \<lparr>reader = recv, writer = tcp, closed_by = By_shutdown\<rparr>
      \<lparr>reader = tcp, writer = send, closed_by = By_finish\<rparr> sched (Copying 0) (Copying 0) w = (r', w1, es)"
    and "r = Done () \<Longrightarrow> \<exists>x. r' = Done x"
  then show ?thesis
    using try_join_explains [OF run] assms(2,3)
    by (auto simp: totals_def split: outcome.splits dest!: explains_faithful)
qed

text \<open>C13: the exit server's relay, for any interleaving and any behaviour of the streams: what is
  written to the target is what was read from the tunnel and the other way round; the target is
  shut down only after the tunnel has ended and the tunnel stream finished only after the
  target has ended; and when the relay completes both have been closed.\<close>

theorem tunnel_relay_faithful:
  assumes "relay_tunnel_to_tcp E sched send recv tcp w = (r, w1, es)"
    and "recv \<noteq> tcp" "send \<noteq> tcp"
  shows "direction_faithful recv tcp es \<and> direction_faithful tcp send es \<and>
    (case r of Done _ \<Rightarrow> list_ex (closes tcp) es \<and> list_ex (closes send) es | _ \<Rightarrow> True)"
  by (rule relay_tunnel_run [OF assms])

theorem tunnel_relay_faithful_witness:
  "\<exists>w1 es. relay_tunnel_to_tcp loop_env relay_schedule 1 2 3 relay_world = (Done (), w1, es) \<and>
    direction_faithful 2 3 es \<and> direction_faithful 3 1 es \<and> sent 1 es = ascii ''yo!''"
proof -
  obtain w1 es where run: "relay_tunnel_to_tcp loop_env relay_schedule 1 2 3 relay_world = (Done (), w1, es)"
    and bytes: "sent 1 es = ascii ''yo!''"
    by (simp add: relay_eval)
  from tunnel_relay_faithful [OF run] run bytes show ?thesis
    by auto
qed

lemma relay_socks_run:
  assumes "relay_socks_tunnel E sched local send recv w = (r, w1, es)"
    and "local \<noteq> recv" "send \<noteq> local"
  shows "direction_faithful local send es \<and> direction_faithful recv local es \<and>
    (case r of Done _ \<Rightarrow> list_ex (closes local) es \<and> list_ex (closes send) es | _ \<Rightarrow> True)"
  using assms(1) unfolding relay_socks_tunnel_def
proof (rule andthen_ret_unit)
  fix r' assume run: "try_join E \<lparr>reader = local, writer = send, closed_by = By_finish\<rparr>
      \<lparr>reader = recv, writer = local, closed_by = By_shutdown\<rparr> sched (Copying 0) (Copying 0) w = (r', w1, es)"
    and "r = Done () \<Longrightarrow> \<exists>x. r' = Done x"
  then show ?thesis
    using try_join_explains [OF run] assms(2,3)
    by (auto simp: totals_def split: outcome.splits dest!: explains_faithful)
qed

text \<open>The local client's relay has the same guarantees: local socket to tunnel stream, tunnel
  stream to local socket.\<close>

theorem socks_relay_faithful:
  assumes "relay_socks_tunnel E sched local send recv w = (r, w1, es)"
    and "local \<noteq> recv" "send \<noteq> local"
  shows "direction_faithful local send es \<and> direction_faithful recv local es \<and>
    (case r of Done _ \<Rightarrow> list_ex (closes local) es \<and> list_ex (closes send) es | _ \<Rightarrow> True)"
  by (rule relay_socks_run [OF assms])

theorem socks_relay_faithful_witness:
  "\<exists>w1 es. relay_socks_tunnel loop_env relay_schedule 3 1 2
        (relay_world\<lparr>stream_end := (\<lambda>_. Stalled)\<rparr>) = (Hang, w1, es) \<and>
    direction_faithful 3 1 es \<and> direction_faithful 2 3 es \<and> sent 1 es = ascii ''yo!'' \<and> \<not> list_ex (closes 1) es"
proof -
  obtain w1 es where run: "relay_socks_tunnel loop_env relay_schedule 3 1 2
        (relay_world\<lparr>stream_end := (\<lambda>_. Stalled)\<rparr>) = (Hang, w1, es)"
    and bytes: "sent 1 es = ascii ''yo!''" "\<not> list_ex (closes 1) es"
    by (simp add: relay_eval)
  from socks_relay_faithful [OF run] run bytes show ?thesis
    by auto
qed

section \<open>When a relay ends\<close>

text \<open>What a run has read is what was unread before and is not any more; and a reader that has reported
  its end has nothing left.\<close>

definition drains :: "('h \<Rightarrow> 'w \<Rightarrow> u8 list) \<Rightarrow> 'w \<Rightarrow> 'h event list \<Rightarrow> 'w \<Rightarrow> bool" where
  "drains unread w es w1 \<longleftrightarrow>
    (\<forall>h. received h es @ unread h w1 = unread h w \<and>
      (\<forall>dst. Copy_ev h dst (Done AtEnd) \<in> set es \<longrightarrow> unread h w1 = []))"

lemma drains_refl: "drains unread w [] w"
  by (simp add: drains_def)

lemma drains_trans: "drains unread w es w1 \<Longrightarrow> drains unread w1 fs w2 \<Longrightarrow> drains unread w (es @ fs) w2"
  unfolding drains_def by (auto simp: append_eq_append_conv2) (metis append_assoc append_is_Nil_conv)+

text \<open>
  Streams whose readers have finitely many bytes \<open>unread\<close> and which do not stay pending for ever. A poll of
  a copy moves the next bytes, or is pending, and either way leaves less to do; or it reports the end, and then
  nothing is unread. A poll of a close succeeds, or is pending and leaves less to wait for. None of them
  fails while the writer is \<open>opened\<close>, and none gives the other streams more to do.
\<close>

definition preserves_others :: "('h \<Rightarrow> 'w \<Rightarrow> bool) \<Rightarrow> 'h set \<Rightarrow> 'w \<Rightarrow> 'w \<Rightarrow> bool" where
  "preserves_others opened except w w1 \<longleftrightarrow> (\<forall>k. k \<notin> except \<longrightarrow> opened k w1 = opened k w)"

definition no_more_to_do :: "('h \<Rightarrow> 'h \<Rightarrow> 'w \<Rightarrow> nat) \<Rightarrow> ('h \<Rightarrow> 'w \<Rightarrow> nat) \<Rightarrow> 'w \<Rightarrow> 'w \<Rightarrow> bool" where
  "no_more_to_do todo closing w w1 \<longleftrightarrow>
    (\<forall>src dst. todo src dst w1 \<le> todo src dst w) \<and> (\<forall>h. closing h w1 \<le> closing h w)"

definition close_ends ::
  "('h \<Rightarrow> 'h \<Rightarrow> 'w \<Rightarrow> nat) \<Rightarrow> ('h \<Rightarrow> 'w \<Rightarrow> nat) \<Rightarrow> ('h \<Rightarrow> 'w \<Rightarrow> u8 list) \<Rightarrow> ('h \<Rightarrow> 'w \<Rightarrow> bool) \<Rightarrow> ('w \<Rightarrow> bool) \<Rightarrow>
    'h \<Rightarrow> 'w \<Rightarrow> (io_error, unit) outcome \<Rightarrow> 'w \<Rightarrow> bool" where
  "close_ends todo closing unread opened live h w r w1 \<longleftrightarrow>
    live w1 \<and> preserves_others opened {h} w w1 \<and> no_more_to_do todo closing w w1 \<and>
    (\<forall>k. unread k w1 = unread k w) \<and>
    (r = Done () \<or> r = Hang \<and> opened h w1 \<and> closing h w1 < closing h w)"

locale ending_streams =
  fixes E :: "('w, 'h) env"
    and todo :: "'h \<Rightarrow> 'h \<Rightarrow> 'w \<Rightarrow> nat"
    and closing :: "'h \<Rightarrow> 'w \<Rightarrow> nat"
    and unread :: "'h \<Rightarrow> 'w \<Rightarrow> u8 list"
    and opened :: "'h \<Rightarrow> 'w \<Rightarrow> bool"
    and live :: "'w \<Rightarrow> bool"
  assumes copy_progresses:
      "\<lbrakk> live w; opened dst w; op_copy_step E src dst w = (r, w1) \<rbrakk> \<Longrightarrow>
        live w1 \<and> preserves_others opened {} w w1 \<and> no_more_to_do todo closing w w1 \<and>
        (\<forall>k. k \<noteq> src \<longrightarrow> unread k w1 = unread k w) \<and>
        (r = Done AtEnd \<and> unread src w = [] \<and> unread src w1 = [] \<or>
         (\<exists>bs. r = Done (Moved bs) \<and> unread src w = bs @ unread src w1) \<and> todo src dst w1 < todo src dst w \<or>
         r = Hang \<and> unread src w1 = unread src w \<and> todo src dst w1 < todo src dst w)"
    and finish_ends:
      "\<lbrakk> live w; opened h w; op_finish E h w = (rf, w1) \<rbrakk> \<Longrightarrow> close_ends todo closing unread opened live h w rf w1"
    and shutdown_ends:
      "\<lbrakk> live w; opened h w; op_shutdown E h w = (rf, w1) \<rbrakk> \<Longrightarrow> close_ends todo closing unread opened live h w rf w1"
begin

fun turns :: "'h half \<Rightarrow> phase \<Rightarrow> 'w \<Rightarrow> nat" where
  "turns hf (Copying n) w = todo (reader hf) (writer hf) w + closing (writer hf) w + 2"
| "turns hf (Closing n) w = closing (writer hf) w + 1"
| "turns hf (Complete n) w = 0"

definition ready :: "'h half \<Rightarrow> phase \<Rightarrow> 'w \<Rightarrow> bool" where
  "ready hf p w \<longleftrightarrow> live w \<and> (p = Complete (phase_count p) \<or> opened (writer hf) w)"

lemma turns_le: "no_more_to_do todo closing w w1 \<Longrightarrow> turns hf p w1 \<le> turns hf p w"
  by (cases p) (auto simp: no_more_to_do_def add_mono)

lemma close_step:
  assumes "ready hf (Closing n) w" and "close_writer E hf w = (r, w1, es)"
  shows "close_ends todo closing unread opened live (writer hf) w r w1 \<and> drains unread w es w1"
proof -
  have ok: "live w" "opened (writer hf) w"
    using assms(1) by (simp_all add: ready_def)
  show ?thesis
  proof (cases "closed_by hf")
    case By_shutdown
    then have "op_shutdown E (writer hf) w = (r, w1)" "es = [Shutdown_ev (writer hf) r]"
      using assms(2) by (auto simp: close_writer_def shutdown_def call_def split: prod.splits)
    with shutdown_ends [OF ok, of r w1] show ?thesis
      by (simp add: close_ends_def drains_def)
  next
    case By_finish
    then have "op_finish E (writer hf) w = (r, w1)" "es = [Finish_ev (writer hf) r]"
      using assms(2) by (auto simp: close_writer_def finish_def call_def split: prod.splits)
    with finish_ends [OF ok, of r w1] show ?thesis
      by (simp add: close_ends_def drains_def)
  qed
qed

lemma poll_progress:
  assumes "ready hf p w" and "poll_half E hf p w = (r, w1, es)"
  shows "\<exists>p'. r = Done p' \<and> ready hf p' w1 \<and> turns hf p' w1 \<le> turns hf p w - 1 \<and>
    preserves_others opened {writer hf} w w1 \<and> no_more_to_do todo closing w w1 \<and> drains unread w es w1"
proof (cases p)
  case (Copying n)
  obtain pr w2 where step: "op_copy_step E (reader hf) (writer hf) w = (pr, w2)"
    by fastforce
  have ok: "live w" "opened (writer hf) w"
    using assms(1) by (simp_all add: ready_def Copying)
  note law = copy_progresses [OF ok step]
  then have less: "pr \<noteq> Done AtEnd \<Longrightarrow> todo (reader hf) (writer hf) w2 + closing (writer hf) w2 <
      todo (reader hf) (writer hf) w + closing (writer hf) w"
    by (auto simp: no_more_to_do_def add_less_le_mono)
  have closing: "closing (writer hf) w2 \<le> closing (writer hf) w"
    using law by (simp add: no_more_to_do_def)
  have same: "unread k w2 = unread k w" if "\<forall>bs. pr \<noteq> Done (Moved bs)" for k
    using law that by (cases "k = reader hf") auto
  consider "pr = Done AtEnd" | bs where "pr = Done (Moved bs)" | "pr = Hang"
    using law by blast
  then show ?thesis
    by cases (use assms(2) ok law less closing same in \<open>auto simp: Copying poll_half_def andthen_def poll_def
        copy_step_def call_def ret_def step ready_def preserves_others_def drains_def split: if_splits\<close>)
next
  case (Closing n)
  obtain cr w2 es2 where step: "close_writer E hf w = (cr, w2, es2)"
    using prod_cases3 by blast
  have "close_ends todo closing unread opened live (writer hf) w cr w2" and drained: "drains unread w es2 w2"
    using close_step [OF assms(1) [unfolded Closing] step] by simp_all
  note law = this(1) [unfolded close_ends_def]
  then consider "cr = Done ()" | "cr = Hang"
    by blast
  then show ?thesis
    by cases (use assms(2) law drained in \<open>auto simp: Closing poll_half_def andthen_def poll_def ret_def step ready_def\<close>)
next
  case (Complete n)
  then show ?thesis
    using assms by (auto simp: poll_half_def ret_def preserves_others_def no_more_to_do_def drains_refl)
qed

lemma ready_other:
  "\<lbrakk> ready b q w; live w1; preserves_others opened {writer a} w w1; writer a \<noteq> writer b \<rbrakk> \<Longrightarrow> ready b q w1"
  by (auto simp: ready_def preserves_others_def)

lemma try_join_completes:
  assumes "ready a p w" "ready b q w" "writer a \<noteq> writer b"
    and "turns a p w \<le> length (filter (\<lambda>x. x) sched)" "turns b q w \<le> length (filter Not sched)"
  shows "\<exists>m n w1 es. try_join E a b sched p q w = (Done (m, n), w1, es) \<and> drains unread w es w1"
  using assms
proof (induction sched arbitrary: p q w)
  case Nil
  then show ?case
    by (cases p; cases q) (auto simp: ret_def drains_refl)
next
  case (Cons left_next sched)
  show ?case
  proof (cases "\<exists>m n. p = Complete m \<and> q = Complete n")
    case True
    then show ?thesis
      by (auto simp: ret_def drains_refl)
  next
    case False
    show ?thesis
    proof (cases left_next)
      case True
      obtain r w1 es where step: "poll_half E a p w = (r, w1, es)"
        using prod_cases3 by blast
      from poll_progress [OF Cons.prems(1) step] obtain p' where
        p': "r = Done p'" "ready a p' w1" "turns a p' w1 \<le> turns a p w - 1"
        "preserves_others opened {writer a} w w1" "no_more_to_do todo closing w w1" "drains unread w es w1"
        by blast
      have "ready b q w1"
        using ready_other [OF Cons.prems(2) _ p'(4) Cons.prems(3)] p'(2) by (simp add: ready_def)
      moreover have "turns a p' w1 \<le> length (filter (\<lambda>x. x) sched)" "turns b q w1 \<le> length (filter Not sched)"
        using p'(3) turns_le [OF p'(5), of b q] Cons.prems(4,5) True by simp_all
      ultimately obtain m n w2 es2 where "try_join E a b sched p' q w1 = (Done (m, n), w2, es2)" "drains unread w1 es2 w2"
        using Cons.IH [OF p'(2) _ Cons.prems(3)] by blast
      then show ?thesis
        using False True step p'(1) drains_trans [OF p'(6)] by (auto simp: andthen_def split: phase.splits)
    next
      case left: False
      obtain r w1 es where step: "poll_half E b q w = (r, w1, es)"
        using prod_cases3 by blast
      from poll_progress [OF Cons.prems(2) step] obtain q' where
        q': "r = Done q'" "ready b q' w1" "turns b q' w1 \<le> turns b q w - 1"
        "preserves_others opened {writer b} w w1" "no_more_to_do todo closing w w1" "drains unread w es w1"
        by blast
      have "ready a p w1"
        using ready_other [OF Cons.prems(1) _ q'(4) Cons.prems(3) [symmetric]] q'(2) by (simp add: ready_def)
      moreover have "turns b q' w1 \<le> length (filter Not sched)" "turns a p w1 \<le> length (filter (\<lambda>x. x) sched)"
        using q'(3) turns_le [OF q'(5), of a p] Cons.prems(4,5) left by simp_all
      ultimately obtain m n w2 es2 where "try_join E a b sched p q' w1 = (Done (m, n), w2, es2)" "drains unread w1 es2 w2"
        using Cons.IH [OF _ q'(2) Cons.prems(3)] by blast
      then show ?thesis
        using False left step q'(1) drains_trans [OF q'(6)] by (auto simp: andthen_def split: phase.splits)
    qed
  qed
qed

end

section \<open>The loopback environments end\<close>

definition loop_live :: "loop_world \<Rightarrow> bool" where
  "loop_live w \<longleftrightarrow> 0 < chunk_size w \<and> (\<forall>h. stream_end w h = AtEof)"

interpretation loop_ending: ending_streams loop_env "\<lambda>src _ w. length (inbox w src)" "\<lambda>_ _. 0"
  "\<lambda>h w. inbox w h" "\<lambda>h w. \<not> finished w h" loop_live
  by unfold_locales
    (auto simp: loop_env_def loop_copy_step_def loop_finish_def take_inbox_def loop_live_def
      preserves_others_def no_more_to_do_def close_ends_def split: if_splits)

text \<open>The same with streams that are pending: a stalled stream delays one poll that reads or closes it, and then wakes.\<close>

definition wake :: "nat \<Rightarrow> loop_world \<Rightarrow> loop_world" where
  "wake h w = w\<lparr>stream_end := (stream_end w)(h := AtEof)\<rparr>"

definition naps :: "nat \<Rightarrow> loop_world \<Rightarrow> nat" where
  "naps h w = (if stream_end w h = Stalled then 1 else 0)"

definition waking_env :: "(loop_world, nat) env" where
  "waking_env = loop_env
    \<lparr>op_copy_step := (\<lambda>src dst w. if stream_end w src = Stalled then (Hang, wake src w) else loop_copy_step src dst w),
     op_finish := (\<lambda>h w. if stream_end w h = Stalled then (Hang, wake h w) else loop_finish h w),
     op_shutdown := (\<lambda>h w. if stream_end w h = Stalled then (Hang, wake h w) else loop_finish h w)\<rparr>"

lemmas waking_defs =
  waking_env_def loop_env_def loop_copy_step_def loop_finish_def take_inbox_def wake_def naps_def
  preserves_others_def no_more_to_do_def close_ends_def

interpretation waking: ending_streams waking_env "\<lambda>src _ w. length (inbox w src) + naps src w" naps
  "\<lambda>h w. inbox w h" "\<lambda>h w. \<not> finished w h" "\<lambda>w. 0 < chunk_size w"
  by unfold_locales (auto simp: waking_defs split: if_splits stream_end.splits)

section \<open>A relay that ends\<close>

text \<open>C14: a relay ends when its streams do, in any environment. If the readers have finitely much to send and then
  end, the writers are open, and no poll stays pending for ever (\<open>ending_streams\<close>), then the relay completes
  without error under every schedule that gives each half enough turns: one for every poll that its copy or its
  close may still take, and two for the last poll of each. It has then delivered all of both sides.\<close>

theorem tunnel_relay_completes:
  assumes "ending_streams E todo closing unread opened live"
    and "live w" "opened send w" "opened tcp w" "send \<noteq> tcp" "recv \<noteq> tcp"
    and "todo recv tcp w + closing tcp w + 2 \<le> length (filter (\<lambda>x. x) sched)"
    and "todo tcp send w + closing send w + 2 \<le> length (filter Not sched)"
  shows "\<exists>w1 es. relay_tunnel_to_tcp E sched send recv tcp w = (Done (), w1, es) \<and>
    sent tcp es = unread recv w \<and> sent send es = unread tcp w"
proof -
  let ?a = "\<lparr>reader = recv, writer = tcp, closed_by = By_shutdown\<rparr>"
  let ?b = "\<lparr>reader = tcp, writer = send, closed_by = By_finish\<rparr>"
  note ends = assms(1)
  have "\<exists>m n w1 es. try_join E ?a ?b sched (Copying 0) (Copying 0) w = (Done (m, n), w1, es) \<and> drains unread w es w1"
    by (rule ending_streams.try_join_completes [OF ends])
      (use assms in \<open>simp_all add: ending_streams.ready_def [OF ends] ending_streams.turns.simps [OF ends]\<close>)
  then obtain m n w1 es where run: "try_join E ?a ?b sched (Copying 0) (Copying 0) w = (Done (m, n), w1, es)"
    and drained: "drains unread w es w1"
    by blast
  from run have relay: "relay_tunnel_to_tcp E sched send recv tcp w = (Done (), w1, es)"
    by (simp add: relay_tunnel_to_tcp_def andthen_def ret_def)
  have "explains ?a (Copying 0) es \<and> explains ?b (Copying 0) es \<and> totals ?a (Copying 0) m es \<and>
      totals ?b (Copying 0) n es"
    using try_join_explains [OF run] assms(5,6) by auto
  with drained have "sent tcp es = unread recv w" "sent send es = unread tcp w"
    by (auto simp: explains_def totals_def ended_def drains_def)
  with relay show ?thesis
    by blast
qed

text \<open>The instance, with a tunnel stream and a target that both are pending once before they deliver, and a tunnel
  stream that is pending once before it is finished.\<close>

definition drowsy_world :: loop_world where
  "drowsy_world = relay_world\<lparr>stream_end := (\<lambda>_. Stalled)\<rparr>"

definition patient_schedule :: "bool list" where
  "patient_schedule = relay_schedule @ [False, True, False, True]"

theorem tunnel_relay_completes_witness:
  "\<exists>w1 es. relay_tunnel_to_tcp waking_env patient_schedule 1 2 3 drowsy_world = (Done (), w1, es) \<and>
    Copy_ev 2 3 Hang \<in> set es \<and> sent 3 es = ascii ''hi'' \<and> sent 1 es = ascii ''yo!''"
proof -
  obtain w1 es where run: "relay_tunnel_to_tcp waking_env patient_schedule 1 2 3 drowsy_world = (Done (), w1, es)"
    and "sent 3 es = inbox drowsy_world 2" "sent 1 es = inbox drowsy_world 3"
    using tunnel_relay_completes [OF waking.ending_streams_axioms, of drowsy_world 1 3 2 patient_schedule]
    by (auto simp: drowsy_world_def relay_world_def patient_schedule_def relay_schedule_def naps_def empty_world_def)
  moreover have "Copy_ev 2 3 Hang \<in> set es"
    using run by (auto simp: patient_schedule_def relay_eval waking_env_def wake_def drowsy_world_def poll_def)
  ultimately show ?thesis
    by (simp add: drowsy_world_def relay_world_def)
qed

end
