(* ===== verification/ExitServer.thy ===== *)
theory ExitServer
  imports Tunnel TargetPolicy Relay
begin

text \<open>
  The stream handler of \<open>src/server.rs\<close>: read a tunnel request under a timeout, resolve its
  target and check it against the policy, connect, answer, relay. The theorems say which
  addresses the exit server contacts, and which answer every ending of a stream has.

  \<open>log_connection_route\<close>, called by the handler, writes a log line and changes no state of the
  program; the interleaving of the relay is the argument \<open>sched\<close>.
\<close>

section \<open>Configuration\<close>

record 'k ServerConfig =
  allow_private_targets :: bool
  allow_peers :: "'k list"
  target_connect_timeout :: duration
  tunnel_request_timeout :: duration
  max_connections :: nat
  max_streams_per_connection :: nat

definition server_config_new :: "bool \<Rightarrow> 'k list \<Rightarrow> 'k ServerConfig" where
  "server_config_new allow_private peers =
    \<lparr>allow_private_targets = allow_private, allow_peers = peers,
     target_connect_timeout = from_secs 15, tunnel_request_timeout = from_secs 10,
     max_connections = 128, max_streams_per_connection = 128\<rparr>"

section \<open>Operations\<close>

type_synonym ('w, 'h, 'a) handler = "('w, 'h, anyhow_error, 'a) act"

definition write_response_and_finish ::
  "('w, 'h, 'z) env_scheme \<Rightarrow> 'h \<Rightarrow> ReplyCode \<Rightarrow> ('w, 'h, unit) handler" where
  "write_response_and_finish E send code =
    andthen (map_err TunnelErr (write_response E send code)) (\<lambda>_.
    andthen (map_err IoErr (finish E send)) (\<lambda>_.
    ret ()))"

definition read_tunnel_request ::
  "('w, 'h, 'z) env_scheme \<Rightarrow> 'h \<Rightarrow> 'h \<Rightarrow> duration \<Rightarrow> ('w, 'h, ConnectRequest option) handler" where
  "read_tunnel_request E send recv request_timeout =
    andthen (timeout E request_timeout (read_request E recv)) (\<lambda>result.
    case result of
      Completed (Inr request) \<Rightarrow> ret (Some request)
    | Completed (Inl err) \<Rightarrow> raise (TunnelErr err)
    | Elapsed \<Rightarrow>
        andthen (map_err IoErr (finish E send)) (\<lambda>_.
        ret None))"

definition resolve_domain_target ::
  "('w, 'h, 'z) env_scheme \<Rightarrow> rstring \<Rightarrow> u16 \<Rightarrow> bool \<Rightarrow> ('w, 'h, ReplyCode, SocketAddr) act" where
  "resolve_domain_target E domain port allow_private =
    andthen (map_err (\<lambda>_. HostUnreachable) (lookup_host E domain port)) (\<lambda>addrs.
    from_result (select_allowed_resolved_addr addrs allow_private))"

definition resolve_target ::
  "('w, 'h, 'z) env_scheme \<Rightarrow> ConnectRequest \<Rightarrow> 'k ServerConfig \<Rightarrow> ('w, 'h, ReplyCode, SocketAddr) act" where
  "resolve_target E request config =
    (case cr_target request of
       Ip ip \<Rightarrow> from_result (resolve_ip_target ip (cr_port request) (allow_private_targets config))
     | Domain domain \<Rightarrow>
         resolve_domain_target E domain (cr_port request) (allow_private_targets config))"

definition resolve_allowed_target ::
  "('w, 'h, 'z) env_scheme \<Rightarrow> 'h \<Rightarrow> ConnectRequest \<Rightarrow> 'k ServerConfig \<Rightarrow> ('w, 'h, SocketAddr option) handler" where
  "resolve_allowed_target E send request config =
    (if \<not> target_allowed request (allow_private_targets config) then
       andthen (write_response_and_finish E send ConnectionNotAllowed) (\<lambda>_.
       ret None)
     else
       andthen (timeout E (target_connect_timeout config) (resolve_target E request config)) (\<lambda>result.
       case result of
         Completed (Inr target) \<Rightarrow> ret (Some target)
       | Completed (Inl code) \<Rightarrow>
           andthen (write_response_and_finish E send code) (\<lambda>_.
           ret None)
       | Elapsed \<Rightarrow>
           andthen (write_response_and_finish E send TtlExpired) (\<lambda>_.
           ret None)))"

definition connect_target ::
  "('w, 'h, 'z) env_scheme \<Rightarrow> 'h \<Rightarrow> SocketAddr \<Rightarrow> duration \<Rightarrow> ('w, 'h, 'h option) handler" where
  "connect_target E send target connect_timeout =
    andthen (timeout E connect_timeout (tcp_connect E target)) (\<lambda>result.
    case result of
      Completed (Inr stream) \<Rightarrow> ret (Some stream)
    | Completed (Inl err) \<Rightarrow>
        andthen (write_response_and_finish E send (map_connect_error err)) (\<lambda>_.
        ret None)
    | Elapsed \<Rightarrow>
        andthen (write_response_and_finish E send TtlExpired) (\<lambda>_.
        ret None))"

definition handle_tunnel_stream ::
  "('w, 'h, 'z) env_scheme \<Rightarrow> bool list \<Rightarrow> 'h \<Rightarrow> 'h \<Rightarrow> 'k ServerConfig \<Rightarrow> ('w, 'h, unit) handler" where
  "handle_tunnel_stream E sched send recv config =
    andthen (read_tunnel_request E send recv (tunnel_request_timeout config)) (\<lambda>requested.
    case requested of
      None \<Rightarrow> ret ()
    | Some request \<Rightarrow>
        andthen (resolve_allowed_target E send request config) (\<lambda>resolved.
        case resolved of
          None \<Rightarrow> ret ()
        | Some target \<Rightarrow>
            andthen (connect_target E send target (target_connect_timeout config)) (\<lambda>connected.
            case connected of
              None \<Rightarrow> ret ()
            | Some tcp \<Rightarrow>
                andthen (map_err TunnelErr (write_response E send Succeeded)) (\<lambda>_.
                map_err IoErr (relay_tunnel_to_tcp E sched send recv tcp)))))"

section \<open>The calls of each part\<close>

fun reads_only :: "'h \<Rightarrow> 'h event \<Rightarrow> bool" where
  "reads_only h (Read_exact_ev h' n r) \<longleftrightarrow> h' = h"
| "reads_only h _ \<longleftrightarrow> False"

fun answers_only :: "'h \<Rightarrow> 'h event \<Rightarrow> bool" where
  "answers_only h (Write_all_ev h' bs r) \<longleftrightarrow> h' = h"
| "answers_only h (Flush_ev h' r) \<longleftrightarrow> h' = h"
| "answers_only h (Finish_ev h' r) \<longleftrightarrow> h' = h"
| "answers_only h _ \<longleftrightarrow> False"

fun relays_only :: "'h event \<Rightarrow> bool" where
  "relays_only (Copy_ev src dst r) \<longleftrightarrow> True"
| "relays_only (Finish_ev h r) \<longleftrightarrow> True"
| "relays_only (Shutdown_ev h r) \<longleftrightarrow> True"
| "relays_only _ \<longleftrightarrow> False"

lemma read_request_calls: "emits (reads_only h) (\<lambda>_. True) (read_request E h)"
  unfolding read_request_def read_magic_and_version_def
  by (auto intro!: calls_rules split: option.split)

lemma write_response_calls: "emits (answers_only h) (\<lambda>_. True) (write_response E h code)"
  unfolding write_response_def by (auto intro!: calls_rules)

lemma write_response_and_finish_calls:
  "emits (answers_only h) (\<lambda>_. True) (write_response_and_finish E h code)"
  unfolding write_response_and_finish_def by (auto intro!: calls_rules write_response_calls)

lemma poll_half_calls: "emits relays_only (\<lambda>_. True) (poll_half E hf p)"
  unfolding poll_half_def close_writer_def
  by (auto intro!: calls_rules split: phase.split option.split copy_progress.split closer.split)

lemma try_join_calls: "emits relays_only (\<lambda>_. True) (try_join E a b sched p q)"
proof (induction sched arbitrary: p q)
  case (Cons x sched)
  then show ?case
    by (auto intro!: calls_rules poll_half_calls split: phase.split)
qed (auto intro!: calls_rules split: phase.split)

lemma relay_calls: "emits relays_only (\<lambda>_. True) (relay_tunnel_to_tcp E sched send recv tcp)"
  unfolding relay_tunnel_to_tcp_def by (auto intro!: calls_rules try_join_calls)

section \<open>What a session looks up, connects to and answers\<close>

fun lookups :: "'h event list \<Rightarrow> (rstring \<times> u16 \<times> (io_error, SocketAddr list) outcome) list" where
  "lookups [] = []"
| "lookups (Lookup_host_ev d p r # es) = (d, p, r) # lookups es"
| "lookups (_ # es) = lookups es"

fun connects :: "'h event list \<Rightarrow> (SocketAddr \<times> (io_error, 'h) outcome) list" where
  "connects [] = []"
| "connects (Tcp_connect_ev a r # es) = (a, r) # connects es"
| "connects (_ # es) = connects es"

text \<open>What a request resolves to, given what the resolver answered.\<close>

definition resolution ::
  "ConnectRequest \<Rightarrow> bool \<Rightarrow> (rstring \<times> u16 \<times> (io_error, SocketAddr list) outcome) list \<Rightarrow>
    ReplyCode + SocketAddr" where
  "resolution request allow_private found =
    (case cr_target request of
       Ip ip \<Rightarrow>
         if target_ip_allowed ip allow_private then Inr (SocketAddr ip (cr_port request))
         else Inl ConnectionNotAllowed
     | Domain d \<Rightarrow>
         (case found of
            [(_, _, Done addrs)] \<Rightarrow> select_allowed_resolved_addr addrs allow_private
          | [(_, _, Fail e)] \<Rightarrow> Inl HostUnreachable
          | _ \<Rightarrow> Inl TtlExpired))"

text \<open>The names it may look up: the target's, and only under the target's port.\<close>

definition looks_up :: "ConnectRequest \<Rightarrow> 'h event list \<Rightarrow> bool" where
  "looks_up request es \<longleftrightarrow>
    map (\<lambda>(d, p, _). (d, p)) (lookups es) =
      (case cr_target request of Ip _ \<Rightarrow> [] | Domain d \<Rightarrow> [(d, cr_port request)])"

definition answered :: "'h \<Rightarrow> ReplyCode \<Rightarrow> 'h event list \<Rightarrow> bool" where
  "answered send code es \<longleftrightarrow> sent send es = tunnel_response_bytes code \<and> list_ex (closes send) es"

text \<open>The answer to a connection attempt; after success the target's bytes follow.\<close>

definition connection_answered ::
  "'h \<Rightarrow> 'h \<Rightarrow> (io_error, 'h) outcome \<Rightarrow> 'h event list \<Rightarrow> bool" where
  "connection_answered send recv attempted es \<longleftrightarrow>
    (case attempted of
       Done tcp \<Rightarrow>
         send \<noteq> tcp \<and> recv \<noteq> tcp \<longrightarrow>
           sent send es = tunnel_response_bytes Succeeded @ received tcp es \<and> list_ex (closes send) es
     | Fail e \<Rightarrow> answered send (map_connect_error e) es
     | Hang \<Rightarrow> answered send TtlExpired es)"

lemma lookups_append [simp]: "lookups (es @ fs) = lookups es @ lookups fs"
  by (induction es rule: lookups.induct) simp_all

lemma connects_append [simp]: "connects (es @ fs) = connects es @ connects fs"
  by (induction es rule: connects.induct) simp_all

lemma reads_only_quiet:
  "list_all (reads_only h) es \<Longrightarrow> lookups es = [] \<and> connects es = [] \<and> sent k es = []"
proof (induction es)
  case (Cons e es)
  then show ?case by (cases e) auto
qed simp

lemma answers_only_quiet:
  "list_all (answers_only h) es \<Longrightarrow> lookups es = [] \<and> connects es = [] \<and> received k es = []"
proof (induction es)
  case (Cons e es)
  then show ?case by (cases e) auto
qed simp

lemma relays_only_quiet: "list_all relays_only es \<Longrightarrow> lookups es = [] \<and> connects es = []"
proof (induction es)
  case (Cons e es)
  then show ?case by (cases e) auto
qed simp

lemma Done_map_outcome: "Done x = map_outcome g id r \<longleftrightarrow> r = Done x"
  by (cases r) auto

lemma write_response_and_finish_answers:
  assumes "write_response_and_finish E h code w = (r, w1, es)"
  shows "lookups es = [] \<and> connects es = [] \<and> (\<forall>k. received k es = []) \<and> (\<forall>x. r = Done x \<longrightarrow> answered h code es)"
proof (intro conjI allI impI)
  show "lookups es = []" "connects es = []" "received k es = []" for k
    using emitsD [OF write_response_and_finish_calls assms] answers_only_quiet [of h es] by simp_all
  fix x assume r: "r = Done x"
  from assms [unfolded r] show "answered h code es"
    unfolding write_response_and_finish_def
    by (auto elim!: andthen_runs map_err_runs
        simp: answered_def ret_def finish_def call_def sendsD [OF write_response_sends] Done_map_outcome
        split: prod.splits)
qed

lemma resolve_target_run:
  assumes "resolve_target E req config w = (r, w1, es)" and "target_allowed req (allow_private_targets config)"
  shows "looks_up req es \<and> connects es = [] \<and> sent k es = [] \<and> (\<forall>k. received k es = []) \<and>
    resolution req (allow_private_targets config) (lookups es) =
      (case r of Done a \<Rightarrow> Inr a | Fail code \<Rightarrow> Inl code | Hang \<Rightarrow> Inl TtlExpired)"
proof (cases "cr_target req")
  case (Ip ip)
  then show ?thesis
    using assms
    by (auto simp: resolve_target_def resolve_ip_target_def from_result_def ret_def raise_def looks_up_def
        resolution_def target_allowed_def)
next
  case (Domain d)
  obtain lr w2 where "op_lookup_host E d (cr_port req) w = (lr, w2)"
    by fastforce
  then show ?thesis
    using assms Domain
    by (cases lr; auto simp: resolve_target_def resolve_domain_target_def lookup_host_def call_def andthen_def
        map_err_def from_result_def ret_def raise_def looks_up_def resolution_def split: sum.splits prod.splits)
qed

lemma resolve_allowed_target_run:
  assumes "resolve_allowed_target E send req config w = (r, w1, es)"
  shows "connects es = [] \<and> (\<forall>k. received k es = []) \<and>
    (case resolution req (allow_private_targets config) (lookups es) of
       Inr a \<Rightarrow> looks_up req es \<and> r = Done (Some a) \<and> sent send es = []
     | Inl code \<Rightarrow> \<forall>x. r = Done x \<longrightarrow> x = None \<and> looks_up req es \<and> answered send code es)"
proof (cases "target_allowed req (allow_private_targets config)")
  case False
  then obtain ip where ip: "cr_target req = Ip ip" "\<not> target_ip_allowed ip (allow_private_targets config)"
    by (auto simp: target_allowed_def split: TargetAddr.splits)
  from False assms have run: "andthen (write_response_and_finish E send ConnectionNotAllowed) (\<lambda>_. ret None) w = (r, w1, es)"
    by (simp add: resolve_allowed_target_def)
  then show ?thesis
    by (cases rule: andthen_runs)
      (auto simp: resolution_def ip looks_up_def ret_def dest!: write_response_and_finish_answers)
next
  case True
  with assms have run: "andthen (timeout E (target_connect_timeout config) (resolve_target E req config)) (\<lambda>result.
       case result of
         Completed (Inr target) \<Rightarrow> ret (Some target)
       | Completed (Inl code) \<Rightarrow> andthen (write_response_and_finish E send code) (\<lambda>_. ret None)
       | Elapsed \<Rightarrow> andthen (write_response_and_finish E send TtlExpired) (\<lambda>_. ret None)) w = (r, w1, es)"
    by (simp add: resolve_allowed_target_def)
  then show ?thesis
  proof (cases rule: andthen_runs)
    case (ran res w2 es1 es2)
    from ran(1) obtain r3 w3 es3 where
      res: "resolve_target E req config (op_deadline E (Some (target_connect_timeout config)) w) = (r3, w3, es3)"
      and r3: "Done res = Done (case r3 of Done x \<Rightarrow> Completed (Inr x) | Fail e \<Rightarrow> Completed (Inl e) | Hang \<Rightarrow> Elapsed)"
      and es1: "es1 = Deadline_ev (Some (target_connect_timeout config)) # es3 @ [Deadline_ev None]"
      by (rule timeout_runs) blast
    note spec = resolve_target_run [OF res True, of send]
    have seen: "looks_up req es1" "connects es1 = []" "sent send es1 = []" "lookups es1 = lookups es3"
      "\<And>k. received k es1 = []"
      using spec by (simp_all add: es1 looks_up_def)
    show ?thesis
    proof (cases r3)
      case (Done a)
      then show ?thesis
        using ran(2,3) r3 spec seen by (simp add: ret_def)
    next
      case (Fail code)
      then have "andthen (write_response_and_finish E send code) (\<lambda>_. ret None) w2 = (r, w1, es2)"
        using ran(2) r3 by simp
      then show ?thesis
        by (cases rule: andthen_runs)
          (use Fail spec seen ran(3) in \<open>auto simp: ret_def answered_def looks_up_def dest!: write_response_and_finish_answers\<close>)
    next
      case Hang
      then have "andthen (write_response_and_finish E send TtlExpired) (\<lambda>_. ret None) w2 = (r, w1, es2)"
        using ran(2) r3 by simp
      then show ?thesis
        by (cases rule: andthen_runs)
          (use Hang spec seen ran(3) in \<open>auto simp: ret_def answered_def looks_up_def dest!: write_response_and_finish_answers\<close>)
    qed
  qed (auto elim!: timeout_runs)
qed

lemma connect_target_run:
  assumes "connect_target E send a t w = (r, w1, es)"
  shows "\<exists>attempted. connects es = [(a, attempted)] \<and> lookups es = [] \<and> (\<forall>k. received k es = []) \<and>
    (case attempted of
       Done tcp \<Rightarrow> r = Done (Some tcp) \<and> sent send es = []
     | Fail e \<Rightarrow> \<forall>x. r = Done x \<longrightarrow> x = None \<and> answered send (map_connect_error e) es
     | Hang \<Rightarrow> \<forall>x. r = Done x \<longrightarrow> x = None \<and> answered send TtlExpired es)"
proof -
  obtain at w2 where step: "op_tcp_connect E a (op_deadline E (Some t) w) = (at, w2)"
    by fastforce
  let ?es = "[Deadline_ev (Some t), Tcp_connect_ev a at, Deadline_ev None]"
  have rej: "connects fs = [] \<and> lookups fs = [] \<and> (\<forall>k. received k fs = []) \<and>
      (\<forall>x. r = Done x \<longrightarrow> x = None \<and> answered send code (?es @ fs))"
    if "andthen (write_response_and_finish E send code) (\<lambda>_. ret (None :: 'a option)) w3 = (r, w1, fs)" for code w3 fs
    using that
    by (cases rule: andthen_runs)
      (auto simp: ret_def answered_def dest!: write_response_and_finish_answers)
  have run: "andthen (timeout E t (tcp_connect E a)) f w =
      (case f (case at of Done x \<Rightarrow> Completed (Inr x) | Fail e \<Rightarrow> Completed (Inl e) | Hang \<Rightarrow> Elapsed)
          (op_deadline E None w2) of (r, w1, fs) \<Rightarrow> (r, w1, ?es @ fs))" for f :: "(io_error, 'a) timed \<Rightarrow> _"
    by (simp add: andthen_def timeout_def tcp_connect_def call_def step split: prod.splits)
  obtain r' w1' fs where fs: "(case at of
        Done stream \<Rightarrow> ret (Some stream)
      | Fail err \<Rightarrow> andthen (write_response_and_finish E send (map_connect_error err)) (\<lambda>_. ret None)
      | Hang \<Rightarrow> andthen (write_response_and_finish E send TtlExpired) (\<lambda>_. ret None))
        (op_deadline E None w2) = (r', w1', fs)"
    using prod_cases3 by blast
  have *: "(r', w1', ?es @ fs) = (r, w1, es)"
    using assms fs unfolding connect_target_def run by (cases at) simp_all
  then show ?thesis
    using fs rej by (cases at) (auto simp: ret_def)
qed

lemma received_by_read:
  "received_by k (Read_exact_ev h n r) = (case r of Done bs \<Rightarrow> if h = k then bs else [] | _ \<Rightarrow> [])"
  by (cases r) simp_all

lemma read_tunnel_request_run:
  assumes "read_tunnel_request E send recv t w = (r, w1, es)"
    and "read_request E recv (op_deadline E (Some t) w) = (read, w2, es2)"
  shows "connects es = [] \<and> lookups es = [] \<and> sent send es = [] \<and> (\<forall>k. k \<noteq> recv \<longrightarrow> received k es = []) \<and>
    (case read of Done req \<Rightarrow> r = Done (Some req) | _ \<Rightarrow> \<forall>x. r = Done x \<longrightarrow> x = None \<and> list_ex (closes send) es)"
proof -
  have quiet: "list_all (reads_only recv) es2"
    using emitsD [OF read_request_calls assms(2)] by simp
  then have "k \<noteq> recv \<Longrightarrow> received k es2 = []" for k
  proof (induction es2)
    case (Cons e es2)
    then show ?case by (cases e) (auto simp: received_by_read split: outcome.splits)
  qed simp
  with reads_only_quiet [OF quiet] show ?thesis
    using assms
    by (auto simp: read_tunnel_request_def andthen_def timeout_def map_err_def finish_def call_def ret_def raise_def
        split: outcome.splits prod.splits)
qed

lemma serve_connection_run:
  assumes "andthen (map_err TunnelErr (write_response E send Succeeded)) (\<lambda>_.
      map_err IoErr (relay_tunnel_to_tcp E sched send recv tcp)) w = (r, w1, es)"
  shows "connects es = [] \<and> lookups es = [] \<and>
    (r = Done () \<longrightarrow> send \<noteq> tcp \<and> recv \<noteq> tcp \<longrightarrow>
      sent send es = tunnel_response_bytes Succeeded @ received tcp es \<and> list_ex (closes send) es)"
  using assms
proof (cases rule: andthen_runs)
  case (ran x w2 es1 es2)
  from ran(1) have wr: "write_response E send Succeeded w = (Done x, w2, es1)"
    by (rule map_err_runs) (simp add: Done_map_outcome)
  from ran(2) obtain r' where rel: "relay_tunnel_to_tcp E sched send recv tcp w2 = (r', w1, es2)"
    and r: "r = map_outcome IoErr id r'"
    by (rule map_err_runs)
  have "connects es1 = [] \<and> lookups es1 = [] \<and> received tcp es1 = []"
    using emitsD [OF write_response_calls wr] answers_only_quiet [of send es1] by simp
  moreover have "sent send es1 = tunnel_response_bytes Succeeded"
    by (rule sendsD [OF write_response_sends wr])
  moreover have "connects es2 = [] \<and> lookups es2 = []"
    using emitsD [OF relay_calls rel] relays_only_quiet [of es2] by simp
  moreover have "sent send es2 = received tcp es2 \<and> list_ex (closes send) es2"
    if "r = Done ()" "send \<noteq> tcp" "recv \<noteq> tcp"
    using relay_tunnel_run [OF rel that(3,2)] that(1) r by (simp add: direction_faithful_def)
  ultimately show ?thesis
    by (simp add: ran(3))
next
  case (failed e)
  then show ?thesis
    using emitsD [OF emits_map_err [OF write_response_calls] failed(1)] answers_only_quiet [of send es] by simp
next
  case hung
  then show ?thesis
    using emitsD [OF emits_map_err [OF write_response_calls] hung(1)] answers_only_quiet [of send es] by simp
qed

lemma session_run:
  assumes "handle_tunnel_stream E sched send recv config w = (r, w1, es)"
    and "read_request E recv (op_deadline E (Some (tunnel_request_timeout config)) w) = (Done req, w2, es2)"
  shows "case resolution req (allow_private_targets config) (lookups es) of
      Inl code \<Rightarrow>
        connects es = [] \<and>
        (case r of Done _ \<Rightarrow> looks_up req es \<and> answered send code es | _ \<Rightarrow> True)
    | Inr a \<Rightarrow>
        looks_up req es \<and>
        (\<exists>attempted. connects es = [(a, attempted)] \<and>
          (case r of Done _ \<Rightarrow> connection_answered send recv attempted es | _ \<Rightarrow> True))"
proof -
  let ?allow = "allow_private_targets config"
  obtain r1 u1 es1 where rd: "read_tunnel_request E send recv (tunnel_request_timeout config) w = (r1, u1, es1)"
    by (rule act_run)
  note rd_spec = read_tunnel_request_run [OF rd assms(2)]
  then have r1: "r1 = Done (Some req)"
    by simp
  obtain r2 u2 es2 where rs: "resolve_allowed_target E send req config u1 = (r2, u2, es2)"
    by (rule act_run)
  note rs_spec = resolve_allowed_target_run [OF rs]
  show ?thesis
  proof (cases "resolution req ?allow (lookups es2)")
    case (Inl code)
    with rs_spec have "r2 = Done x \<Longrightarrow> x = None" for x
      by simp
    then have "w1 = u2" "es = es1 @ es2" "r = map_outcome id (\<lambda>_. ()) r2"
      using assms(1) rd rs r1
      by (auto simp: handle_tunnel_stream_def andthen_def ret_def split: outcome.splits option.splits)
    then show ?thesis
      using Inl rs_spec rd_spec
      by (cases r2) (auto simp: answered_def looks_up_def)
  next
    case (Inr a)
    obtain r3 u3 es3 where cn: "connect_target E send a (target_connect_timeout config) u2 = (r3, u3, es3)"
      by (rule act_run)
    from connect_target_run [OF cn] obtain attempted where att: "connects es3 = [(a, attempted)]" "lookups es3 = []"
      "\<And>k. received k es3 = []"
      "case attempted of
         Done tcp \<Rightarrow> r3 = Done (Some tcp) \<and> sent send es3 = []
       | Fail e \<Rightarrow> \<forall>x. r3 = Done x \<longrightarrow> x = None \<and> answered send (map_connect_error e) es3
       | Hang \<Rightarrow> \<forall>x. r3 = Done x \<longrightarrow> x = None \<and> answered send TtlExpired es3"
      by blast
    have r2: "r2 = Done (Some a)" "sent send es2 = []" "looks_up req es2" "connects es2 = []"
      using rs_spec Inr by simp_all
    show ?thesis
    proof (cases "\<exists>tcp. r3 = Done (Some tcp)")
      case True
      then obtain tcp where r3: "r3 = Done (Some tcp)"
        by blast
      then have tcp: "attempted = Done tcp" "sent send es3 = []"
        using att(4) by (auto split: outcome.splits)
      obtain r4 u4 es4 where sv: "andthen (map_err TunnelErr (write_response E send Succeeded)) (\<lambda>_.
          map_err IoErr (relay_tunnel_to_tcp E sched send recv tcp)) u3 = (r4, u4, es4)"
        by (rule act_run)
      have "r = r4" "es = es1 @ es2 @ es3 @ es4"
        using assms(1) rd rs cn sv r1 r2 r3
        by (auto simp: handle_tunnel_stream_def andthen_def [of "read_tunnel_request _ _ _ _"]
            andthen_def [of "resolve_allowed_target _ _ _ _"] andthen_def [of "connect_target _ _ _ _"])
      moreover have "tcp \<noteq> recv \<Longrightarrow> received tcp es1 = []" "received tcp es2 = []"
        using rd_spec rs_spec by auto
      ultimately show ?thesis
        using Inr rd_spec r2 att tcp serve_connection_run [OF sv]
        by (auto simp: connection_answered_def looks_up_def split: outcome.splits)
    next
      case False
      have "r3 = Done x \<Longrightarrow> x = None" for x
        using False by (cases x) auto
      then have "es = es1 @ es2 @ es3" "r = map_outcome id (\<lambda>_. ()) r3"
        using assms(1) rd rs cn r1 r2
        by (auto simp: handle_tunnel_stream_def andthen_def ret_def split: outcome.splits option.splits)
      then show ?thesis
        using Inr rd_spec r2 att False
        by (cases r3; cases attempted) (auto simp: connection_answered_def answered_def looks_up_def)
    qed
  qed
qed

lemma unread_run:
  assumes "handle_tunnel_stream E sched send recv config w = (r, w1, es)"
    and "read_request E recv (op_deadline E (Some (tunnel_request_timeout config)) w) = (read, w2, es2)"
    and "\<And>req. read \<noteq> Done req"
  shows "connects es = [] \<and> lookups es = [] \<and> sent send es = [] \<and>
    (case r of Done _ \<Rightarrow> list_ex (closes send) es | _ \<Rightarrow> True)"
proof -
  obtain r1 u1 es1 where rd: "read_tunnel_request E send recv (tunnel_request_timeout config) w = (r1, u1, es1)"
    by (rule act_run)
  note spec = read_tunnel_request_run [OF rd assms(2)]
  with assms(3) have "r1 = Done x \<Longrightarrow> x = None" for x
    by (cases read) auto
  then have "es = es1" "r = map_outcome id (\<lambda>_. ()) r1"
    using assms(1) rd
    by (auto simp: handle_tunnel_stream_def andthen_def ret_def split: outcome.splits option.splits)
  with spec assms(3) show ?thesis
    by (cases read; cases r1) auto
qed

lemma resolution_allowed:
  assumes "resolution req allow_private found = Inr a"
  shows "target_ip_allowed (sa_ip a) allow_private"
proof (cases "cr_target req")
  case (Ip ip)
  then show ?thesis
    using assms by (auto simp: resolution_def split: if_splits)
next
  case (Domain d)
  have "target_ip_allowed (sa_ip a) allow_private" if "select_loop allow_private f addrs = Inr a" for f addrs
    using that by (induction addrs arbitrary: f) (auto split: if_splits)
  with assms Domain show ?thesis
    by (auto simp: resolution_def select_allowed_resolved_addr_def split: list.splits outcome.splits)
qed

section \<open>The session theorems\<close>

text \<open>An instance: the client asks for a public address; another asks for a private one.\<close>

definition example_config :: "nat ServerConfig" where
  "example_config = server_config_new False []"

definition example_target :: Ipv4Addr where
  "example_target = Ipv4 8 8 8 8"

definition example_world :: "Ipv4Addr \<Rightarrow> loop_world" where
  "example_world ip = empty_world
    \<lparr>inbox := (\<lambda>h. if h = 2 then tunnel_request_bytes \<lparr>cr_target = Ip (V4 ip), cr_port = 80\<rparr> @ ascii ''hi''
               else if h = 3 then ascii ''yo!'' else []),
     host_table := (\<lambda>a. if a = SocketAddr (V4 example_target) 80 then Done 3 else Fail ConnectionRefused)\<rparr>"

lemma be16_80: "be16 0 80 = 80"
  using be16_split [of 80] by simp

lemmas session_eval =
  handle_tunnel_stream_def read_tunnel_request_def resolve_allowed_target_def resolve_target_def
  connect_target_def write_response_and_finish_def resolve_ip_target_def relay_eval_steps
  read_request_def read_magic_and_version_def write_response_def tunnel_request_bytes_def
  MAGIC_def VERSION_def CMD_CONNECT_def be16_bytes_def be16_80 ipv4_from_def target_allowed_def
  target_ip_allowed_def is_public_ipv4_def example_world_def example_config_def example_target_def
  server_config_new_def loop_eval

definition example_private :: Ipv4Addr where
  "example_private = Ipv4 10 0 0 1"

lemma example_session:
  "\<exists>w1 es. handle_tunnel_stream loop_env relay_schedule 1 2 example_config (example_world example_target) =
      (Done (), w1, es) \<and> connects es = [(SocketAddr (V4 example_target) 80, Done 3)] \<and>
      sent 1 es = tunnel_response_bytes Succeeded @ ascii ''yo!''"
  by (simp add: session_eval tunnel_response_bytes_def)

lemma example_request_read:
  "\<exists>w2 es2. read_request loop_env 2
      (op_deadline loop_env (Some (tunnel_request_timeout example_config)) (example_world example_target)) =
    (Done \<lparr>cr_target = Ip (V4 example_target), cr_port = 80\<rparr>, w2, es2)"
  by (simp add: session_eval)

text \<open>C5: whatever a client sends, whatever the resolver answers and however the streams behave, the
  exit server connects to at most one address per stream, and only to one its policy allows.
  A name's addresses are checked after resolution, so a public name for a private address does
  not help.\<close>

theorem only_allowed_targets:
  assumes "handle_tunnel_stream E sched send recv config w = (r, w1, es)"
  shows "list_all (\<lambda>(a, _). target_ip_allowed (sa_ip a) (allow_private_targets config)) (connects es) \<and>
    length (connects es) \<le> 1"
proof -
  obtain read w2 es2 where rd:
    "read_request E recv (op_deadline E (Some (tunnel_request_timeout config)) w) = (read, w2, es2)"
    by (rule act_run)
  show ?thesis
  proof (cases "\<exists>req. read = Done req")
    case True
    then obtain req where "read = Done req"
      by blast
    from session_run [OF assms rd [unfolded this]] show ?thesis
      by (auto split: sum.splits dest: resolution_allowed)
  next
    case False
    with unread_run [OF assms rd] show ?thesis
      by simp
  qed
qed

theorem only_allowed_targets_witness:
  "\<exists>w1 es. handle_tunnel_stream loop_env relay_schedule 1 2 example_config (example_world example_private) =
      (Done (), w1, es) \<and> sent 1 es = tunnel_response_bytes ConnectionNotAllowed \<and>
      list_all (\<lambda>(a, _). target_ip_allowed (sa_ip a) False) (connects es) \<and> length (connects es) \<le> 1"
proof -
  obtain w1 es where run:
    "handle_tunnel_stream loop_env relay_schedule 1 2 example_config (example_world example_private) = (Done (), w1, es)"
    and bytes: "sent 1 es = tunnel_response_bytes ConnectionNotAllowed"
    by (simp add: session_eval example_private_def tunnel_response_bytes_def)
  from only_allowed_targets [OF run] run bytes show ?thesis
    by (simp add: example_config_def server_config_new_def)
qed

text \<open>C11: the outcome of a stream whose request was read. The request and the resolver's answer
  determine a resolution. If it is a refusal, nothing is connected to and a completed session
  has answered with exactly that code and finished the stream. If it is an address, that address
  is connected to, once; a completed session has answered a failure with its mapped code, a
  timeout with \<open>TtlExpired\<close>, and a success with \<open>Succeeded\<close> followed by the target's bytes. Only
  the requested name is looked up.\<close>

theorem session_outcome:
  assumes "handle_tunnel_stream E sched send recv config w = (r, w1, es)"
    and "read_request E recv (op_deadline E (Some (tunnel_request_timeout config)) w) = (Done req, w2, es2)"
  shows "case resolution req (allow_private_targets config) (lookups es) of
      Inl code \<Rightarrow>
        connects es = [] \<and>
        (case r of Done _ \<Rightarrow> looks_up req es \<and> answered send code es | _ \<Rightarrow> True)
    | Inr a \<Rightarrow>
        looks_up req es \<and>
        (\<exists>attempted. connects es = [(a, attempted)] \<and>
          (case r of Done _ \<Rightarrow> connection_answered send recv attempted es | _ \<Rightarrow> True))"
  by (rule session_run [OF assms])

theorem session_outcome_witness:
  "\<exists>w1 es attempted. handle_tunnel_stream loop_env relay_schedule 1 2 example_config (example_world example_target) =
      (Done (), w1, es) \<and> connects es = [(SocketAddr (V4 example_target) 80, attempted)] \<and>
      connection_answered 1 2 attempted es \<and> attempted = Done 3"
proof -
  obtain w1 es where run:
    "handle_tunnel_stream loop_env relay_schedule 1 2 example_config (example_world example_target) = (Done (), w1, es)"
    and con: "connects es = [(SocketAddr (V4 example_target) 80, Done 3)]"
    using example_session by blast
  obtain w2 es2 where rd: "read_request loop_env 2
      (op_deadline loop_env (Some (tunnel_request_timeout example_config)) (example_world example_target)) =
    (Done \<lparr>cr_target = Ip (V4 example_target), cr_port = 80\<rparr>, w2, es2)"
    using example_request_read by blast
  from session_outcome [OF run rd] run con show ?thesis
    by (auto simp: resolution_def split: if_splits)
qed

text \<open>C35: a stream on which no valid request arrives in time costs the exit server nothing: no name is
  looked up, no address contacted, no byte answered; after a timeout the stream is finished.\<close>

theorem unread_request_has_no_effect:
  assumes "handle_tunnel_stream E sched send recv config w = (r, w1, es)"
    and "read_request E recv (op_deadline E (Some (tunnel_request_timeout config)) w) = (read, w2, es2)"
    and "case read of Done _ \<Rightarrow> False | _ \<Rightarrow> True"
  shows "connects es = [] \<and> lookups es = [] \<and> sent send es = [] \<and>
    (case r of Done _ \<Rightarrow> list_ex (closes send) es | _ \<Rightarrow> True)"
proof -
  have "read \<noteq> Done req" for req
    using assms(3) by auto
  from unread_run [OF assms(1,2) this] show ?thesis .
qed


theorem unread_request_has_no_effect_witness:
  "\<exists>w1 es. handle_tunnel_stream loop_env [] 1 2 example_config (empty_world\<lparr>stream_end := (\<lambda>_. Stalled)\<rparr>) =
      (Done (), w1, es) \<and> connects es = [] \<and> sent 1 es = [] \<and> list_ex (closes 1) es"
proof -
  let ?w = "empty_world\<lparr>stream_end := (\<lambda>_. Stalled)\<rparr>"
  obtain w1 es where run: "handle_tunnel_stream loop_env [] 1 2 example_config ?w = (Done (), w1, es)"
    by (simp add: session_eval)
  obtain w2 es2 where rd: "read_request loop_env 2
      (op_deadline loop_env (Some (tunnel_request_timeout example_config)) ?w) = (Hang, w2, es2)"
    by (simp add: session_eval)
  from unread_request_has_no_effect [OF run rd] run show ?thesis
    by simp
qed

end
