(* ===== verification/SocksClient.thy ===== *)
theory SocksClient
  imports ExitServer
begin

text \<open>
  The SOCKS session of \<open>src/client.rs\<close>: negotiate, read the CONNECT request, open a tunnel
  stream, send the request over it, read the status, reply, relay. Each step has its timeout,
  and each way of failing its reply. The theorems say that the local application is told
  \<open>Succeeded\<close> only on the exit server's word, that bytes are relayed only after that, and that
  the exit server is asked for exactly what the application asked for.
\<close>

section \<open>Configuration\<close>

definition DEFAULT_SOCKS_HANDSHAKE_TIMEOUT :: duration where
  "DEFAULT_SOCKS_HANDSHAKE_TIMEOUT = from_secs 10"

definition DEFAULT_TUNNEL_OPERATION_TIMEOUT :: duration where
  "DEFAULT_TUNNEL_OPERATION_TIMEOUT = from_secs 10"

definition DEFAULT_MAX_CONCURRENT_SESSIONS :: nat where
  "DEFAULT_MAX_CONCURRENT_SESSIONS = 128"

record ClientConfig =
  socks_handshake_timeout :: duration
  tunnel_operation_timeout :: duration
  max_concurrent_sessions :: nat

definition client_config_default :: ClientConfig where
  "client_config_default =
    \<lparr>socks_handshake_timeout = DEFAULT_SOCKS_HANDSHAKE_TIMEOUT,
     tunnel_operation_timeout = DEFAULT_TUNNEL_OPERATION_TIMEOUT,
     max_concurrent_sessions = DEFAULT_MAX_CONCURRENT_SESSIONS\<rparr>"

section \<open>Operations\<close>

definition perform_socks_handshake ::
  "('w, 'h, 'z) env_scheme \<Rightarrow> 'h \<Rightarrow> duration \<Rightarrow> ('w, 'h, bool) handler" where
  "perform_socks_handshake E local handshake_timeout =
    andthen (timeout E handshake_timeout (negotiate_no_auth E local)) (\<lambda>result.
    case result of
      Completed (Inr _) \<Rightarrow> ret True
    | Completed (Inl err) \<Rightarrow> raise (SocksErr err)
    | Elapsed \<Rightarrow> ret False)"

definition read_socks_connect_request ::
  "('w, 'h, 'z) env_scheme \<Rightarrow> 'h \<Rightarrow> duration \<Rightarrow> ('w, 'h, ConnectRequest option) handler" where
  "read_socks_connect_request E local handshake_timeout =
    andthen (timeout E handshake_timeout (read_connect_request E local)) (\<lambda>result.
    case result of
      Completed (Inr request) \<Rightarrow> ret (Some request)
    | Completed (Inl err) \<Rightarrow>
        andthen (ignore (write_reply E local (error_reply_code err))) (\<lambda>_.
        raise (SocksErr err))
    | Elapsed \<Rightarrow> ret None)"

definition open_tunnel_stream ::
  "('w, 'h, 'z) env_scheme \<Rightarrow> 'h \<Rightarrow> duration \<Rightarrow> ('w, 'h, ('h \<times> 'h) option) handler" where
  "open_tunnel_stream E local operation_timeout =
    andthen (timeout E operation_timeout (open_bi E)) (\<lambda>result.
    case result of
      Completed (Inr streams) \<Rightarrow> ret (Some streams)
    | Completed (Inl err) \<Rightarrow>
        andthen (ignore (write_reply E local GeneralFailure)) (\<lambda>_.
        raise (IoErr err))
    | Elapsed \<Rightarrow>
        andthen (ignore (write_reply E local TtlExpired)) (\<lambda>_.
        ret None))"

definition send_tunnel_request ::
  "('w, 'h, 'z) env_scheme \<Rightarrow> 'h \<Rightarrow> 'h \<Rightarrow> ConnectRequest \<Rightarrow> duration \<Rightarrow> ('w, 'h, bool) handler" where
  "send_tunnel_request E local send request operation_timeout =
    andthen (timeout E operation_timeout (write_request E send request)) (\<lambda>result.
    case result of
      Completed (Inr _) \<Rightarrow> ret True
    | Completed (Inl err) \<Rightarrow>
        andthen (ignore (write_reply E local GeneralFailure)) (\<lambda>_.
        raise (TunnelErr err))
    | Elapsed \<Rightarrow>
        andthen (ignore (finish E send)) (\<lambda>_.
        andthen (ignore (write_reply E local TtlExpired)) (\<lambda>_.
        ret False)))"

definition read_tunnel_status ::
  "('w, 'h, 'z) env_scheme \<Rightarrow> 'h \<Rightarrow> 'h \<Rightarrow> duration \<Rightarrow> ('w, 'h, ReplyCode option) handler" where
  "read_tunnel_status E local recv operation_timeout =
    andthen (timeout E operation_timeout (read_response E recv)) (\<lambda>result.
    case result of
      Completed (Inr status) \<Rightarrow> ret (Some status)
    | Completed (Inl err) \<Rightarrow>
        andthen (ignore (write_reply E local GeneralFailure)) (\<lambda>_.
        raise (TunnelErr err))
    | Elapsed \<Rightarrow>
        andthen (ignore (write_reply E local TtlExpired)) (\<lambda>_.
        ret None))"

definition handle_socks_connection ::
  "('w, 'h, 'z) env_scheme \<Rightarrow> bool list \<Rightarrow> 'h \<Rightarrow> duration \<Rightarrow> duration \<Rightarrow> ('w, 'h, unit) handler" where
  "handle_socks_connection E sched local handshake_timeout operation_timeout =
    andthen (perform_socks_handshake E local handshake_timeout) (\<lambda>shaken.
    if \<not> shaken then ret ()
    else
      andthen (read_socks_connect_request E local handshake_timeout) (\<lambda>requested.
      case requested of
        None \<Rightarrow> ret ()
      | Some request \<Rightarrow>
          andthen (open_tunnel_stream E local operation_timeout) (\<lambda>opened.
          case opened of
            None \<Rightarrow> ret ()
          | Some (send, recv) \<Rightarrow>
              andthen (send_tunnel_request E local send request operation_timeout) (\<lambda>delivered.
              if \<not> delivered then ret ()
              else
                andthen (read_tunnel_status E local recv operation_timeout) (\<lambda>answered.
                case answered of
                  None \<Rightarrow> ret ()
                | Some status \<Rightarrow>
                    andthen (map_err SocksErr (write_reply E local status)) (\<lambda>_.
                    if status \<noteq> Succeeded then
                      andthen (map_err IoErr (finish E send)) (\<lambda>_.
                      ret ())
                    else map_err IoErr (relay_socks_tunnel E sched local send recv)))))))"

section \<open>What a session does, as seen in its calls\<close>

text \<open>The bytes it tries to write on a handle, the streams it opens, and whether it copies.\<close>

fun writes :: "'h \<Rightarrow> 'h event list \<Rightarrow> u8 list list" where
  "writes h [] = []"
| "writes h (Write_all_ev h' bs r # es) = (if h' = h then bs # writes h es else writes h es)"
| "writes h (_ # es) = writes h es"

fun opens :: "'h event list \<Rightarrow> (io_error, 'h \<times> 'h) outcome list" where
  "opens [] = []"
| "opens (Open_bi_ev r # es) = r # opens es"
| "opens (_ # es) = opens es"

fun copies :: "'h event list \<Rightarrow> bool" where
  "copies [] = False"
| "copies (Copy_ev src dst r # es) = True"
| "copies (_ # es) = copies es"

definition socks_reply :: "ReplyCode \<Rightarrow> u8 list" where
  "socks_reply code = [0x05, reply_code_u8 code, 0x00, 0x01, 0, 0, 0, 0, 0, 0]"

lemma writes_append [simp]: "writes h (es @ fs) = writes h es @ writes h fs"
  by (induction h es rule: writes.induct) simp_all

lemma opens_append [simp]: "opens (es @ fs) = opens es @ opens fs"
  by (induction es rule: opens.induct) simp_all

lemma copies_append [simp]: "copies (es @ fs) \<longleftrightarrow> copies es \<or> copies fs"
  by (induction es rule: copies.induct) simp_all

lemma socks_reply_inject [simp]: "socks_reply c = socks_reply d \<longleftrightarrow> c = d"
  by (simp add: socks_reply_def)

lemma socks_reply_not_greeting [simp]: "socks_reply c \<noteq> [x, y]" "[x, y] \<noteq> socks_reply c"
  by (simp_all add: socks_reply_def)

lemma reads_only_view:
  "list_all (reads_only h) es \<Longrightarrow> writes k es = [] \<and> opens es = [] \<and> \<not> copies es \<and> sent k es = [] \<and>
    (k \<noteq> h \<longrightarrow> received k es = [])"
proof (induction es)
  case (Cons e es)
  then show ?case by (cases e) (auto simp: received_by_read split: outcome.split)
qed simp

lemma answers_only_view:
  "list_all (answers_only h) es \<Longrightarrow>
    opens es = [] \<and> \<not> copies es \<and> received k es = [] \<and> (k \<noteq> h \<longrightarrow> writes k es = [] \<and> sent k es = [])"
proof (induction es)
  case (Cons e es)
  have "received k [e] = []" if "answers_only h e"
    using that by (cases e) auto
  moreover have "sent k [e] = []" if "answers_only h e" "k \<noteq> h"
    using that by (cases e; cases "case e of Write_all_ev h bs r \<Rightarrow> r | _ \<Rightarrow> Hang") auto
  ultimately show ?case using Cons by (cases e) auto
qed simp

lemma relays_only_view: "list_all relays_only es \<Longrightarrow> writes k es = [] \<and> opens es = []"
proof (induction es)
  case (Cons e es)
  then show ?case by (cases e) auto
qed simp

lemma read_connect_request_calls: "emits (reads_only h) (\<lambda>_. True) (read_connect_request E h)"
  unfolding read_connect_request_def
  by (auto intro!: calls_rules split: option.split)

lemma read_greeting_calls: "emits (reads_only h) (\<lambda>_. True) (read_greeting E h)"
  unfolding read_greeting_def by (auto intro!: calls_rules)

lemma read_response_calls: "emits (reads_only h) (\<lambda>_. True) (read_response E h)"
  unfolding read_response_def read_magic_and_version_def
  by (auto intro!: calls_rules split: sum.split)

lemma write_request_calls: "emits (answers_only h) (\<lambda>_. True) (write_request E h req)"
  unfolding write_request_def
  by (auto intro!: calls_rules split: TargetAddr.split IpAddr.split)

lemma write_reply_calls: "emits (answers_only h) (\<lambda>_. True) (write_reply E h code)"
  unfolding write_reply_def by (auto intro!: calls_rules)

lemma write_reply_view:
  assumes "write_reply E h code w = (r, w1, es)"
  shows "writes h es = [socks_reply code] \<and> opens es = [] \<and> \<not> copies es \<and> (\<forall>k. received k es = []) \<and>
    (\<forall>k. k \<noteq> h \<longrightarrow> sent k es = [])"
  using assms emitsD [OF write_reply_calls assms] answers_only_view [of h es]
  by (auto simp: write_reply_def andthen_def map_err_def write_all_def flush_def call_def ret_def socks_reply_def
      split: outcome.splits prod.splits)

lemma relay_socks_calls: "emits relays_only (\<lambda>_. True) (relay_socks_tunnel E sched local send recv)"
  unfolding relay_socks_tunnel_def by (auto intro!: calls_rules try_join_calls)

lemma negotiate_view:
  assumes "negotiate_no_auth E h w = (r, w1, es)"
  shows "opens es = [] \<and> \<not> copies es \<and> (writes h es = [] \<or> (\<exists>m. writes h es = [[0x05, m]])) \<and>
    (\<forall>x. r = Done x \<longrightarrow> writes h es = [[0x05, 0x00]]) \<and> (\<forall>k. k \<noteq> h \<longrightarrow> sent k es = [] \<and> received k es = [])"
  using assms unfolding negotiate_no_auth_split
proof (cases rule: andthen_runs)
  case (ran ms w2 es1 es2)
  have "writes h es2 = [[0x05, if 0x00 \<in> set ms then 0x00 else 0xff]] \<and> list_all (answers_only h) es2 \<and>
      (\<forall>x. r = Done x \<longrightarrow> 0x00 \<in> set ms)"
    using ran(2)
    by (auto simp: answer_greeting_def andthen_def map_err_def write_all_def flush_def call_def ret_def raise_def
        split: outcome.splits prod.splits if_splits)
  then show ?thesis
    using emitsD [OF read_greeting_calls ran(1)] reads_only_view [of h es1] answers_only_view [of h es2]
    by (auto simp: ran(3))
next
  case (failed e)
  then show ?thesis
    using emitsD [OF read_greeting_calls failed(1)] reads_only_view [of h es] by auto
next
  case hung
  then show ?thesis
    using emitsD [OF read_greeting_calls hung(1)] reads_only_view [of h es] by auto
qed

text \<open>The steps, in order. A step either ends the session or hands on its result.\<close>

lemma ignored_reply_runs:
  assumes "andthen (ignore (write_reply E h code)) f w = (r, w1, es)"
  obtains (hung) "r = Hang" "writes h es = [socks_reply code] \<and> opens es = [] \<and> \<not> copies es"
    | (sent) w2 es1 es2 where "f () w2 = (r, w1, es2)" "es = es1 @ es2"
      "writes h es1 = [socks_reply code] \<and> opens es1 = [] \<and> \<not> copies es1"
proof -
  obtain r1 w2 es1 where wr: "write_reply E h code w = (r1, w2, es1)"
    by (rule act_run)
  note view = write_reply_view [OF wr]
  from wr show thesis
    using assms view hung sent
    by (cases r1; auto simp: andthen_def ignore_def attempt_def ret_def split: prod.splits)
qed

lemma handshake_view:
  assumes "perform_socks_handshake E h t w = (r, w1, es)"
  shows "opens es = [] \<and> \<not> copies es \<and> (writes h es = [] \<or> (\<exists>m. writes h es = [[0x05, m]])) \<and>
    (r = Done True \<longrightarrow> writes h es = [[0x05, 0x00]]) \<and> (\<forall>k. k \<noteq> h \<longrightarrow> sent k es = [] \<and> received k es = [])"
proof -
  obtain r1 w2 es1 where neg: "negotiate_no_auth E h (op_deadline E (Some t) w) = (r1, w2, es1)"
    by (rule act_run)
  with assms negotiate_view [OF neg] show ?thesis
    by (cases r1) (auto simp: perform_socks_handshake_def andthen_def timeout_def ret_def raise_def)
qed

lemma request_view:
  assumes "read_socks_connect_request E h t w = (r, w1, es)"
  shows "opens es = [] \<and> \<not> copies es \<and> (\<forall>k. k \<noteq> h \<longrightarrow> sent k es = [] \<and> received k es = []) \<and>
    (case r of
       Done requested \<Rightarrow> writes h es = [] \<and>
         (\<forall>req. requested = Some req \<longrightarrow>
           (\<exists>w2 es2. read_connect_request E h (op_deadline E (Some t) w) = (Done req, w2, es2)))
     | _ \<Rightarrow> \<exists>code. code \<noteq> Succeeded \<and> writes h es = [socks_reply code])"
proof -
  obtain r1 w2 es1 where rd: "read_connect_request E h (op_deadline E (Some t) w) = (r1, w2, es1)"
    by (rule act_run)
  have view: "list_all (reads_only h) es1"
    using emitsD [OF read_connect_request_calls rd] by simp
  have code: "error_reply_code e \<noteq> Succeeded" for e
    by (cases e) simp_all
  show ?thesis
  proof (cases r1)
    case (Fail e)
    obtain r2 w3 es3 where wr: "write_reply E h (error_reply_code e) (op_deadline E None w2) = (r2, w3, es3)"
      by (rule act_run)
    with assms rd Fail code [of e] reads_only_view [OF view] write_reply_view [OF wr] show ?thesis
      by (cases r2) (auto simp: read_socks_connect_request_def andthen_def timeout_def ret_def raise_def
        ignore_def attempt_def)
  qed (use assms rd reads_only_view [OF view] in
      \<open>auto simp: read_socks_connect_request_def andthen_def timeout_def ret_def\<close>)
qed

lemma open_view:
  assumes "open_tunnel_stream E h t w = (r, w1, es)"
  shows "\<exists>opened. opens es = [opened] \<and> \<not> copies es \<and>
    (case r of
       Done (Some streams) \<Rightarrow>
         opened = Done streams \<and> writes h es = [] \<and> (\<forall>k. sent k es = [] \<and> received k es = [])
     | _ \<Rightarrow> (\<forall>streams. opened \<noteq> Done streams) \<and> (\<exists>code. code \<noteq> Succeeded \<and> writes h es = [socks_reply code]))"
proof -
  obtain opened w2 where op: "op_open_bi E (op_deadline E (Some t) w) = (opened, w2)"
    by fastforce
  show ?thesis
  proof (cases opened)
    case (Done streams)
    then show ?thesis
      using assms op
      by (auto simp: open_tunnel_stream_def andthen_def timeout_def open_bi_def call_def ret_def)
  next
    case (Fail e)
    obtain r2 w3 es3 where wr: "write_reply E h GeneralFailure (op_deadline E None w2) = (r2, w3, es3)"
      by (rule act_run)
    with assms op Fail write_reply_view [OF wr] show ?thesis
      by (cases r2) (auto simp: open_tunnel_stream_def andthen_def timeout_def open_bi_def call_def ret_def raise_def
        ignore_def attempt_def)
  next
    case Hang
    obtain r2 w3 es3 where wr: "write_reply E h TtlExpired (op_deadline E None w2) = (r2, w3, es3)"
      by (rule act_run)
    with assms op Hang write_reply_view [OF wr] show ?thesis
      by (cases r2) (auto simp: open_tunnel_stream_def andthen_def timeout_def open_bi_def call_def ret_def
        ignore_def attempt_def)
  qed
qed

lemma send_view:
  assumes "send_tunnel_request E h send req t w = (r, w1, es)" and "h \<noteq> send"
  shows "opens es = [] \<and> \<not> copies es \<and>
    (if r = Done True then writes h es = [] \<and> sent h es = [] \<and> sent send es = tunnel_request_bytes req \<and> (\<forall>k. received k es = [])
     else writes h es = [] \<or> (\<exists>code. code \<noteq> Succeeded \<and> writes h es = [socks_reply code]))"
proof -
  obtain r1 w2 es1 where wr: "write_request E send req (op_deadline E (Some t) w) = (r1, w2, es1)"
    by (rule act_run)
  have view: "list_all (answers_only send) es1"
    using emitsD [OF write_request_calls wr] by simp
  show ?thesis
  proof (cases r1)
    case (Done x)
    with sendsD [OF write_request_sends wr [unfolded Done]] show ?thesis
      using assms wr answers_only_view [OF view]
      by (auto simp: send_tunnel_request_def andthen_def timeout_def ret_def)
  next
    case (Fail e)
    obtain r2 w3 es3 where reply: "write_reply E h GeneralFailure (op_deadline E None w2) = (r2, w3, es3)"
      by (rule act_run)
    with assms wr Fail answers_only_view [OF view] write_reply_view [OF reply] show ?thesis
      by (cases r2) (auto simp: send_tunnel_request_def andthen_def timeout_def ret_def raise_def
        ignore_def attempt_def)
  next
    case Hang
    obtain rf w3 where fin: "op_finish E send (op_deadline E None w2) = (rf, w3)"
      by fastforce
    obtain r2 w4 es3 where reply: "write_reply E h TtlExpired w3 = (r2, w4, es3)"
      by (rule act_run)
    with assms wr Hang fin answers_only_view [OF view] write_reply_view [OF reply] show ?thesis
      by (cases rf; cases r2) (auto simp: send_tunnel_request_def andthen_def timeout_def ret_def
        ignore_def attempt_def finish_def call_def)
  qed
qed

lemma map_outcome_result: "map_outcome id f r = Done y \<longleftrightarrow> (\<exists>x. r = Done x \<and> y = f x)"
  by (cases r) auto

lemma read_response_received:
  assumes "read_response E h w = (Done status, w1, es)"
  shows "\<exists>hi lo. received h es = MAGIC @ [VERSION, reply_code_u8 status, hi, lo]"
  using assms
  by (auto simp: read_response_def read_magic_and_version_def read_u8_def read_u16_def read_exact_def call_def
      andthen_def map_err_def ret_def raise_def reply_code_try_from_Inr upt_rec
      map_outcome_result
      split: prod.splits outcome.splits if_splits sum.splits)

lemma status_view:
  assumes "read_tunnel_status E h recv t w = (r, w1, es)" and "h \<noteq> recv"
  shows "opens es = [] \<and> \<not> copies es \<and> (\<forall>k. k \<noteq> h \<longrightarrow> sent k es = []) \<and>
    (case r of
       Done (Some status) \<Rightarrow> writes h es = [] \<and> sent h es = [] \<and> (\<forall>k. k \<noteq> recv \<longrightarrow> received k es = []) \<and>
         (\<exists>hi lo. received recv es = MAGIC @ [VERSION, reply_code_u8 status, hi, lo])
     | _ \<Rightarrow> \<exists>code. code \<noteq> Succeeded \<and> writes h es = [socks_reply code])"
proof -
  obtain r1 w2 es1 where rd: "read_response E recv (op_deadline E (Some t) w) = (r1, w2, es1)"
    by (rule act_run)
  have view: "list_all (reads_only recv) es1"
    using emitsD [OF read_response_calls rd] by simp
  show ?thesis
  proof (cases r1)
    case (Done status)
    with read_response_received [OF rd [unfolded Done]] show ?thesis
      using assms rd reads_only_view [OF view]
      by (auto simp: read_tunnel_status_def andthen_def timeout_def ret_def)
  next
    case (Fail e)
    obtain r2 w3 es3 where reply: "write_reply E h GeneralFailure (op_deadline E None w2) = (r2, w3, es3)"
      by (rule act_run)
    with assms rd Fail reads_only_view [OF view] write_reply_view [OF reply] show ?thesis
      by (cases r2) (auto simp: read_tunnel_status_def andthen_def timeout_def ret_def raise_def
        ignore_def attempt_def)
  next
    case Hang
    obtain r2 w4 es3 where reply: "write_reply E h TtlExpired (op_deadline E None w2) = (r2, w4, es3)"
      by (rule act_run)
    with assms rd Hang reads_only_view [OF view] write_reply_view [OF reply] show ?thesis
      by (cases r2) (auto simp: read_tunnel_status_def andthen_def timeout_def ret_def
        ignore_def attempt_def)
  qed
qed

text \<open>The last step: hand on the status, then relay or finish.\<close>

definition conclude ::
  "('w, 'h, 'z) env_scheme \<Rightarrow> bool list \<Rightarrow> 'h \<Rightarrow> 'h \<Rightarrow> 'h \<Rightarrow> ReplyCode \<Rightarrow> ('w, 'h, unit) handler" where
  "conclude E sched local send recv status =
    andthen (map_err SocksErr (write_reply E local status)) (\<lambda>_.
    if status \<noteq> Succeeded then
      andthen (map_err IoErr (finish E send)) (\<lambda>_.
      ret ())
    else map_err IoErr (relay_socks_tunnel E sched local send recv))"

lemma write_reply_sent: "write_reply E h code w = (Done x, w1, es) \<Longrightarrow> sent h es = socks_reply code"
  by (auto simp: write_reply_def andthen_def map_err_def write_all_def flush_def call_def ret_def socks_reply_def
      split: outcome.splits prod.splits)

lemma conclude_view:
  assumes "conclude E sched h send recv status w = (r, w1, es)" and "h \<noteq> send" "h \<noteq> recv"
  shows "opens es = [] \<and> writes h es = [socks_reply status] \<and> (copies es \<longrightarrow> status = Succeeded) \<and>
    (r = Done () \<longrightarrow> list_ex (closes send) es \<and>
      (if status = Succeeded
       then sent send es = received h es \<and> sent h es = socks_reply status @ received recv es \<and> list_ex (closes h) es
       else sent send es = [] \<and> sent h es = socks_reply status))"
  using assms(1) unfolding conclude_def
proof (cases rule: andthen_runs)
  case (ran x w2 es1 es2)
  from ran(1) have wr: "write_reply E h status w = (Done x, w2, es1)"
    by (rule map_err_runs) (simp add: Done_map_outcome)
  note view = write_reply_view [OF wr] write_reply_sent [OF wr]
  show ?thesis
  proof (cases "status = Succeeded")
    case True
    then obtain r' where rel: "relay_socks_tunnel E sched h send recv w2 = (r', w1, es2)"
      and r: "r = map_outcome IoErr id r'"
      using ran(2) by (auto elim: map_err_runs)
    have "writes h es2 = [] \<and> opens es2 = []"
      using emitsD [OF relay_socks_calls rel] relays_only_view [of es2] by simp
    moreover have "sent send es2 = received h es2 \<and> sent h es2 = received recv es2 \<and>
        list_ex (closes send) es2 \<and> list_ex (closes h) es2" if "r = Done ()"
      using relay_socks_run [OF rel] assms(2,3) that r by (auto simp: direction_faithful_def)
    ultimately show ?thesis
      using view True assms(2,3) by (auto simp: ran(3))
  next
    case False
    then have "andthen (map_err IoErr (finish E send)) (\<lambda>_. ret ()) w2 = (r, w1, es2)"
      using ran(2) by simp
    then have "\<exists>fr. es2 = [Finish_ev send fr] \<and> (r = Done () \<longrightarrow> fr = Done ())"
      by (auto simp: andthen_def map_err_def finish_def call_def ret_def split: prod.splits outcome.splits)
    with view False assms(2) show ?thesis
      by (auto simp: ran(3))
  qed
next
  case (failed e)
  from failed(1) obtain r' where wr: "write_reply E h status w = (r', w1, es)"
    by (rule map_err_runs)
  from write_reply_view [OF wr] failed(2) show ?thesis
    by simp
next
  case hung
  from hung(1) obtain r' where wr: "write_reply E h status w = (r', w1, es)"
    by (rule map_err_runs)
  from write_reply_view [OF wr] hung(2) show ?thesis
    by simp
qed

section \<open>Whole sessions\<close>

text \<open>
  A session that told the application nothing good; and one that passed on the exit server's
  status: its events up to the status, then those from the reply on.
\<close>

definition unsuccessful :: "'h \<Rightarrow> 'h event list \<Rightarrow> bool" where
  "unsuccessful local es \<longleftrightarrow>
    \<not> copies es \<and> socks_reply Succeeded \<notin> set (writes local es) \<and> length (writes local es) \<le> 2"

definition status_asked ::
  "'h \<Rightarrow> 'h \<Rightarrow> 'h \<Rightarrow> ConnectRequest \<Rightarrow> ReplyCode \<Rightarrow> 'h event list \<Rightarrow> bool" where
  "status_asked local send recv req status es \<longleftrightarrow>
    opens es = [Done (send, recv)] \<and> writes local es = [[0x05, 0x00]] \<and> \<not> copies es \<and>
    sent send es = tunnel_request_bytes req \<and>
    (\<exists>hi lo. received recv es = MAGIC @ [VERSION, reply_code_u8 status, hi, lo])"

definition status_passed_on ::
  "'h \<Rightarrow> 'h \<Rightarrow> 'h \<Rightarrow> ReplyCode \<Rightarrow> bool \<Rightarrow> 'h event list \<Rightarrow> bool" where
  "status_passed_on local send recv status completed es \<longleftrightarrow>
    opens es = [] \<and> writes local es = [socks_reply status] \<and> (copies es \<longrightarrow> status = Succeeded) \<and>
    (completed \<longrightarrow> list_ex (closes send) es \<and>
      (if status = Succeeded
       then sent send es = received local es \<and> sent local es = socks_reply status @ received recv es \<and>
         list_ex (closes local) es
       else sent send es = [] \<and> sent local es = socks_reply status))"

lemma exchange_view:
  assumes "andthen (send_tunnel_request E h send req t) (\<lambda>delivered.
      if \<not> delivered then ret ()
      else andthen (read_tunnel_status E h recv t) (\<lambda>answered.
        case answered of None \<Rightarrow> ret () | Some status \<Rightarrow> conclude E sched h send recv status)) w = (r, w1, es)"
    and "h \<noteq> send" "h \<noteq> recv" "send \<noteq> recv"
  shows "opens es = [] \<and>
    (\<not> copies es \<and> socks_reply Succeeded \<notin> set (writes h es) \<and> length (writes h es) \<le> 1 \<or>
     (\<exists>status es0 es1. es = es0 @ es1 \<and> writes h es0 = [] \<and> \<not> copies es0 \<and>
        sent send es0 = tunnel_request_bytes req \<and>
        (\<exists>hi lo. received recv es0 = MAGIC @ [VERSION, reply_code_u8 status, hi, lo]) \<and>
        status_passed_on h send recv status (r = Done ()) es1))"
  using assms(1)
proof (cases rule: andthen_runs)
  case (ran delivered w2 es1 es2)
  note send_view = send_view [OF ran(1) assms(2)]
  show ?thesis
  proof (cases delivered)
    case False
    then show ?thesis
      using ran(2,3) send_view by (auto simp: ret_def)
  next
    case True
    then have "andthen (read_tunnel_status E h recv t) (\<lambda>answered.
        case answered of None \<Rightarrow> ret () | Some status \<Rightarrow> conclude E sched h send recv status) w2 = (r, w1, es2)"
      using ran(2) by simp
    then show ?thesis
    proof (cases rule: andthen_runs)
      case inner: (ran answered w3 es3 es4)
      note status_view = status_view [OF inner(1) assms(3)]
      show ?thesis
      proof (cases answered)
        case None
        then show ?thesis
          using inner(2,3) ran(3) send_view status_view True by (auto simp: ret_def)
      next
        case (Some status)
        then have con: "conclude E sched h send recv status w3 = (r, w1, es4)"
          using inner(2) by simp
        have es: "es = (es1 @ es3) @ es4"
          using ran(3) inner(3) by simp
        have passed: "status_passed_on h send recv status (r = Done ()) es4"
          using conclude_view [OF con assms(2,3)] by (simp add: status_passed_on_def)
        have asked: "writes h (es1 @ es3) = []" "\<not> copies (es1 @ es3)"
          "sent send (es1 @ es3) = tunnel_request_bytes req" "opens (es1 @ es3) = []"
          "\<exists>hi lo. received recv (es1 @ es3) = MAGIC @ [VERSION, reply_code_u8 status, hi, lo]"
          using send_view status_view True Some assms(2) by simp_all
        have "opens es = []"
          using asked(4) passed by (simp add: es status_passed_on_def)
        with asked passed es show ?thesis
          by blast
      qed
    next
      case (failed e)
      then show ?thesis
        using ran(3) send_view status_view [OF failed(1) assms(3)] True by auto
    next
      case hung
      then show ?thesis
        using ran(3) send_view status_view [OF hung(1) assms(3)] True by auto
    qed
  qed
next
  case (failed e)
  then show ?thesis
    using send_view [OF failed(1) assms(2)] by auto
next
  case hung
  then show ?thesis
    using send_view [OF hung(1) assms(2)] by auto
qed

text \<open>What the application asked for: the negotiation succeeded, and then this request was read in time.\<close>

definition asked_for :: "('w, 'h, 'z) env_scheme \<Rightarrow> 'h \<Rightarrow> duration \<Rightarrow> 'w \<Rightarrow> ConnectRequest \<Rightarrow> bool" where
  "asked_for E local t w req \<longleftrightarrow>
    (\<exists>v ea w2 ec. perform_socks_handshake E local t w = (Done True, v, ea) \<and>
      read_socks_connect_request E local t v = (Done (Some req), w2, ec))"

lemma session_view:
  assumes "handle_socks_connection E sched h t1 t2 w = (r, w1, es)"
    and fresh: "\<And>send recv. Done (send, recv) \<in> set (opens es) \<Longrightarrow> h \<noteq> send \<and> h \<noteq> recv \<and> send \<noteq> recv"
  shows "length (opens es) \<le> 1 \<and>
    (unsuccessful h es \<or>
     (\<exists>send recv req status es0 es1. es = es0 @ es1 \<and> status_asked h send recv req status es0 \<and>
        status_passed_on h send recv status (r = Done ()) es1 \<and>
        asked_for E h t1 w req))"
  using assms(1) unfolding handle_socks_connection_def conclude_def [symmetric]
proof (cases rule: andthen_runs)
  case (ran shaken w2 ea eb)
  note hs = handshake_view [OF ran(1)]
  show ?thesis
  proof (cases shaken)
    case False
    then show ?thesis
      using ran(2,3) hs by (auto simp: ret_def unsuccessful_def)
  next
    case True
    with hs have hs: "opens ea = []" "\<not> copies ea" "writes h ea = [[0x05, 0x00]]"
      "\<And>k. k \<noteq> h \<Longrightarrow> sent k ea = [] \<and> received k ea = []"
      by auto
    show ?thesis
      using ran(2) [unfolded eqTrueI [OF \<open>shaken\<close>] not_True_eq_False if_False]
    proof (cases rule: andthen_runs)
      case req: (ran requested w3 ec ed)
      note rq = request_view [OF req(1)]
      show ?thesis
      proof (cases requested)
        case None
        then show ?thesis
          using req(2,3) ran(3) hs rq by (auto simp: ret_def unsuccessful_def)
      next
        case (Some request)
        with rq have rq: "opens ec = []" "\<not> copies ec" "writes h ec = []"
          "\<And>k. k \<noteq> h \<Longrightarrow> sent k ec = [] \<and> received k ec = []"
          by auto
        have asked: "asked_for E h t1 w request"
          using ran(1) req(1) \<open>shaken\<close> Some by (auto simp: asked_for_def)
        show ?thesis
          using req(2) unfolding Some option.case
        proof (cases rule: andthen_runs)
          case op: (ran opened w4 ee ef)
          note opv = open_view [OF op(1)]
          show ?thesis
          proof (cases opened)
            case None
            then show ?thesis
              using op(2,3) req(3) ran(3) hs rq opv by (auto simp: ret_def unsuccessful_def)
          next
            case (Some streams)
            obtain send recv where streams: "streams = (send, recv)"
              by fastforce
            with Some opv have opv: "opens ee = [Done (send, recv)]" "\<not> copies ee" "writes h ee = []"
              "\<And>k. sent k ee = [] \<and> received k ee = []"
              by auto
            have es: "es = (ea @ ec @ ee) @ ef"
              by (simp add: ran(3) req(3) op(3))
            have distinct: "h \<noteq> send" "h \<noteq> recv" "send \<noteq> recv"
              using fresh [of send recv] opv(1) by (simp_all add: es)
            note ex = exchange_view [OF op(2) [unfolded Some streams option.case prod.case] distinct]
            then consider
              (quiet) "opens ef = []" "\<not> copies ef" "socks_reply Succeeded \<notin> set (writes h ef)" "length (writes h ef) \<le> 1"
              | (passed) status es0 es1 where "opens ef = []" "ef = es0 @ es1" "writes h es0 = []" "\<not> copies es0"
                "sent send es0 = tunnel_request_bytes request"
                "\<exists>hi lo. received recv es0 = MAGIC @ [VERSION, reply_code_u8 status, hi, lo]"
                "status_passed_on h send recv status (r = Done ()) es1"
              by blast
            then show ?thesis
            proof cases
              case quiet
              then show ?thesis
                using hs rq opv by (simp add: es unsuccessful_def)
            next
              case passed
              have "status_asked h send recv request status ((ea @ ec @ ee) @ es0)"
                using passed hs rq opv distinct by (auto simp: status_asked_def)
              moreover have "es = ((ea @ ec @ ee) @ es0) @ es1"
                by (simp add: es passed(2))
              moreover have "length (opens es) \<le> 1"
                using passed(1) hs rq opv by (simp add: es)
              ultimately show ?thesis
                using passed(7) asked by blast
            qed
          qed
        next
          case (failed e)
          then show ?thesis
            using req(3) ran(3) hs rq open_view [OF failed(1)] by (auto simp: unsuccessful_def)
        next
          case hung
          then show ?thesis
            using req(3) ran(3) hs rq open_view [OF hung(1)] by (auto simp: unsuccessful_def)
        qed
      qed
    next
      case (failed e)
      then show ?thesis
        using ran(3) hs request_view [OF failed(1)] by (auto simp: unsuccessful_def)
    next
      case hung
      then show ?thesis
        using ran(3) hs request_view [OF hung(1)] by (auto simp: unsuccessful_def)
    qed
  qed
next
  case (failed e)
  then show ?thesis
    using handshake_view [OF failed(1)] by (auto simp: unsuccessful_def)
next
  case hung
  then show ?thesis
    using handshake_view [OF hung(1)] by (auto simp: unsuccessful_def)
qed

section \<open>What the application sent\<close>

text \<open>Before a request is read the application has sent a greeting that offers the method \<open>no authentication\<close>.\<close>

definition greeting_bytes :: "u8 list \<Rightarrow> u8 list" where
  "greeting_bytes methods = [0x05, of_nat (length methods)] @ methods"

lemma parse_greeting_Parsed:
  assumes "parse_greeting bs = Parsed methods rest"
  shows "bs = greeting_bytes methods @ rest"
  using assms by (auto simp: parse_greeting_def greeting_bytes_def parsed_iffs split: if_splits)

context byte_source
begin

lemma answer_greeting_keeps:
  assumes "answer_greeting E h methods w = (r, w1, es)"
  shows "pending w1 = pending w"
  using assms
  by (auto simp: answer_greeting_def andthen_def map_err_def write_all_def flush_def call_def ret_def raise_def
      dest!: write_keeps flush_keeps split: prod.splits outcome.splits if_splits)

lemma asked_for_sent:
  assumes "asked_for E local t w req"
  shows "wf_request req \<and> (\<exists>methods more. 0x00 \<in> set methods \<and>
    pending w local = greeting_bytes methods @ socks_request_bytes req @ more)"
proof -
  obtain v ea w2 ec where shake: "perform_socks_handshake E local t w = (Done True, v, ea)"
    and request: "read_socks_connect_request E local t v = (Done (Some req), w2, ec)"
    using assms by (auto simp: asked_for_def)
  obtain n u eb where neg: "negotiate_no_auth E local (op_deadline E (Some t) w) = (n, u, eb)"
    by (rule act_run)
  with shake have u: "n = Done ()" "v = op_deadline E None u"
    by (auto simp: perform_socks_handshake_def andthen_def timeout_def ret_def raise_def split: outcome.splits)
  from neg u(1) obtain methods u1 e1 e2 where
      greeting: "read_greeting E local (op_deadline E (Some t) w) = (Done methods, u1, e1)"
    and answer: "answer_greeting E local methods u1 = (Done (), u, e2)"
    by (auto simp: negotiate_no_auth_split elim!: andthen_runs)
  obtain rest where rest: "parse_greeting (pending w local) = Parsed methods rest"
    using decodes_result(1) [OF read_greeting_decodes greeting] by (auto simp: deadline_keeps)
  have "pending u1 local = rest"
    using decodes_result(2) [OF read_greeting_decodes greeting, of methods rest] rest by (simp add: deadline_keeps)
  then have pend: "pending v local = rest"
    using answer_greeting_keeps [OF answer] u(2) by (simp add: deadline_keeps)
  obtain r x ed where read: "read_connect_request E local (op_deadline E (Some t) v) = (r, x, ed)"
    by (rule act_run)
  with request have "r = Done req"
    by (cases r) (auto simp: read_socks_connect_request_def andthen_def timeout_def ret_def raise_def
        split: outcome.splits prod.splits)
  then have "wf_request req \<and> (\<exists>more. rest = socks_request_bytes req @ more)"
    using decodes_result(1) [OF read_connect_request_decodes read, of req] pend
    by (auto simp: socks_wire.parsed_iff deadline_keeps)
  moreover have "0x00 \<in> set methods"
    using answer_greeting_sent(2) [OF answer] by blast
  ultimately show ?thesis
    using parse_greeting_Parsed [OF rest] by blast
qed

end

section \<open>The session theorems\<close>

text \<open>A new tunnel stream is two new handles.\<close>

definition fresh_streams :: "'h \<Rightarrow> 'h event list \<Rightarrow> bool" where
  "fresh_streams local es \<longleftrightarrow>
    list_all (\<lambda>opened. case opened of Done (send, recv) \<Rightarrow> local \<noteq> send \<and> local \<noteq> recv \<and> send \<noteq> recv | _ \<Rightarrow> True)
      (opens es)"

lemma fresh_streamsD:
  "fresh_streams local es \<Longrightarrow> Done (send, recv) \<in> set (opens es) \<Longrightarrow> local \<noteq> send \<and> local \<noteq> recv \<and> send \<noteq> recv"
  by (fastforce simp: fresh_streams_def list_all_iff)

text \<open>An instance: the application asks for an address, the exit server agrees.\<close>

definition socks_example_request :: ConnectRequest where
  "socks_example_request = \<lparr>cr_target = Ip (V4 example_target), cr_port = 80\<rparr>"

definition socks_example_world :: loop_world where
  "socks_example_world = empty_world
    \<lparr>inbox := (\<lambda>h. if h = 3 then [0x05, 1, 0] @ socks_request_bytes socks_example_request @ ascii ''hi''
               else if h = 2 then tunnel_response_bytes Succeeded @ ascii ''yo!'' else []),
     new_streams := [Done (1, 2)]\<rparr>"

lemmas socks_session_eval =
  handle_socks_connection_def perform_socks_handshake_def read_socks_connect_request_def
  open_tunnel_stream_def send_tunnel_request_def read_tunnel_status_def negotiate_no_auth_def
  read_connect_request_def write_request_def read_response_def read_magic_and_version_def write_reply_def
  socks_request_bytes_def tunnel_response_bytes_def MAGIC_def VERSION_def CMD_CONNECT_def be16_bytes_def
  be16_80 ipv4_from_def socks_example_world_def socks_example_request_def example_target_def
  relay_eval_steps reply_code_try_from_def loop_eval

lemma socks_example_run:
  "\<exists>w1 es. handle_socks_connection loop_env (relay_schedule @ [True, False]) 3 0 0 socks_example_world = (Done (), w1, es) \<and>
    opens es = [Done (1, 2)] \<and> copies es \<and> sent 3 es = [0x05, 0x00] @ socks_reply Succeeded @ ascii ''yo!'' \<and>
    sent 1 es = tunnel_request_bytes socks_example_request @ ascii ''hi''"
  by (simp add: socks_session_eval socks_reply_def tunnel_request_bytes_def)

text \<open>C12: a SOCKS session, for any behaviour of the application, the exit server and the streams, and any
  interleaving of the relay. At most one tunnel stream is opened. Either the session is
  unsuccessful: nothing is relayed, no \<open>Succeeded\<close> is written, and at most one message follows the
  greeting's answer. Or the exit server was sent exactly the request that was read from the application,
  its status came back, and exactly that status is passed on; only after \<open>Succeeded\<close>, and after
  the reply, is anything copied. A completed session has then relayed both directions faithfully, or,
  after a refusal, finished the tunnel stream without sending anything more.\<close>

theorem socks_session_outcome:
  assumes "handle_socks_connection E sched local handshake_timeout operation_timeout w = (r, w1, es)"
    and "fresh_streams local es"
  shows "length (opens es) \<le> 1 \<and>
    (unsuccessful local es \<or>
     (\<exists>send recv req status es0 es1. es = es0 @ es1 \<and> status_asked local send recv req status es0 \<and>
        status_passed_on local send recv status (r = Done ()) es1 \<and>
        asked_for E local handshake_timeout w req))"
  by (rule session_view [OF assms(1) fresh_streamsD [OF assms(2)]])

theorem socks_session_outcome_witness:
  "\<exists>w1 es send recv req es0 es1.
    handle_socks_connection loop_env (relay_schedule @ [True, False]) 3 0 0 socks_example_world = (Done (), w1, es) \<and>
    es = es0 @ es1 \<and> status_asked 3 send recv req Succeeded es0 \<and> status_passed_on 3 send recv Succeeded True es1"
proof -
  obtain w1 es where run: "handle_socks_connection loop_env (relay_schedule @ [True, False]) 3 0 0 socks_example_world =
      (Done (), w1, es)" and op: "opens es = [Done (1, 2)]" and cp: "copies es"
    using socks_example_run by blast
  have "fresh_streams 3 es"
    by (simp add: fresh_streams_def op)
  from socks_session_outcome [OF run this] cp
  obtain send recv req status es0 es1 where *: "es = es0 @ es1" "status_asked 3 send recv req status es0"
    "status_passed_on 3 send recv status True es1"
    by (auto simp: unsuccessful_def)
  moreover have "status = Succeeded"
    using * cp by (auto simp: status_asked_def status_passed_on_def)
  ultimately show ?thesis
    using run by blast
qed

text \<open>C4: the application is told \<open>Succeeded\<close>, or has its bytes relayed, only if the exit server said so:
  the first bytes received on the one tunnel stream are those of a \<open>Succeeded\<close> response.\<close>

theorem socks_success_not_forged:
  assumes "handle_socks_connection E sched local handshake_timeout operation_timeout w = (r, w1, es)"
    and "fresh_streams local es"
    and "socks_reply Succeeded \<in> set (writes local es) \<or> copies es"
  shows "\<exists>send recv. opens es = [Done (send, recv)] \<and>
    take 6 (received recv es) = MAGIC @ [VERSION, reply_code_u8 Succeeded]"
proof -
  have "\<not> unsuccessful local es"
    using assms(3) by (auto simp: unsuccessful_def)
  with session_view [OF assms(1) fresh_streamsD [OF assms(2)]]
  obtain send recv req status es0 es1 where es: "es = es0 @ es1"
    and asked: "status_asked local send recv req status es0"
    and passed: "status_passed_on local send recv status (r = Done ()) es1"
    by blast
  have "status = Succeeded"
    using asked passed assms(3) by (auto simp: es status_asked_def status_passed_on_def)
  then show ?thesis
    using asked passed by (auto simp: es status_asked_def status_passed_on_def MAGIC_def)
qed

theorem socks_success_not_forged_witness:
  "\<exists>w1 es send recv.
    handle_socks_connection loop_env (relay_schedule @ [True, False]) 3 0 0 socks_example_world = (Done (), w1, es) \<and>
    opens es = [Done (send, recv)] \<and> take 6 (received recv es) = MAGIC @ [VERSION, 0]"
proof -
  obtain w1 es where run: "handle_socks_connection loop_env (relay_schedule @ [True, False]) 3 0 0 socks_example_world =
      (Done (), w1, es)" and op: "opens es = [Done (1, 2)]" and cp: "copies es"
    using socks_example_run by blast
  have "fresh_streams 3 es"
    by (simp add: fresh_streams_def op)
  from socks_success_not_forged [OF run this] cp run show ?thesis
    by fastforce
qed

end
