(* ===== verification/HttpHead.thy ===== *)
theory HttpHead
  imports Loopback
begin

text \<open>
  The request side of \<open>src/http.rs\<close>: the bounded line reader, the head reader, the head parser
  with its framing decisions, and the two request readers. The syntax of a head is checked by
  the crate \<open>httparse\<close> and the types \<open>Method\<close>, \<open>HeaderName\<close> and \<open>HeaderValue\<close> by the crate
  \<open>http\<close>; both are parameters (\<open>http_lib\<close>). A \<open>HeaderMap\<close> is the list of its entries in the order
  of \<open>append\<close>, with names as \<open>as_str\<close> gives them.
\<close>

section \<open>Constants and types\<close>

definition MAX_REQUEST_LINE_BYTES :: nat where
  "MAX_REQUEST_LINE_BYTES = 8 * 1024"

definition MAX_HEADER_BYTES :: nat where
  "MAX_HEADER_BYTES = 64 * 1024"

definition MAX_HEADER_COUNT :: nat where
  "MAX_HEADER_COUNT = 100"

definition MAX_BODY_BYTES :: nat where
  "MAX_BODY_BYTES = 1024 * 1024"

type_synonym header_map = "(rstring \<times> u8 list) list"

record OpenAiHttpRequest =
  http_method :: rstring
  http_target :: rstring
  http_headers :: header_map
  http_body :: "u8 list"

record HttpErrorResponse =
  status :: nat
  reason :: rstring
  body :: rstring

datatype HttpRequestError =
    BadRequest rstring
  | HeadersTooLarge
  | PayloadTooLarge
  | UnsupportedChunked

abbreviation bad_request :: "string \<Rightarrow> HttpRequestError" where
  "bad_request message \<equiv> BadRequest (ascii message)"

fun error_response :: "HttpRequestError \<Rightarrow> HttpErrorResponse" where
  "error_response (BadRequest _) =
    \<lparr>status = 400, reason = ascii ''Bad Request'', body = ascii ''bad request''\<rparr>"
| "error_response HeadersTooLarge =
    \<lparr>status = 431, reason = ascii ''Request Header Fields Too Large'',
     body = ascii ''request headers too large''\<rparr>"
| "error_response PayloadTooLarge =
    \<lparr>status = 413, reason = ascii ''Payload Too Large'', body = ascii ''payload too large''\<rparr>"
| "error_response UnsupportedChunked =
    \<lparr>status = 501, reason = ascii ''Not Implemented'',
     body = ascii ''chunked request bodies are not supported''\<rparr>"

record ParsedHttpHead =
  parsed_method :: rstring
  parsed_target :: rstring
  parsed_headers :: header_map
  content_length :: "nat option"
  has_chunked_body :: bool

section \<open>The third-party parsers\<close>

datatype httparse_error = TooManyHeaders | OtherParseError

record httparse_request =
  hp_method :: "rstring option"
  hp_path :: "rstring option"
  hp_version :: "nat option"
  hp_headers :: "(rstring \<times> u8 list) list"

datatype httparse_status = Partial_head | Complete_head httparse_request

record http_lib =
  request_parse :: "nat \<Rightarrow> u8 list \<Rightarrow> httparse_error + httparse_status"
  method_parse :: "rstring \<Rightarrow> rstring option"
  header_name_from_bytes :: "u8 list \<Rightarrow> rstring option"
  header_value_from_bytes :: "u8 list \<Rightarrow> u8 list option"
  header_value_to_str :: "u8 list \<Rightarrow> rstring option"

section \<open>Reading lines\<close>

function read_line_loop ::
  "('w, 'h, 'z) env_scheme \<Rightarrow> 'h \<Rightarrow> nat \<Rightarrow> u8 list \<Rightarrow> ('w, 'h, HttpRequestError, u8 list) act" where
  "read_line_loop E reader max_len bytes =
    andthen (map_err (\<lambda>_. bad_request ''read HTTP line'') (fill_buf E reader)) (\<lambda>available.
    if available = [] then
      if bytes = [] then raise (bad_request ''HTTP request ended early'')
      else ret bytes
    else
      let take_n = (case position (\<lambda>byte. byte = 0x0a) available of
                      None \<Rightarrow> length available
                    | Some p \<Rightarrow> p + 1) in
      if length bytes + take_n > max_len then raise HeadersTooLarge
      else
        let bytes' = bytes @ take take_n available in
        andthen (consume E reader take_n) (\<lambda>_.
        if ends_with bytes' [0x0a] then ret bytes'
        else read_line_loop E reader max_len bytes'))"
  by pat_completeness auto

lemma position_le: "position P xs = Some p \<Longrightarrow> p < length xs"
  by (simp add: position_Some)

termination read_line_loop
  by (relation "measure (\<lambda>(E, reader, max_len, bytes). max_len - length bytes)")
    (auto split: option.splits dest: position_le simp flip: length_greater_0_conv)

declare read_line_loop.simps [simp del]

definition read_limited_line_bytes ::
  "('w, 'h, 'z) env_scheme \<Rightarrow> 'h \<Rightarrow> nat \<Rightarrow> ('w, 'h, HttpRequestError, u8 list) act" where
  "read_limited_line_bytes E reader max_len = read_line_loop E reader max_len []"

text \<open>A line has at least one byte: this is what ends the head loop.\<close>

lemma read_line_result:
  assumes "read_line_loop E reader max_len bytes w = (Done line, w1, es)"
  shows "line \<noteq> [] \<and> (length bytes \<le> max_len \<longrightarrow> length line \<le> max_len)"
  using assms
proof (induction E reader max_len bytes arbitrary: w w1 es rule: read_line_loop.induct)
  case (1 E reader max_len bytes)
  from "1.prems" show ?case
    unfolding read_line_loop.simps [of E reader max_len bytes]
  proof (cases rule: andthen_runs)
    case (ran available w2 es1 es2)
    let ?n = "case position (\<lambda>byte. byte = 0x0a) available of None \<Rightarrow> length available | Some p \<Rightarrow> p + 1"
    have len: "length (take ?n available) = ?n"
      by (auto split: option.split dest: position_le)
    have res: "available \<in> results (map_err (\<lambda>_. bad_request ''read HTTP line'') (fill_buf E reader))"
      using ran(1) by (auto simp: results_def)
    show ?thesis
    proof (cases "available = []")
      case True
      with ran(2) show ?thesis
        by (auto simp: ret_def raise_def split: if_splits)
    next
      case False
      show ?thesis
      proof (cases "length bytes + ?n > max_len")
        case True
        with False ran(2) show ?thesis
          by (simp add: raise_def Let_def)
      next
        case fits: False
        let ?bytes = "bytes @ take ?n available"
        have "andthen (consume E reader ?n) (\<lambda>_. if ends_with ?bytes [0x0a] then ret ?bytes
            else read_line_loop E reader max_len ?bytes) w2 = (Done line, w1, es2)"
          using ran(2) False fits by (simp add: Let_def)
        then show ?thesis
        proof (cases rule: andthen_runs)
          case inner: (ran x w3 es3 es4)
          show ?thesis
          proof (cases "ends_with ?bytes [0x0a]")
            case True
            then have "line = ?bytes"
              using inner(2) by (simp add: ret_def)
            then show ?thesis
              using fits len True by (simp add: ends_with_single)
          next
            case more: False
            then have "read_line_loop E reader max_len ?bytes w3 = (Done line, w1, es4)"
              using inner(2) by simp
            from "1.IH" [OF res False refl fits refl _ more this] fits len show ?thesis
              by (auto simp: results_def consume_def)
          qed
        qed simp_all
      qed
    qed
  qed simp_all
qed

section \<open>Reading a head\<close>

function read_head_loop ::
  "('w, 'h, 'z) env_scheme \<Rightarrow> 'h \<Rightarrow> u8 list \<Rightarrow> nat \<Rightarrow> ('w, 'h, HttpRequestError, u8 list) act" where
  "read_head_loop E reader head header_bytes =
    andthen (read_limited_line_bytes E reader MAX_HEADER_BYTES) (\<lambda>line.
    let header_bytes' = header_bytes + length line in
    if header_bytes' > MAX_HEADER_BYTES then raise HeadersTooLarge
    else
      let is_end = (line = [0x0d, 0x0a] \<or> line = [0x0a]) in
      let head' = head @ line in
      if is_end then ret head'
      else read_head_loop E reader head' header_bytes')"
  by pat_completeness auto

lemma read_limited_line_result:
  "line \<in> results (read_limited_line_bytes E reader max_len) \<Longrightarrow> line \<noteq> [] \<and> length line \<le> max_len"
  unfolding results_def read_limited_line_bytes_def by (auto dest: read_line_result)

termination read_head_loop
  by (relation "measure (\<lambda>(E, reader, head, header_bytes). MAX_HEADER_BYTES - header_bytes)")
    (auto dest!: read_limited_line_result simp flip: length_greater_0_conv)

declare read_head_loop.simps [simp del]

fun request_line_error :: "HttpRequestError \<Rightarrow> HttpRequestError" where
  "request_line_error HeadersTooLarge = bad_request ''request line too large''"
| "request_line_error err = err"

definition read_http_head ::
  "('w, 'h, 'z) env_scheme \<Rightarrow> 'h \<Rightarrow> ('w, 'h, HttpRequestError, u8 list) act" where
  "read_http_head E reader =
    andthen (map_err request_line_error (read_limited_line_bytes E reader MAX_REQUEST_LINE_BYTES))
      (\<lambda>request_line. read_head_loop E reader request_line 0)"

section \<open>Parsing a head\<close>

definition trim_optional_whitespace :: "u8 list \<Rightarrow> u8 list" where
  "trim_optional_whitespace value =
    (let start = (case position (\<lambda>byte. \<not> (byte = chr8 CHR '' '' \<or> byte = 0x09)) value of
                    None \<Rightarrow> length value | Some p \<Rightarrow> p);
         stop = (case rposition (\<lambda>byte. \<not> (byte = chr8 CHR '' '' \<or> byte = 0x09)) value of
                    None \<Rightarrow> start | Some p \<Rightarrow> p + 1)
     in take (stop - start) (drop start value))"

definition CONTENT_LENGTH :: rstring where
  "CONTENT_LENGTH = ascii ''content-length''"

definition TRANSFER_ENCODING :: rstring where
  "TRANSFER_ENCODING = ascii ''transfer-encoding''"

definition names_chunked :: "rstring \<Rightarrow> bool" where
  "names_chunked text \<longleftrightarrow>
    list_ex (\<lambda>encoding. eq_ignore_ascii_case (trim encoding) (ascii ''chunked'')) (split_on (chr8 CHR '','') text)"

text \<open>The body of the loop over the parsed headers, and the loop.\<close>

definition parse_content_length ::
  "http_lib \<Rightarrow> u8 list \<Rightarrow> nat option \<Rightarrow> HttpRequestError + nat option" where
  "parse_content_length L value seen =
    res_then (ok_or (bad_request ''content-length is not valid text'') (header_value_to_str L value)) (\<lambda>text.
    res_then (ok_or (bad_request ''parse content-length'') (parse_unsigned u64_max text)) (\<lambda>parsed.
    if parsed > MAX_BODY_BYTES then Inl PayloadTooLarge
    else
      (case seen of
         Some existing \<Rightarrow>
           if existing \<noteq> parsed then Inl (bad_request ''conflicting content-length headers'')
           else Inr (Some parsed)
       | None \<Rightarrow> Inr (Some parsed))))"

fun parse_headers ::
  "http_lib \<Rightarrow> (rstring \<times> u8 list) list \<Rightarrow> header_map \<Rightarrow> nat option \<Rightarrow> bool \<Rightarrow>
    HttpRequestError + header_map \<times> nat option \<times> bool" where
  "parse_headers L [] headers length_seen chunked = Inr (headers, length_seen, chunked)"
| "parse_headers L ((hname, hvalue) # rest) headers length_seen chunked =
    res_then (ok_or (bad_request ''parse HTTP header name'') (header_name_from_bytes L hname)) (\<lambda>name.
    res_then (ok_or (bad_request ''parse HTTP header value'')
        (header_value_from_bytes L (trim_optional_whitespace hvalue))) (\<lambda>value.
    res_then (if name = CONTENT_LENGTH then parse_content_length L value length_seen else Inr length_seen)
      (\<lambda>length_seen'.
    res_then
      (if name = TRANSFER_ENCODING then
         res_then (ok_or (bad_request ''transfer-encoding is not valid text'') (header_value_to_str L value))
           (\<lambda>text. Inr (names_chunked text))
       else Inr chunked)
      (\<lambda>chunked'.
    parse_headers L rest (headers @ [(name, value)]) length_seen' chunked'))))"

definition parse_http_head :: "http_lib \<Rightarrow> u8 list \<Rightarrow> HttpRequestError + ParsedHttpHead" where
  "parse_http_head L head =
    (case request_parse L MAX_HEADER_COUNT head of
       Inl TooManyHeaders \<Rightarrow> Inl HeadersTooLarge
     | Inl OtherParseError \<Rightarrow> Inl (bad_request ''parse HTTP request head'')
     | Inr Partial_head \<Rightarrow> Inl (bad_request ''HTTP request ended early'')
     | Inr (Complete_head request) \<Rightarrow>
         res_then (ok_or (bad_request ''HTTP request line is missing method'') (hp_method request)) (\<lambda>name.
         res_then (ok_or (bad_request ''parse HTTP method'') (method_parse L name)) (\<lambda>method.
         res_then (ok_or (bad_request ''HTTP request line is missing target'') (hp_path request)) (\<lambda>target.
         res_then (ok_or (bad_request ''HTTP request line is missing version'') (hp_version request)) (\<lambda>version.
         if \<not> (version = 0 \<or> version = 1) then Inl (BadRequest (ascii ''unsupported HTTP request version: HTTP/1.'' @ show_dec version))
         else if \<not> starts_with target (ascii ''/'') \<or> starts_with target (ascii ''//'') then
           Inl (bad_request ''OpenAI proxy requires origin-form request target'')
         else
           res_then (parse_headers L (hp_headers request) [] None False) (\<lambda>(headers, length_seen, chunked).
           Inr \<lparr>parsed_method = method, parsed_target = target, parsed_headers = headers,
                content_length = length_seen, has_chunked_body = chunked\<rparr>))))))"

section \<open>Reading requests\<close>

definition read_http_request ::
  "http_lib \<Rightarrow> ('w, 'h, 'z) env_scheme \<Rightarrow> 'h \<Rightarrow> ('w, 'h, HttpRequestError, OpenAiHttpRequest) act" where
  "read_http_request L E reader =
    andthen (read_http_head E reader) (\<lambda>head.
    andthen (from_result (parse_http_head L head)) (\<lambda>parsed.
    if has_chunked_body parsed then raise UnsupportedChunked
    else
      let length_wanted = (case content_length parsed of None \<Rightarrow> 0 | Some n \<Rightarrow> n) in
      andthen
        (if length_wanted > 0 then
           map_err (\<lambda>_. bad_request ''read request body'') (read_exact E reader length_wanted)
         else ret [])
        (\<lambda>body.
      ret \<lparr>http_method = parsed_method parsed, http_target = parsed_target parsed,
           http_headers = parsed_headers parsed, http_body = body\<rparr>)))"

definition buffer_is_empty :: "('w, 'h, 'z) env_scheme \<Rightarrow> 'h \<Rightarrow> ('w, 'h, 'e, bool) act" where
  "buffer_is_empty E reader w = (Done (op_buffer E reader w = []), w, [])"

definition read_one_local_http_request ::
  "http_lib \<Rightarrow> ('w, 'h, 'z) env_scheme \<Rightarrow> 'h \<Rightarrow> ('w, 'h, HttpRequestError, u8 list) act" where
  "read_one_local_http_request L E reader =
    andthen (read_http_head E reader) (\<lambda>raw.
    andthen (from_result (parse_http_head L raw)) (\<lambda>parsed.
    if \<not> has_chunked_body parsed then
      let length_wanted = (case content_length parsed of None \<Rightarrow> 0 | Some n \<Rightarrow> n) in
      andthen
        (if length_wanted > 0 then
           map_err (\<lambda>_. bad_request ''read request body'') (read_exact E reader length_wanted)
         else ret [])
        (\<lambda>body.
      andthen (buffer_is_empty E reader) (\<lambda>empty.
      if \<not> empty then raise (bad_request ''local connection contains more than one HTTP request'')
      else ret (raw @ body)))
    else ret raw))"

definition should_forward_request_header :: "rstring \<Rightarrow> bool" where
  "should_forward_request_header name \<longleftrightarrow>
    name \<notin> set (map ascii [''host'', ''content-length'', ''connection'', ''transfer-encoding'', ''keep-alive'',
      ''proxy-authenticate'', ''proxy-authorization'', ''te'', ''trailer'', ''upgrade''])"

definition is_health_request :: "OpenAiHttpRequest \<Rightarrow> bool" where
  "is_health_request request \<longleftrightarrow>
    http_method request = ascii ''GET'' \<and> http_target request = ascii ''/__tunnelAI/healthz''"

section \<open>The grammar of a head\<close>

text \<open>A line ends with its only line feed. A head is a request line, header lines and an empty line.\<close>

definition is_line :: "u8 list \<Rightarrow> bool" where
  "is_line l \<longleftrightarrow> l \<noteq> [] \<and> last l = 0x0a \<and> 0x0a \<notin> set (butlast l)"

definition ends_head :: "u8 list \<Rightarrow> bool" where
  "ends_head l \<longleftrightarrow> l = [0x0d, 0x0a] \<or> l = [0x0a]"

definition header_section :: "nat \<Rightarrow> u8 list \<Rightarrow> bool" where
  "header_section limit bs \<longleftrightarrow>
    (\<exists>lines l. bs = concat lines @ l \<and> list_all (\<lambda>x. is_line x \<and> \<not> ends_head x) lines \<and> ends_head l \<and>
      length bs \<le> limit)"

definition framed_head :: "u8 list \<Rightarrow> bool" where
  "framed_head head \<longleftrightarrow>
    (\<exists>l bs. head = l @ bs \<and> is_line l \<and> length l \<le> MAX_REQUEST_LINE_BYTES \<and> header_section MAX_HEADER_BYTES bs)"

text \<open>The parsers: a line of at most \<open>max_len\<close> bytes, of which \<open>acc\<close> was read already; a head.\<close>

definition p_line :: "bool \<Rightarrow> nat \<Rightarrow> u8 list \<Rightarrow> (HttpRequestError, u8 list) parser" where
  "p_line eof max_len acc bs =
    (let line = takeWhile (\<lambda>b. b \<noteq> 0x0a) bs in
     if 0x0a \<in> set bs then
       if length acc + length line + 1 > max_len then Refused HeadersTooLarge
       else Parsed (acc @ line @ [0x0a]) (drop (length line + 1) bs)
     else if length acc + length bs > max_len then Refused HeadersTooLarge
     else if eof then
       if acc @ bs = [] then Refused (bad_request ''HTTP request ended early'') else Parsed (acc @ bs) []
     else Short)"

lemma position_newline:
  "(case position (\<lambda>byte. byte = (0x0a :: u8)) bs of None \<Rightarrow> length bs | Some p \<Rightarrow> p + 1) =
    (if 0x0a \<in> set bs then length (takeWhile (\<lambda>b. b \<noteq> 0x0a) bs) + 1 else length bs)"
  by (auto simp: position_Some position_None list_all_iff split: option.split) (metis nth_mem)

lemma take_newline:
  "0x0a \<in> set bs \<Longrightarrow>
    take (length (takeWhile (\<lambda>b. b \<noteq> 0x0a) bs) + 1) bs = takeWhile (\<lambda>b. b \<noteq> 0x0a) bs @ [0x0a :: u8]"
  by (induction bs) auto

lemma takeWhile_append_newline:
  "0x0a \<in> set bs \<Longrightarrow> takeWhile (\<lambda>b. b \<noteq> (0x0a :: u8)) (bs @ rest) = takeWhile (\<lambda>b. b \<noteq> 0x0a) bs"
  by (induction bs) auto

lemma takeWhile_no_newline:
  "0x0a \<notin> set bs \<Longrightarrow> takeWhile (\<lambda>b. b \<noteq> (0x0a :: u8)) (bs @ rest) = bs @ takeWhile (\<lambda>b. b \<noteq> 0x0a) rest"
  by (induction bs) auto

lemma p_line_chunk:
  assumes "0x0a \<notin> set chunk" "length acc + length chunk \<le> max_len"
  shows "p_line eof max_len acc (chunk @ rest) = p_line eof max_len (acc @ chunk) rest"
  using assms by (auto simp: p_line_def Let_def takeWhile_no_newline)

lemma p_line_too_large:
  assumes "length acc +
      (if 0x0a \<in> set chunk then length (takeWhile (\<lambda>b. b \<noteq> 0x0a) chunk) + 1 else length chunk) > max_len"
  shows "p_line eof max_len acc (chunk @ rest) = Refused HeadersTooLarge"
proof (cases "0x0a \<in> set chunk")
  case True
  then show ?thesis
    using assms by (simp add: p_line_def Let_def takeWhile_append_newline)
next
  case False
  then show ?thesis
    using assms by (simp add: p_line_def Let_def takeWhile_no_newline)
qed

text \<open>However the bytes arrive, the line reader computes the line parser.\<close>

context buffered_source
begin

lemma fill_buf_runs:
  assumes "map_err io (fill_buf E h) w = (r, w1, es)"
  shows "pending w1 = pending w \<and>
    (if pending w h \<noteq> [] then \<exists>bs rest. r = Done bs \<and> bs \<noteq> [] \<and> pending w h = bs @ rest
     else if ended h then r = Done [] else r = Hang \<or> (\<exists>k. r = Fail (io k)))"
proof -
  obtain q w2 where q: "op_fill_buf E h w = (q, w2)"
    by fastforce
  with assms have r: "w1 = w2" "r = map_outcome io id q"
    by (auto simp: map_err_def fill_buf_def call_def)
  show ?thesis
  proof (cases "pending w h = []")
    case True
    with fill_none [OF True q] show ?thesis
      by (cases q) (auto simp: r split: if_splits)
  next
    case False
    with fill_some [OF False q] show ?thesis
      by (auto simp: r)
  qed
qed

lemma read_line_agrees:
  assumes "length acc \<le> max_len" and "read_line_loop E h max_len acc w = (r, w1, es)"
  shows "case p_line (ended h) max_len acc (pending w h) of
      Parsed x rest \<Rightarrow> r = Done x \<and> pending w1 = (pending w)(h := rest)
    | Refused e \<Rightarrow> r = Fail e
    | Short \<Rightarrow> r = Hang \<or> (\<exists>k. r = Fail (bad_request ''read HTTP line''))"
  using assms
proof (induction "max_len - length acc" arbitrary: acc w r w1 es rule: less_induct)
  case less
  from less.prems(2) show ?case
    unfolding read_line_loop.simps [of E h max_len acc]
  proof (cases rule: andthen_runs)
    case (ran available w2 es1 es2)
    note fb = fill_buf_runs [OF ran(1)]
    show ?thesis
    proof (cases "available = []")
      case True
      with fb have "pending w h = []" "ended h" "pending w2 = pending w"
        by (auto split: if_splits)
      with ran(2) True less.prems(1) show ?thesis
        by (auto simp: p_line_def ret_def raise_def split: if_splits)
    next
      case False
      with fb obtain rest where pend: "pending w h = available @ rest" "pending w2 = pending w"
        by (auto split: if_splits)
      let ?n = "if 0x0a \<in> set available then length (takeWhile (\<lambda>b. b \<noteq> 0x0a) available) + 1 else length available"
      have n: "?n > 0"
        using False by simp
      show ?thesis
      proof (cases "length acc + ?n > max_len")
        case True
        then have "p_line (ended h) max_len acc (available @ rest) = Refused HeadersTooLarge"
          by (rule p_line_too_large)
        with True False ran(2) show ?thesis
          by (simp add: pend position_newline raise_def Let_def)
      next
        case fits: False
        let ?acc = "acc @ take ?n available"
        have run: "andthen (consume E h ?n) (\<lambda>_. if ends_with ?acc [0x0a] then ret ?acc
            else read_line_loop E h max_len ?acc) w2 = (r, w1, es2)"
          using ran(2) False fits by (simp only: position_newline Let_def if_False)
        have pend2: "pending (op_consume E h ?n w2) = (pending w)(h := drop ?n (available @ rest))"
          by (simp only: consume_drops pend)
        show ?thesis
        proof (cases "0x0a \<in> set available")
          case True
          then have acc: "?acc = acc @ takeWhile (\<lambda>b. b \<noteq> 0x0a) available @ [0x0a]"
            by (simp only: if_True take_newline)
          then have "ends_with ?acc [0x0a]"
            by (simp only: ends_with_single) simp
          with run have "r = Done ?acc" "w1 = op_consume E h ?n w2"
            by (auto simp: andthen_def consume_def ret_def)
          then show ?thesis
            using True fits pend2 acc
            by (simp add: pend(1) p_line_def Let_def takeWhile_append_newline)
        next
          case no: False
          then have acc: "?acc = acc @ available"
            by simp
          have notlast: "\<not> ends_with ?acc [0x0a]"
            unfolding acc ends_with_single using no False by (metis last_appendR last_in_set)
          then obtain es3 where rec: "read_line_loop E h max_len ?acc (op_consume E h ?n w2) = (r, w1, es3)"
            using run by (auto simp: andthen_def consume_def split: prod.splits)
          have "max_len - length ?acc < max_len - length acc" "length ?acc \<le> max_len"
            using fits no False unfolding acc by (auto simp flip: length_greater_0_conv)
          note ih = less.hyps [OF this rec]
          have "pending (op_consume E h ?n w2) = (pending w)(h := rest)"
            using pend2 no by simp
          moreover have "p_line (ended h) max_len acc (pending w h) = p_line (ended h) max_len ?acc rest"
            using no fits unfolding acc pend(1) by (simp add: p_line_chunk)
          ultimately show ?thesis
            using ih by (cases "p_line (ended h) max_len ?acc rest") simp_all
        qed
      qed
    qed
  next
    case (failed e)
    with fill_buf_runs [OF failed(1)] less.prems(1) show ?thesis
      by (auto simp: p_line_def split: if_splits)
  next
    case hung
    with fill_buf_runs [OF hung(1)] less.prems(1) show ?thesis
      by (auto simp: p_line_def split: if_splits)
  qed
qed

lemma read_line_decodes:
  "decodes (\<lambda>_. bad_request ''read HTTP line'') pending h (read_limited_line_bytes E h max_len)
    (p_line (ended h) max_len [])"
  unfolding decodes_def read_limited_line_bytes_def
  by (intro allI impI) (rule read_line_agrees, simp_all)

end

text \<open>The head parser, and the heads it accepts.\<close>

lemma p_line_Parsed:
  "p_line eof max_len [] bs = Parsed line rest \<longleftrightarrow>
    length line \<le> max_len \<and> bs = line @ rest \<and>
    (is_line line \<or> eof \<and> rest = [] \<and> line \<noteq> [] \<and> 0x0a \<notin> set line)"
proof (cases "0x0a \<in> set bs")
  case True
  let ?tw = "takeWhile (\<lambda>b. b \<noteq> 0x0a) bs"
  have bs: "bs = (?tw @ [0x0a]) @ drop (length ?tw + 1) bs"
    using take_newline [OF True] by (metis append_take_drop_id)
  have lhs: "p_line eof max_len [] bs = Parsed line rest \<longleftrightarrow>
      length ?tw + 1 \<le> max_len \<and> line = ?tw @ [0x0a] \<and> rest = drop (length ?tw + 1) bs"
    using True by (auto simp: p_line_def Let_def)
  have split: "line = ?tw @ [0x0a] \<and> rest = drop (length ?tw + 1) bs" if "is_line line" "bs = line @ rest"
  proof -
    have line: "line = butlast line @ [0x0a]" "0x0a \<notin> set (butlast line)"
      using that(1) by (metis append_butlast_last_id is_line_def)+
    have "takeWhile (\<lambda>b. b \<noteq> 0x0a) ((butlast line @ [0x0a]) @ rest) = butlast line"
      using line(2) by (subst append_assoc, subst takeWhile_append2) (auto intro: ccontr)
    then have "?tw = butlast line"
      using line(1) that(2) by simp
    with line(1) that(2) show ?thesis
      by (metis Suc_eq_plus1 append_eq_conv_conj length_append_singleton)
  qed
  have is_line: "is_line (?tw @ [0x0a])"
    using set_takeWhileD by (fastforce simp: is_line_def)
  show ?thesis
  proof
    assume "p_line eof max_len [] bs = Parsed line rest"
    then show "length line \<le> max_len \<and> bs = line @ rest \<and>
        (is_line line \<or> eof \<and> rest = [] \<and> line \<noteq> [] \<and> 0x0a \<notin> set line)"
      unfolding lhs using is_line bs by (elim conjE) (metis length_append_singleton Suc_eq_plus1)
  next
    assume rhs: "length line \<le> max_len \<and> bs = line @ rest \<and>
        (is_line line \<or> eof \<and> rest = [] \<and> line \<noteq> [] \<and> 0x0a \<notin> set line)"
    with True have "is_line line"
      by auto
    with rhs split have "line = ?tw @ [0x0a]" "rest = drop (length ?tw + 1) bs"
      by blast+
    moreover from this(1) rhs have "length ?tw + 1 \<le> max_len"
      by (metis length_append_singleton Suc_eq_plus1)
    ultimately show "p_line eof max_len [] bs = Parsed line rest"
      unfolding lhs by blast
  qed
next
  case False
  have "0x0a \<in> set line" if "is_line line"
    using that last_in_set [of line] by (simp add: is_line_def)
  with False show ?thesis
    by (auto simp: p_line_def)
qed

lemma p_then_cong [fundef_cong]:
  "\<lbrakk> p = p'; \<And>x. (\<exists>bs rest. p' bs = Parsed x rest) \<Longrightarrow> q x = q' x \<rbrakk> \<Longrightarrow> p_then p q = p_then p' q'"
  by (rule ext) (auto simp: p_then_def split: parsed.split; metis)

function p_head_loop :: "bool \<Rightarrow> u8 list \<Rightarrow> nat \<Rightarrow> (HttpRequestError, u8 list) parser" where
  "p_head_loop eof head n =
    p_then (p_line eof MAX_HEADER_BYTES []) (\<lambda>line.
    if n + length line > MAX_HEADER_BYTES then p_fail HeadersTooLarge
    else if ends_head line then p_ret (head @ line)
    else p_head_loop eof (head @ line) (n + length line))"
  by pat_completeness auto

termination p_head_loop
  by (relation "measure (\<lambda>(eof, head, n). MAX_HEADER_BYTES - n)")
    (auto simp: p_line_Parsed is_line_def simp flip: length_greater_0_conv)

declare p_head_loop.simps [simp del]

definition p_head :: "bool \<Rightarrow> (HttpRequestError, u8 list) parser" where
  "p_head eof =
    p_then (p_map_err request_line_error (p_line eof MAX_REQUEST_LINE_BYTES []))
      (\<lambda>request_line. p_head_loop eof request_line 0)"

lemma header_section_single: "ends_head l \<Longrightarrow> length l \<le> limit \<Longrightarrow> header_section limit l"
  unfolding header_section_def by (intro exI [of _ "[]"] exI [of _ l]) simp

lemma p_head_loop_sound:
  assumes "p_head_loop eof head n bs = Parsed out rest" and "n \<le> MAX_HEADER_BYTES"
  shows "\<exists>hs. bs = hs @ rest \<and> out = head @ hs \<and> header_section (MAX_HEADER_BYTES - n) hs"
  using assms
proof (induction eof head n arbitrary: bs rule: p_head_loop.induct)
  case (1 eof head n)
  from "1.prems"(1) obtain line mid where line: "p_line eof MAX_HEADER_BYTES [] bs = Parsed line mid"
    and fits: "n + length line \<le> MAX_HEADER_BYTES"
    and cont: "(if ends_head line then p_ret (head @ line) else p_head_loop eof (head @ line) (n + length line)) mid =
      Parsed out rest"
    unfolding p_head_loop.simps [of eof head n] p_then_Parsed
    by (auto simp: p_fail_def split: if_splits)
  show ?case
  proof (cases "ends_head line")
    case True
    then show ?thesis
      using line fits cont
      by (auto simp: p_line_Parsed p_ret_def intro!: header_section_single)
  next
    case False
    with cont "1.IH" [of line mid] line fits
    obtain hs where hs: "mid = hs @ rest" "out = head @ line @ hs"
      "header_section (MAX_HEADER_BYTES - (n + length line)) hs"
      by fastforce
    have "hs \<noteq> []"
      using hs(3) by (auto simp: header_section_def ends_head_def)
    with line hs have "is_line line" "bs = (line @ hs) @ rest"
      by (auto simp: p_line_Parsed)
    moreover from hs(3) obtain lines l where "hs = concat lines @ l"
      "list_all (\<lambda>x. is_line x \<and> \<not> ends_head x) lines" "ends_head l"
      by (auto simp: header_section_def)
    ultimately have "header_section (MAX_HEADER_BYTES - n) (line @ hs)"
      using False hs(3) fits unfolding header_section_def
      by (intro exI [of _ "line # lines"] exI [of _ l]) (auto simp: header_section_def)
    with hs(2) \<open>bs = (line @ hs) @ rest\<close> show ?thesis
      by blast
  qed
qed

lemma p_head_loop_complete:
  assumes "list_all (\<lambda>x. is_line x \<and> \<not> ends_head x) lines" "ends_head l"
    and "n + length (concat lines @ l) \<le> MAX_HEADER_BYTES"
  shows "p_head_loop eof head n (concat lines @ l @ rest) = Parsed (head @ concat lines @ l) rest"
  using assms
proof (induction lines arbitrary: head n)
  case Nil
  have "is_line l"
    using Nil.prems(2) by (auto simp: ends_head_def is_line_def)
  with Nil.prems have "p_line eof MAX_HEADER_BYTES [] (l @ rest) = Parsed l rest"
    by (simp add: p_line_Parsed)
  with Nil.prems show ?case
    by (simp add: p_head_loop.simps [of eof head n] p_then_def p_ret_def)
next
  case (Cons x lines)
  have "p_line eof MAX_HEADER_BYTES [] (x @ concat lines @ l @ rest) = Parsed x (concat lines @ l @ rest)"
    using Cons.prems by (simp add: p_line_Parsed)
  with Cons show ?case
    by (simp add: p_head_loop.simps [of eof head n] p_then_def)
qed

lemma p_head_Parsed:
  "p_head eof bs = Parsed head rest \<longleftrightarrow> framed_head head \<and> bs = head @ rest"
proof
  assume "p_head eof bs = Parsed head rest"
  then obtain l mid where line: "p_line eof MAX_REQUEST_LINE_BYTES [] bs = Parsed l mid"
    and loop: "p_head_loop eof l 0 mid = Parsed head rest"
    by (auto simp: p_head_def p_then_Parsed p_map_err_def split: parsed.splits)
  from p_head_loop_sound [OF loop] obtain hs where
    hs: "mid = hs @ rest" "head = l @ hs" "header_section MAX_HEADER_BYTES hs"
    by auto
  then have "hs \<noteq> []"
    by (auto simp: header_section_def ends_head_def)
  with line hs show "framed_head head \<and> bs = head @ rest"
    by (auto simp: p_line_Parsed framed_head_def)
next
  assume "framed_head head \<and> bs = head @ rest"
  then obtain l hs lines e where bs: "bs = l @ hs @ rest" "head = l @ hs" "is_line l"
    "length l \<le> MAX_REQUEST_LINE_BYTES"
    and hs: "hs = concat lines @ e" "list_all (\<lambda>x. is_line x \<and> \<not> ends_head x) lines" "ends_head e"
    "length hs \<le> MAX_HEADER_BYTES"
    by (auto simp: framed_head_def header_section_def)
  have "p_line eof MAX_REQUEST_LINE_BYTES [] bs = Parsed l (hs @ rest)"
    using bs by (simp add: p_line_Parsed)
  moreover have "p_head_loop eof l 0 (hs @ rest) = Parsed head rest"
    using p_head_loop_complete [OF hs(2,3), of 0 eof l rest] hs(1,4) bs(2) by simp
  ultimately show "p_head eof bs = Parsed head rest"
    by (simp add: p_head_def p_then_def p_map_err_def)
qed

context buffered_source
begin

lemma read_head_loop_decodes:
  "decodes (\<lambda>_. bad_request ''read HTTP line'') pending h (read_head_loop E h head n)
    (p_head_loop (ended h) head n)"
proof (induction "MAX_HEADER_BYTES - n" arbitrary: head n rule: less_induct)
  case less
  show ?case
    unfolding read_head_loop.simps [of E h head n] p_head_loop.simps [of "ended h" head n] Let_def
      ends_head_def [symmetric]
  proof (intro decodes_andthen read_line_decodes decodes_if decodes_raise decodes_ret)
    fix line
    assume "line \<in> results (read_limited_line_bytes E h MAX_HEADER_BYTES)"
      and "\<not> MAX_HEADER_BYTES < n + length line"
    then show "decodes (\<lambda>_. bad_request ''read HTTP line'') pending h
        (read_head_loop E h (head @ line) (n + length line)) (p_head_loop (ended h) (head @ line) (n + length line))"
      by (intro less.hyps) (auto dest!: read_limited_line_result simp flip: length_greater_0_conv)
  qed
qed

lemma read_http_head_decodes:
  "decodes (\<lambda>_. bad_request ''read HTTP line'') pending h (read_http_head E h) (p_head (ended h))"
  unfolding read_http_head_def p_head_def
  using decodes_map_err [OF read_line_decodes, where g = request_line_error]
  by (intro decodes_andthen read_head_loop_decodes) simp

end

section \<open>What a parsed head says\<close>

text \<open>The length a list of Content-Length values declares: all must say the same.\<close>

definition declared_length :: "http_lib \<Rightarrow> u8 list \<Rightarrow> nat option" where
  "declared_length L value =
    (case header_value_to_str L value of None \<Rightarrow> None | Some text \<Rightarrow> parse_unsigned u64_max text)"

lemma parse_content_length_Inr:
  "parse_content_length L value seen = Inr cl \<longleftrightarrow>
    (\<exists>text n. header_value_to_str L value = Some text \<and> parse_unsigned u64_max text = Some n \<and>
      n \<le> MAX_BODY_BYTES \<and> cl = Some n \<and> (seen = None \<or> seen = Some n))"
proof (cases "declared_length L value")
  case None
  then show ?thesis
    by (cases "header_value_to_str L value") (simp_all add: parse_content_length_def declared_length_def)
next
  case (Some n)
  then obtain str where "header_value_to_str L value = Some str" "parse_unsigned u64_max str = Some n"
    by (auto simp: declared_length_def split: option.splits)
  then show ?thesis
    by (cases seen) (auto simp: parse_content_length_def)
qed

definition values_of :: "rstring \<Rightarrow> header_map \<Rightarrow> u8 list list" where
  "values_of name headers = map snd (filter (\<lambda>(n, v). n = name) headers)"

lemma values_of_simps [simp]:
  "values_of name [] = []"
  "values_of name ((n, v) # hs) = (if n = name then v # values_of name hs else values_of name hs)"
  "values_of name (hs @ hs') = values_of name hs @ values_of name hs'"
  by (simp_all add: values_of_def)

definition declares_chunked :: "http_lib \<Rightarrow> u8 list \<Rightarrow> bool" where
  "declares_chunked L value =
    (case header_value_to_str L value of None \<Rightarrow> False | Some text \<Rightarrow> names_chunked text)"

text \<open>Header by header: the name as \<open>HeaderName\<close> normalises it, the value without blanks around it.\<close>

definition same_headers :: "http_lib \<Rightarrow> (rstring \<times> u8 list) list \<Rightarrow> header_map \<Rightarrow> bool" where
  "same_headers L raw headers \<longleftrightarrow>
    list_all2 (\<lambda>(n, v) (n', v'). header_name_from_bytes L n = Some n' \<and>
      header_value_from_bytes L (trim_optional_whitespace v) = Some v') raw headers"

lemma parse_headers_Inr:
  assumes "parse_headers L raw headers seen chunked = Inr (headers', cl, ch)"
  shows "\<exists>new. headers' = headers @ new \<and> same_headers L raw new \<and>
    list_all (\<lambda>v. declared_length L v = cl \<and> cl \<noteq> None) (values_of CONTENT_LENGTH new) \<and>
    (seen \<noteq> None \<longrightarrow> cl = seen) \<and> (values_of CONTENT_LENGTH new = [] \<longrightarrow> cl = seen) \<and>
    (\<forall>n. cl = Some n \<longrightarrow> n \<le> MAX_BODY_BYTES \<or> seen = cl) \<and>
    ch = (if values_of TRANSFER_ENCODING new = [] then chunked
          else declares_chunked L (last (values_of TRANSFER_ENCODING new)))"
  using assms
proof (induction L raw headers seen chunked rule: parse_headers.induct)
  case (1 L headers seen chunked)
  then show ?case
    by (auto simp: same_headers_def)
next
  case (2 L hname hvalue rest headers seen chunked)
  from "2.prems" obtain name val seen' chunked' where
    name: "header_name_from_bytes L hname = Some name"
    and val: "header_value_from_bytes L (trim_optional_whitespace hvalue) = Some val"
    and len: "(if name = CONTENT_LENGTH then parse_content_length L val seen else Inr seen) = Inr seen'"
    and te: "(if name = TRANSFER_ENCODING then
        res_then (ok_or (bad_request ''transfer-encoding is not valid text'') (header_value_to_str L val))
          (\<lambda>text. Inr (names_chunked text)) else Inr chunked) = (Inr chunked' :: HttpRequestError + bool)"
    and rest: "parse_headers L rest (headers @ [(name, val)]) seen' chunked' = Inr (headers', cl, ch)"
    by (auto simp: res_then_Inr ok_or_Inr)
  from "2.IH" [of name val seen' chunked'] rest obtain new where
    new: "headers' = headers @ [(name, val)] @ new" "same_headers L rest new"
    "list_all (\<lambda>v. declared_length L v = cl \<and> cl \<noteq> None) (values_of CONTENT_LENGTH new)"
    "seen' \<noteq> None \<longrightarrow> cl = seen'" "values_of CONTENT_LENGTH new = [] \<longrightarrow> cl = seen'"
    "\<forall>n. cl = Some n \<longrightarrow> n \<le> MAX_BODY_BYTES \<or> seen' = cl"
    "ch = (if values_of TRANSFER_ENCODING new = [] then chunked'
          else declares_chunked L (last (values_of TRANSFER_ENCODING new)))"
    by (auto simp: name val len te)
  have chunked': "chunked' = (if name = TRANSFER_ENCODING then declares_chunked L val else chunked)"
    using te by (auto simp: declares_chunked_def res_then_Inr ok_or_Inr split: if_splits)
  have seen': "if name = CONTENT_LENGTH
      then \<exists>n. seen' = Some n \<and> declared_length L val = Some n \<and> n \<le> MAX_BODY_BYTES \<and> (seen = None \<or> seen = seen')
      else seen' = seen"
    using len by (auto simp: parse_content_length_Inr declared_length_def)
  show ?case
    using new seen' chunked'
    by (intro exI [of _ "(name, val) # new"]) (auto simp: same_headers_def name val split: if_splits)
qed

lemma parse_http_head_Inr:
  assumes "parse_http_head L head = Inr p"
  shows "\<exists>req version. request_parse L MAX_HEADER_COUNT head = Inr (Complete_head req) \<and>
    hp_path req = Some (parsed_target p) \<and> Option.bind (hp_method req) (method_parse L) = Some (parsed_method p) \<and>
    hp_version req = Some version \<and> version \<le> 1 \<and>
    starts_with (parsed_target p) (ascii ''/'') \<and> \<not> starts_with (parsed_target p) (ascii ''//'') \<and>
    parse_headers L (hp_headers req) [] None False = Inr (parsed_headers p, content_length p, has_chunked_body p)"
  using assms
  by (auto simp: parse_http_head_def res_then_Inr ok_or_Inr
      split: sum.splits httparse_error.splits httparse_status.splits if_splits)

section \<open>The grammar of a request\<close>

text \<open>The two errors a broken stream is reported as, under one numbering of I/O errors.\<close>

definition http_io :: "io_error \<Rightarrow> HttpRequestError" where
  "http_io k = (if k = UnexpectedEof then bad_request ''read request body'' else bad_request ''read HTTP line'')"

lemma decodes_weaken:
  assumes "decodes io pend h m p" and "\<And>k. \<exists>k'. io k = io' k'"
  shows "decodes io' pend h m p"
  unfolding decodes_def
proof (intro allI impI)
  fix w r w1 es
  assume "m w = (r, w1, es)"
  note run = decodesD [OF assms(1) this]
  show "case p (pend w h) of
      Parsed x rest \<Rightarrow> r = Done x \<and> pend w1 = (pend w)(h := rest)
    | Refused e \<Rightarrow> r = Fail e
    | Short \<Rightarrow> r = Hang \<or> (\<exists>k. r = Fail (io' k))"
  proof (cases "p (pend w h)")
    case Short
    with run(3) show ?thesis
      using assms(2) by fastforce
  qed (use run in simp_all)
qed

definition wanted :: "ParsedHttpHead \<Rightarrow> nat" where
  "wanted p = (case content_length p of None \<Rightarrow> 0 | Some n \<Rightarrow> n)"

definition request_of :: "ParsedHttpHead \<Rightarrow> u8 list \<Rightarrow> OpenAiHttpRequest" where
  "request_of p bytes =
    \<lparr>http_method = parsed_method p, http_target = parsed_target p, http_headers = parsed_headers p,
     http_body = bytes\<rparr>"

definition p_body :: "ParsedHttpHead \<Rightarrow> (HttpRequestError, u8 list) parser" where
  "p_body p = (if wanted p > 0 then p_take (wanted p) else p_ret [])"

definition p_request :: "http_lib \<Rightarrow> bool \<Rightarrow> (HttpRequestError, OpenAiHttpRequest) parser" where
  "p_request L eof =
    p_then (p_head eof) (\<lambda>head.
    p_then (case parse_http_head L head of Inl e \<Rightarrow> p_fail e | Inr p \<Rightarrow> p_ret p) (\<lambda>p.
    if has_chunked_body p then p_fail UnsupportedChunked
    else p_then (p_body p) (\<lambda>bytes. p_ret (request_of p bytes))))"

lemma p_body_Parsed: "p_body p bs = Parsed xs rest \<longleftrightarrow> length xs = wanted p \<and> bs = xs @ rest"
  by (auto simp: p_body_def p_take_Parsed p_ret_Parsed)

lemma p_result_Parsed:
  "(case res of Inl e \<Rightarrow> p_fail e | Inr x \<Rightarrow> p_ret x) bs = Parsed y rest \<longleftrightarrow> res = Inr y \<and> rest = bs"
  by (cases res) (auto simp: p_fail_def p_ret_def)

lemma p_guard_Parsed: "(if b then p_fail e else p) bs = Parsed y rest \<longleftrightarrow> \<not> b \<and> p bs = Parsed y rest"
  by (simp add: p_fail_def)

lemma p_request_Parsed:
  "p_request L eof bs = Parsed req rest \<longleftrightarrow>
    (\<exists>head p bytes. bs = head @ bytes @ rest \<and> framed_head head \<and> parse_http_head L head = Inr p \<and>
      \<not> has_chunked_body p \<and> length bytes = wanted p \<and> req = request_of p bytes)"
  unfolding p_request_def p_then_Parsed p_head_Parsed p_result_Parsed p_guard_Parsed p_body_Parsed p_ret_Parsed
  by blast

context buffered_source
begin

lemma read_body_decodes:
  "decodes http_io pending h
    (if wanted p > 0 then map_err (\<lambda>_. bad_request ''read request body'') (read_exact E h (wanted p)) else ret [])
    (p_body p)"
  unfolding p_body_def
  by (intro decodes_if decodes_ret decodes_weaken [OF decodes_read_exact])
    (auto simp: http_io_def intro: exI [of _ UnexpectedEof])

lemma read_head_decodes: "decodes http_io pending h (read_http_head E h) (p_head (ended h))"
  by (rule decodes_weaken [OF read_http_head_decodes])
    (auto simp: http_io_def intro: exI [of _ TimedOut])

lemma read_http_request_decodes:
  "decodes http_io pending h (read_http_request L E h) (p_request L (ended h))"
  unfolding read_http_request_def p_request_def Let_def wanted_def [symmetric] request_of_def
  by (intro decodes_andthen read_head_decodes decodes_from_result decodes_if decodes_raise read_body_decodes
      decodes_ret)

end

context buffered_source
begin

lemma read_one_local_run:
  assumes "read_one_local_http_request L E h w = (Done raw, w1, es)"
  shows "\<exists>head p bytes rest. pending w h = raw @ rest \<and> raw = head @ bytes \<and> framed_head head \<and>
    parse_http_head L head = Inr p \<and> length bytes = (if has_chunked_body p then 0 else wanted p)"
  using assms unfolding read_one_local_http_request_def
proof (cases rule: andthen_runs)
  case (ran head w2 es1 es2)
  then obtain rest where "p_head (ended h) (pending w h) = Parsed head rest"
    using decodes_result(1) [OF read_head_decodes ran(1)] by blast
  note head = this decodes_result(2) [OF read_head_decodes ran(1) this]
  from ran(2) obtain p where p: "parse_http_head L head = Inr p"
    by (cases "parse_http_head L head") (auto simp: from_result_def raise_def andthen_def)
  show ?thesis
  proof (cases "has_chunked_body p")
    case True
    with ran(2) p have "raw = head"
      by (simp add: from_result_def ret_def)
    with head(1) p True show ?thesis
      by (auto simp: p_head_Parsed)
  next
    case False
    with ran(2) p have "andthen
        (if wanted p > 0 then map_err (\<lambda>_. bad_request ''read request body'') (read_exact E h (wanted p)) else ret [])
        (\<lambda>bytes. andthen (buffer_is_empty E h) (\<lambda>empty. if \<not> empty
          then raise (bad_request ''local connection contains more than one HTTP request'')
          else ret (head @ bytes))) w2 = (Done raw, w1, es2)"
      unfolding p from_result_def sum.case ret_andthen wanted_def
      by (simp only: False Let_def not_False_eq_True if_True)
    then show ?thesis
    proof (cases rule: andthen_runs)
      case body: (ran bytes w3 es3 es4)
      then obtain rest' where "p_body p (pending w2 h) = Parsed bytes rest'"
        using decodes_result(1) [OF read_body_decodes body(1)] by blast
      moreover have "raw = head @ bytes"
        using body(2) by (auto simp: andthen_def buffer_is_empty_def raise_def ret_def split: if_splits)
      ultimately show ?thesis
        using head p False by (auto simp: p_head_Parsed p_body_Parsed)
    qed simp_all
  qed
qed simp_all

lemma read_one_local_complete:
  assumes "\<And>v. pending v h = [] \<Longrightarrow> op_buffer E h v = []"
    and "pending w h = head @ bytes" "framed_head head" "parse_http_head L head = Inr p"
    and "\<not> has_chunked_body p" "length bytes = wanted p"
  shows "\<exists>w1 es. read_one_local_http_request L E h w = (Done (head @ bytes), w1, es)"
proof -
  obtain r1 w1 es1 where hd: "read_http_head E h w = (r1, w1, es1)"
    by (rule act_run)
  have "p_head (ended h) (pending w h) = Parsed head bytes"
    using assms(2,3) by (simp add: p_head_Parsed)
  from decodesD(1) [OF read_head_decodes hd this] have r1: "r1 = Done head" "pending w1 h = bytes"
    by simp_all
  obtain r2 w2 es2 where bd: "(if wanted p > 0 then map_err (\<lambda>_. bad_request ''read request body'')
      (read_exact E h (wanted p)) else ret []) w1 = (r2, w2, es2)"
    by (rule act_run)
  have "p_body p (pending w1 h) = Parsed bytes []"
    using assms(6) r1(2) by (simp add: p_body_Parsed)
  from decodesD(1) [OF read_body_decodes bd this] have r2: "r2 = Done bytes" "pending w2 h = []"
    by simp_all
  show ?thesis
    unfolding read_one_local_http_request_def Let_def wanted_def [symmetric]
    using hd r1 bd r2 assms(1) [OF r2(2)] assms(4,5)
    by (simp add: andthen_def from_result_def ret_def buffer_is_empty_def)
qed

end

section \<open>The theorems\<close>

text \<open>An instance: a POST with a body of two bytes; \<open>hs\<close> are the headers the library reports.\<close>

definition example_lib :: "(rstring \<times> u8 list) list \<Rightarrow> http_lib" where
  "example_lib hs =
    \<lparr>request_parse = (\<lambda>_ _. Inr (Complete_head
       \<lparr>hp_method = Some (ascii ''POST''), hp_path = Some (ascii ''/v1''), hp_version = Some 1, hp_headers = hs\<rparr>)),
     method_parse = Some, header_name_from_bytes = (\<lambda>n. Some (map to_ascii_lowercase n)),
     header_value_from_bytes = Some, header_value_to_str = Some\<rparr>"

definition example_head :: "u8 list" where
  "example_head = ascii ''POST /v1 HTTP/1.1'' @ [0x0d, 0x0a] @ ascii ''Content-Length: 2'' @ [0x0d, 0x0a] @ [0x0d, 0x0a]"

definition example_length_header :: "rstring \<times> u8 list" where
  "example_length_header = (ascii ''Content-Length'', ascii '' 2'')"

lemma example_head_framed: "framed_head example_head"
proof -
  let ?l1 = "ascii ''POST /v1 HTTP/1.1'' @ [0x0d, 0x0a]" and ?l2 = "ascii ''Content-Length: 2'' @ [0x0d, 0x0a]"
  have "header_section MAX_HEADER_BYTES (?l2 @ [0x0d, 0x0a])"
    unfolding header_section_def
    by (intro exI [of _ "[?l2]"] exI [of _ "[0x0d, 0x0a]"])
      (simp add: is_line_def ends_head_def MAX_HEADER_BYTES_def)
  moreover have "is_line ?l1" "length ?l1 \<le> MAX_REQUEST_LINE_BYTES"
    by (simp_all add: is_line_def MAX_REQUEST_LINE_BYTES_def)
  moreover have "example_head = ?l1 @ (?l2 @ [0x0d, 0x0a])"
    by (simp only: example_head_def append_assoc)
  ultimately show ?thesis
    unfolding framed_head_def by blast
qed

text \<open>Reading a head. However the network cuts the stream into chunks, a head is read exactly if the
  pending bytes begin with one: a request line of at most 8 KiB, header lines and an empty line of
  at most 64 KiB together. Exactly its bytes are consumed, and it is never longer than 72 KiB.
  Otherwise reading fails or does not end.\<close>

theorem http_head_framing:
  assumes "buffered_source E pending ended"
    and "read_http_head E h w = (r, w1, es)"
  shows "(r = Done head \<longleftrightarrow> framed_head head \<and> (\<exists>rest. pending w h = head @ rest)) \<and>
    (r = Done head \<longrightarrow> pending w1 = (pending w)(h := drop (length head) (pending w h)) \<and>
      length head \<le> 73728)"
proof -
  note dec = buffered_source.read_head_decodes [OF assms(1)]
  have iff: "r = Done head \<longleftrightarrow> framed_head head \<and> (\<exists>rest. pending w h = head @ rest)"
    using decodes_result(1) [OF dec assms(2), of head] by (simp add: p_head_Parsed)
  moreover have "pending w1 = (pending w)(h := drop (length head) (pending w h))" "length head \<le> 73728"
    if "r = Done head"
  proof -
    from that iff obtain rest where "framed_head head" "pending w h = head @ rest"
      by blast
    with decodes_result(2) [OF dec assms(2), of head rest]
    show "pending w1 = (pending w)(h := drop (length head) (pending w h))"
      by (simp add: p_head_Parsed)
    show "length head \<le> 73728"
      using \<open>framed_head head\<close>
      by (auto simp: framed_head_def header_section_def MAX_REQUEST_LINE_BYTES_def MAX_HEADER_BYTES_def)
  qed
  ultimately show ?thesis
    by blast
qed

text \<open>C27: a head that is accepted. Its target is in origin form and not a network path; its version is 1.0
  or 1.1; every header is kept, in order, with its name normalised and its value trimmed; all its
  Content-Length headers declare the same length, at most 1 MiB, and that is the length the body gets.\<close>

theorem accepted_head:
  assumes "parse_http_head L head = Inr p"
  shows "\<exists>req version. request_parse L MAX_HEADER_COUNT head = Inr (Complete_head req) \<and>
    hp_path req = Some (parsed_target p) \<and> hp_version req = Some version \<and> version \<le> 1 \<and>
    starts_with (parsed_target p) (ascii ''/'') \<and> \<not> starts_with (parsed_target p) (ascii ''//'') \<and>
    same_headers L (hp_headers req) (parsed_headers p) \<and>
    list_all (\<lambda>v. declared_length L v = content_length p) (values_of CONTENT_LENGTH (parsed_headers p)) \<and>
    (content_length p = None \<longleftrightarrow> values_of CONTENT_LENGTH (parsed_headers p) = []) \<and>
    wanted p \<le> MAX_BODY_BYTES"
proof -
  from parse_http_head_Inr [OF assms] obtain req version where
    head: "request_parse L MAX_HEADER_COUNT head = Inr (Complete_head req)"
      "hp_path req = Some (parsed_target p)" "hp_version req = Some version" "version \<le> 1"
      "starts_with (parsed_target p) (ascii ''/'')" "\<not> starts_with (parsed_target p) (ascii ''//'')"
    and hs: "parse_headers L (hp_headers req) [] None False = Inr (parsed_headers p, content_length p, has_chunked_body p)"
    by blast
  have "content_length p = None \<longleftrightarrow> values_of CONTENT_LENGTH (parsed_headers p) = []"
    using parse_headers_Inr [OF hs] by (cases "values_of CONTENT_LENGTH (parsed_headers p)") auto
  moreover have "wanted p \<le> MAX_BODY_BYTES"
    using parse_headers_Inr [OF hs] by (auto simp: wanted_def split: option.split)
  moreover have "list_all (\<lambda>v. declared_length L v = content_length p) (values_of CONTENT_LENGTH (parsed_headers p))"
    using parse_headers_Inr [OF hs] by (auto simp: list_all_iff)
  moreover have "same_headers L (hp_headers req) (parsed_headers p)"
    using parse_headers_Inr [OF hs] by auto
  ultimately show ?thesis
    using head by (intro exI [of _ req] exI [of _ version] conjI)
qed

theorem accepted_head_witness:
  "\<exists>p. parse_http_head (example_lib [example_length_header]) example_head = Inr p \<and>
    starts_with (parsed_target p) (ascii ''/'') \<and> wanted p \<le> MAX_BODY_BYTES \<and> content_length p = Some 2"
proof -
  obtain p where p: "parse_http_head (example_lib [example_length_header]) example_head = Inr p"
    "content_length p = Some 2"
    by (simp add: parse_http_head_def example_lib_def example_length_header_def CONTENT_LENGTH_def TRANSFER_ENCODING_def
      to_ascii_lowercase_def trim_optional_whitespace_def rposition_def parse_content_length_def parse_unsigned_def
      is_digit_def digits_value_def u64_max_def MAX_BODY_BYTES_def)
  from accepted_head [OF p(1)] p show ?thesis
    by blast
qed

theorem http_head_framing_witness:
  "\<exists>w1 es. read_http_head ending_env 1
      (empty_world\<lparr>inbox := (\<lambda>_. example_head @ ascii ''hi''), chunk_size := 3\<rparr>) = (Done example_head, w1, es) \<and>
    inbox w1 1 = ascii ''hi'' \<and> length example_head \<le> 73728"
proof -
  let ?w = "empty_world\<lparr>inbox := (\<lambda>_. example_head @ ascii ''hi''), chunk_size := 3\<rparr>"
  obtain r w1 es where run: "read_http_head ending_env 1 ?w = (r, w1, es)"
    by (rule act_run)
  have "\<exists>rest. inbox ?w 1 = example_head @ rest"
    by simp
  with http_head_framing [OF ending_source.buffered_source_axioms run, of example_head] example_head_framed run
  show ?thesis
    by simp
qed

text \<open>C38: whether a body counts as chunked is decided by the last Transfer-Encoding header alone: the loop
  overwrites its flag. A head that says \<open>chunked\<close> and then, in another header, something else is not
  rejected as chunked.\<close>

theorem last_transfer_encoding_decides:
  assumes "parse_http_head L head = Inr p"
  shows "has_chunked_body p \<longleftrightarrow>
    (case rev (values_of TRANSFER_ENCODING (parsed_headers p)) of
       [] \<Rightarrow> False
     | v # _ \<Rightarrow> declares_chunked L v)"
proof -
  from parse_http_head_Inr [OF assms] obtain req :: httparse_request where
    "parse_headers L (hp_headers req) [] None False = Inr (parsed_headers p, content_length p, has_chunked_body p)"
    by auto
  from parse_headers_Inr [OF this] show ?thesis
    by (cases "values_of TRANSFER_ENCODING (parsed_headers p)" rule: rev_cases) auto
qed

lemmas parse_eval =
  parse_http_head_def example_lib_def CONTENT_LENGTH_def TRANSFER_ENCODING_def to_ascii_lowercase_def
  trim_optional_whitespace_def rposition_def parse_content_length_def parse_unsigned_def is_digit_def
  digits_value_def u64_max_def MAX_BODY_BYTES_def names_chunked_def eq_ignore_ascii_case_def trim_def

theorem last_transfer_encoding_decides_witness:
  "\<exists>p. parse_http_head (example_lib [(ascii ''Transfer-Encoding'', ascii ''chunked''),
        (ascii ''Transfer-Encoding'', ascii ''identity'')]) example_head = Inr p \<and>
    \<not> has_chunked_body p \<and> values_of TRANSFER_ENCODING (parsed_headers p) = [ascii ''chunked'', ascii ''identity'']"
proof -
  let ?L = "example_lib [(ascii ''Transfer-Encoding'', ascii ''chunked''), (ascii ''Transfer-Encoding'', ascii ''identity'')]"
  obtain p where p: "parse_http_head ?L example_head = Inr p"
    "values_of TRANSFER_ENCODING (parsed_headers p) = [ascii ''chunked'', ascii ''identity'']"
    by (simp add: parse_eval)
  have "\<not> declares_chunked ?L (ascii ''identity'')"
    by (simp add: declares_chunked_def parse_eval)
  with last_transfer_encoding_decides [OF p(1)] p show ?thesis
    by auto
qed

text \<open>The bytes of a whole request: a framed head that parses and is not chunked, then the body it declares.\<close>

definition is_request :: "http_lib \<Rightarrow> u8 list \<Rightarrow> OpenAiHttpRequest \<Rightarrow> bool" where
  "is_request L bs req \<longleftrightarrow>
    (\<exists>head p bytes. bs = head @ bytes \<and> framed_head head \<and> parse_http_head L head = Inr p \<and>
      \<not> has_chunked_body p \<and> length bytes = wanted p \<and> req = request_of p bytes)"

text \<open>C22: reading a request, however its bytes arrive: it is read exactly if the pending bytes begin with
  a whole request, and exactly that request's bytes are consumed.\<close>

theorem http_request_framing:
  assumes "buffered_source E pending ended"
    and "read_http_request L E h w = (r, w1, es)"
  shows "(r = Done req \<longleftrightarrow> (\<exists>bs rest. is_request L bs req \<and> pending w h = bs @ rest)) \<and>
    (r = Done req \<longrightarrow> (\<exists>bs. is_request L bs req \<and> pending w h = bs @ pending w1 h))"
proof -
  note dec = buffered_source.read_http_request_decodes [OF assms(1), of h L]
  have parsed: "p_request L (ended h) (pending w h) = Parsed req rest \<longleftrightarrow>
      (\<exists>bs. is_request L bs req \<and> pending w h = bs @ rest)" for rest
  proof
    assume "p_request L (ended h) (pending w h) = Parsed req rest"
    then show "\<exists>bs. is_request L bs req \<and> pending w h = bs @ rest"
      unfolding p_request_Parsed is_request_def by (metis append_assoc)
  next
    assume "\<exists>bs. is_request L bs req \<and> pending w h = bs @ rest"
    then show "p_request L (ended h) (pending w h) = Parsed req rest"
      unfolding p_request_Parsed is_request_def by (metis append_assoc)
  qed
  have "r = Done req \<longleftrightarrow> (\<exists>bs rest. is_request L bs req \<and> pending w h = bs @ rest)"
    unfolding decodes_result(1) [OF dec assms(2), of req] parsed by blast
  moreover have "\<exists>bs. is_request L bs req \<and> pending w h = bs @ pending w1 h" if r: "r = Done req"
  proof -
    obtain rest where rest: "p_request L (ended h) (pending w h) = Parsed req rest"
      using r decodes_result(1) [OF dec assms(2), of req] by blast
    then have "pending w1 h = rest"
      using decodes_result(2) [OF dec assms(2)] by simp
    with rest show ?thesis
      unfolding parsed by blast
  qed
  ultimately show ?thesis
    by blast
qed

text \<open>The local proxy passes on only what the remote one accepts. When \<open>read_one_local_http_request\<close>
  returns, its result is the first bytes that came, one whole request; and when those bytes reach
  \<open>read_http_request\<close>, in whatever chunks, the same head is parsed there: a chunked request is refused as
  such, any other is read completely.\<close>

theorem local_request_reaches_remote:
  assumes "buffered_source E pending ended"
    and "read_one_local_http_request L E h w = (Done raw, w1, es)"
    and "buffered_source F coming closed" and "coming v k = raw @ rest"
    and "read_http_request L F k v = (r, v1, fs)"
  shows "(\<exists>more. pending w h = raw @ more) \<and>
    (\<exists>head p bytes. raw = head @ bytes \<and> parse_http_head L head = Inr p \<and>
      (if has_chunked_body p then bytes = [] \<and> r = Fail UnsupportedChunked
       else length bytes = wanted p \<and> r = Done (request_of p bytes) \<and> coming v1 = (coming v)(k := rest)))"
proof -
  from buffered_source.read_one_local_run [OF assms(1,2)] obtain head p bytes more where
    raw: "pending w h = raw @ more" "raw = head @ bytes" "framed_head head" "parse_http_head L head = Inr p"
      "length bytes = (if has_chunked_body p then 0 else wanted p)"
    by blast
  note dec = buffered_source.read_http_request_decodes [OF assms(3), of k L]
  have head: "p_head (closed k) (coming v k) = Parsed head (bytes @ rest)"
    using raw assms(4) by (simp add: p_head_Parsed)
  show ?thesis
  proof (cases "has_chunked_body p")
    case True
    then have "p_request L (closed k) (coming v k) = Refused UnsupportedChunked"
      using head raw by (simp add: p_request_def p_then_def p_ret_def p_fail_def)
    from decodesD(2) [OF dec assms(5) this] True raw show ?thesis
      by auto
  next
    case False
    then have "p_request L (closed k) (coming v k) = Parsed (request_of p bytes) rest"
      unfolding p_request_Parsed using raw assms(4) by auto
    from decodesD(1) [OF dec assms(5) this] False raw show ?thesis
      by auto
  qed
qed

lemma example_parsed:
  "\<exists>p. parse_http_head (example_lib [example_length_header]) example_head = Inr p \<and> wanted p = 2 \<and>
    \<not> has_chunked_body p"
  by (simp add: parse_eval example_length_header_def wanted_def)

lemma example_is_request:
  "\<exists>p. is_request (example_lib [example_length_header]) (example_head @ ascii ''hi'') (request_of p (ascii ''hi'')) \<and>
    parse_http_head (example_lib [example_length_header]) example_head = Inr p"
proof -
  obtain p where "parse_http_head (example_lib [example_length_header]) example_head = Inr p" "wanted p = 2"
    "\<not> has_chunked_body p"
    using example_parsed by blast
  moreover have "length (ascii ''hi'') = 2"
    by simp
  ultimately show ?thesis
    unfolding is_request_def using example_head_framed by metis
qed

theorem http_request_framing_witness:
  "\<exists>w1 es p. read_http_request (example_lib [example_length_header]) ending_env 1
      (empty_world\<lparr>inbox := (\<lambda>_. (example_head @ ascii ''hi'') @ ascii ''more''), chunk_size := 3\<rparr>) =
    (Done (request_of p (ascii ''hi'')), w1, es)"
proof -
  let ?w = "empty_world\<lparr>inbox := (\<lambda>_. (example_head @ ascii ''hi'') @ ascii ''more''), chunk_size := 3\<rparr>"
  obtain r w1 es where run: "read_http_request (example_lib [example_length_header]) ending_env 1 ?w = (r, w1, es)"
    by (rule act_run)
  obtain p where p: "is_request (example_lib [example_length_header]) (example_head @ ascii ''hi'')
      (request_of p (ascii ''hi''))"
    using example_is_request by blast
  have "inbox ?w 1 = (example_head @ ascii ''hi'') @ ascii ''more''"
    by (simp del: append_assoc)
  with p have "\<exists>bs rest. is_request (example_lib [example_length_header]) bs (request_of p (ascii ''hi'')) \<and>
      inbox ?w 1 = bs @ rest"
    by blast
  with http_request_framing [OF ending_source.buffered_source_axioms run, of "request_of p (ascii ''hi'')"] run
  show ?thesis
    by blast
qed

text \<open>The local side on the instance, for the last witness.\<close>

lemma example_local_run:
  "\<exists>w1 es. read_one_local_http_request (example_lib [example_length_header]) ending_env 1
      (empty_world\<lparr>inbox := (\<lambda>_. example_head @ ascii ''hi''), chunk_size := 3\<rparr>) =
    (Done (example_head @ ascii ''hi''), w1, es)"
proof -
  let ?w = "empty_world\<lparr>inbox := (\<lambda>_. example_head @ ascii ''hi''), chunk_size := 3\<rparr>"
  obtain p where p: "parse_http_head (example_lib [example_length_header]) example_head = Inr p" "wanted p = 2"
    "\<not> has_chunked_body p"
    using example_parsed by blast
  have "op_buffer ending_env 1 v = []" if "inbox v 1 = []" for v
    using that by (simp add: ending_env_def loop_env_def loop_buffer_def)
  from ending_source.read_one_local_complete [OF this, of ?w example_head "ascii ''hi''"] p example_head_framed
  show ?thesis
    by simp
qed

theorem local_request_reaches_remote_witness:
  "\<exists>w1 es v1 fs p.
    read_one_local_http_request (example_lib [example_length_header]) ending_env 1
      (empty_world\<lparr>inbox := (\<lambda>_. example_head @ ascii ''hi''), chunk_size := 3\<rparr>) =
      (Done (example_head @ ascii ''hi''), w1, es) \<and>
    read_http_request (example_lib [example_length_header]) ending_env 2
      (empty_world\<lparr>inbox := (\<lambda>_. example_head @ ascii ''hi''), chunk_size := 5\<rparr>) =
      (Done p, v1, fs)"
proof -
  let ?L = "example_lib [example_length_header]"
  let ?v = "empty_world\<lparr>inbox := (\<lambda>_. example_head @ ascii ''hi''), chunk_size := 5\<rparr>"
  obtain w1 es where local: "read_one_local_http_request ?L ending_env 1
      (empty_world\<lparr>inbox := (\<lambda>_. example_head @ ascii ''hi''), chunk_size := 3\<rparr>) =
      (Done (example_head @ ascii ''hi''), w1, es)"
    using example_local_run by blast
  obtain r v1 fs where remote: "read_http_request ?L ending_env 2 ?v = (r, v1, fs)"
    by (rule act_run)
  have coming: "inbox ?v 2 = (example_head @ ascii ''hi'') @ []"
    by simp
  have "parse_http_head ?L head = parse_http_head ?L example_head" for head
    by (simp add: parse_http_head_def example_lib_def)
  moreover have "\<exists>p. parse_http_head ?L example_head = Inr p \<and> \<not> has_chunked_body p"
    using example_parsed by blast
  ultimately show ?thesis
    using local_request_reaches_remote [OF ending_source.buffered_source_axioms local
        ending_source.buffered_source_axioms coming remote] local remote
    by fastforce
qed

end
