(* ===== verification/HttpMessage.thy ===== *)
theory HttpMessage
  imports HttpHead
begin

text \<open>
  The response side of \<open>src/http.rs\<close>: plain responses, and a provider's response re-framed as a
  chunked one. The provider's response is \<open>reqwest\<close>'s: its status, reason and headers are the
  parameter \<open>response_lib\<close>, its body the chunks that \<open>provider_chunk\<close> delivers. The number of chunks is
  not bounded by the code; \<open>fuel\<close> bounds it in the model, and a body with more chunks is a writer
  that is still running (\<open>Hang\<close>). What is written is compared with a decoder for chunked bodies.
\<close>

section \<open>Writers\<close>

definition CRLF :: "u8 list" where
  "CRLF = [0x0d, 0x0a]"

lemma CRLF_simps [simp]: "length CRLF = 2" "take 2 (CRLF @ xs) = CRLF" "drop 2 (CRLF @ xs) = xs"
  by (simp_all add: CRLF_def)

definition write_plain_response ::
  "('w, 'h, 'z) env_scheme \<Rightarrow> 'h \<Rightarrow> nat \<Rightarrow> rstring \<Rightarrow> rstring \<Rightarrow> ('w, 'h, io_error, unit) act" where
  "write_plain_response E send code why text =
    andthen (write_all E send (ascii ''HTTP/1.1 '' @ show_dec code @ ascii '' '' @ why @ CRLF)) (\<lambda>_.
    andthen (write_all E send (ascii ''content-type: text/plain'' @ CRLF)) (\<lambda>_.
    andthen (write_all E send (ascii ''connection: close'' @ CRLF)) (\<lambda>_.
    andthen (write_all E send (ascii ''content-length: '' @ show_dec (length text) @ CRLF)) (\<lambda>_.
    andthen (write_all E send CRLF) (\<lambda>_.
    andthen (write_all E send text) (\<lambda>_.
    ret ()))))))"

definition write_plain_error ::
  "('w, 'h, 'z) env_scheme \<Rightarrow> 'h \<Rightarrow> nat \<Rightarrow> rstring \<Rightarrow> rstring \<Rightarrow> ('w, 'h, io_error, unit) act" where
  "write_plain_error E send code why text = write_plain_response E send code why text"

definition should_forward_response_header :: "rstring \<Rightarrow> bool" where
  "should_forward_response_header name \<longleftrightarrow>
    name \<notin> set (map ascii [''content-length'', ''connection'', ''transfer-encoding'', ''keep-alive'',
      ''proxy-authenticate'', ''proxy-authorization'', ''te'', ''trailer'', ''upgrade''])"

definition write_response_chunk ::
  "('w, 'h, 'z) env_scheme \<Rightarrow> 'h \<Rightarrow> u8 list \<Rightarrow> ('w, 'h, io_error, unit) act" where
  "write_response_chunk E send chunk =
    andthen (write_all E send (show_hex (length chunk) @ CRLF)) (\<lambda>_.
    andthen (write_all E send chunk) (\<lambda>_.
    andthen (write_all E send CRLF) (\<lambda>_.
    ret ())))"

record 'h response_lib =
  response_status :: "'h \<Rightarrow> nat"
  canonical_reason :: "'h \<Rightarrow> rstring option"
  response_headers :: "'h \<Rightarrow> header_map"

primrec write_headers :: "('w, 'h, 'z) env_scheme \<Rightarrow> 'h \<Rightarrow> header_map \<Rightarrow> ('w, 'h, io_error, unit) act" where
  "write_headers E send [] = ret ()"
| "write_headers E send (header # headers) =
    (if should_forward_response_header (fst header) then
       andthen (write_all E send (map to_ascii_lowercase (fst header))) (\<lambda>_.
       andthen (write_all E send (ascii '': '')) (\<lambda>_.
       andthen (write_all E send (snd header)) (\<lambda>_.
       andthen (write_all E send CRLF) (\<lambda>_.
       write_headers E send headers))))
     else write_headers E send headers)"

primrec write_chunks :: "nat \<Rightarrow> ('w, 'h, 'z) env_scheme \<Rightarrow> 'h \<Rightarrow> 'h \<Rightarrow> ('w, 'h, io_error, unit) act" where
  "write_chunks 0 E send response = hang"
| "write_chunks (Suc fuel) E send response =
    andthen (provider_chunk E response) (\<lambda>next.
    case next of
      None \<Rightarrow> ret ()
    | Some chunk \<Rightarrow>
        andthen (write_response_chunk E send chunk) (\<lambda>_.
        write_chunks fuel E send response))"

definition write_http_response ::
  "nat \<Rightarrow> 'h response_lib \<Rightarrow> ('w, 'h, 'z) env_scheme \<Rightarrow> 'h \<Rightarrow> 'h \<Rightarrow> u8 list option \<Rightarrow>
    ('w, 'h, io_error, unit) act" where
  "write_http_response fuel R E send response first_chunk =
    andthen (write_all E send
      (ascii ''HTTP/1.1 '' @ show_dec (response_status R response) @ ascii '' '' @
       (case canonical_reason R response of None \<Rightarrow> [] | Some why \<Rightarrow> why) @ CRLF)) (\<lambda>_.
    andthen (write_headers E send (response_headers R response)) (\<lambda>_.
    andthen (write_all E send (ascii ''connection: close'' @ CRLF)) (\<lambda>_.
    andthen (write_all E send (ascii ''transfer-encoding: chunked'' @ CRLF)) (\<lambda>_.
    andthen (write_all E send CRLF) (\<lambda>_.
    andthen
      (case first_chunk of None \<Rightarrow> ret () | Some chunk \<Rightarrow> write_response_chunk E send chunk) (\<lambda>_.
    andthen (write_chunks fuel E send response) (\<lambda>_.
    andthen (write_all E send (ascii ''0'' @ CRLF @ CRLF)) (\<lambda>_.
    ret ()))))))))"

section \<open>What they write\<close>

definition plain_response_bytes :: "nat \<Rightarrow> rstring \<Rightarrow> rstring \<Rightarrow> u8 list" where
  "plain_response_bytes code why text =
    ascii ''HTTP/1.1 '' @ show_dec code @ ascii '' '' @ why @ CRLF @
    ascii ''content-type: text/plain'' @ CRLF @ ascii ''connection: close'' @ CRLF @
    ascii ''content-length: '' @ show_dec (length text) @ CRLF @ CRLF @ text"

definition header_line :: "rstring \<times> u8 list \<Rightarrow> u8 list" where
  "header_line field = map to_ascii_lowercase (fst field) @ ascii '': '' @ snd field @ CRLF"

definition response_head_bytes :: "nat \<Rightarrow> rstring option \<Rightarrow> header_map \<Rightarrow> u8 list" where
  "response_head_bytes code why headers =
    ascii ''HTTP/1.1 '' @ show_dec code @ ascii '' '' @ (case why of None \<Rightarrow> [] | Some r \<Rightarrow> r) @ CRLF @
    concat (map header_line (filter (\<lambda>field. should_forward_response_header (fst field)) headers)) @
    ascii ''connection: close'' @ CRLF @ ascii ''transfer-encoding: chunked'' @ CRLF @ CRLF"

definition chunk_bytes :: "u8 list \<Rightarrow> u8 list" where
  "chunk_bytes chunk = show_hex (length chunk) @ CRLF @ chunk @ CRLF"

definition last_chunk :: "u8 list" where
  "last_chunk = ascii ''0'' @ CRLF @ CRLF"

text \<open>The chunks a provider delivered in a run.\<close>

fun provided :: "'h event list \<Rightarrow> u8 list list" where
  "provided [] = []"
| "provided (Provider_chunk_ev h (Done (Some chunk)) # es) = chunk # provided es"
| "provided (_ # es) = provided es"

lemma write_plain_response_sends:
  "sends h (plain_response_bytes code why text) (write_plain_response E h code why text)"
  unfolding write_plain_response_def
  by (rule sends_eq, (rule sends_rules)+) (simp add: plain_response_bytes_def)

lemma write_response_chunk_sends: "sends h (chunk_bytes chunk) (write_response_chunk E h chunk)"
  unfolding write_response_chunk_def
  by (rule sends_eq, (rule sends_rules)+) (simp add: chunk_bytes_def)

lemma write_headers_sends:
  "sends h (concat (map header_line (filter (\<lambda>field. should_forward_response_header (fst field)) headers)))
    (write_headers E h headers)"
proof (induction headers)
  case (Cons field headers)
  show ?case
  proof (cases "should_forward_response_header (fst field)")
    case True
    have "sends h (map to_ascii_lowercase (fst field) @ ascii '': '' @ snd field @ CRLF @
        concat (map header_line (filter (\<lambda>field. should_forward_response_header (fst field)) headers)))
        (write_headers E h (field # headers))"
      unfolding write_headers.simps if_P [OF True] by (rule Cons sends_rules)+
    then show ?thesis
      by (rule sends_eq) (simp add: True header_line_def [of field])
  qed (use Cons in simp)
qed (simp add: sends_ret)

section \<open>Chunked bodies\<close>

text \<open>The receiver's side: a chunk size in hexadecimal, the chunk, and so on up to a size of zero.\<close>

definition hex_value :: "u8 \<Rightarrow> nat option" where
  "hex_value b =
    (if 0x30 \<le> b \<and> b \<le> 0x39 then Some (unat (b - 0x30))
     else if 0x61 \<le> b \<and> b \<le> 0x66 then Some (unat (b - 0x57))
     else if 0x41 \<le> b \<and> b \<le> 0x46 then Some (unat (b - 0x37))
     else None)"

fun parse_hex :: "nat \<Rightarrow> rstring \<Rightarrow> nat option" where
  "parse_hex acc [] = Some acc"
| "parse_hex acc (b # bs) =
    (case hex_value b of None \<Rightarrow> None | Some d \<Rightarrow> parse_hex (acc * 16 + d) bs)"

definition chunk_size_line :: "u8 list \<Rightarrow> (nat \<times> u8 list) option" where
  "chunk_size_line bs =
    (let digits = takeWhile (\<lambda>b. b \<noteq> 0x0d) bs; rest = dropWhile (\<lambda>b. b \<noteq> 0x0d) bs in
     if digits = [] \<or> take 2 rest \<noteq> CRLF then None
     else (case parse_hex 0 digits of None \<Rightarrow> None | Some n \<Rightarrow> Some (n, drop 2 rest)))"

lemma chunk_size_line_shorter: "chunk_size_line bs = Some (n, rest) \<Longrightarrow> length rest < length bs"
proof -
  assume "chunk_size_line bs = Some (n, rest)"
  then have rest: "rest = drop 2 (dropWhile (\<lambda>b. b \<noteq> 0x0d) bs)" and "take 2 (dropWhile (\<lambda>b. b \<noteq> 0x0d) bs) = CRLF"
    by (auto simp: chunk_size_line_def Let_def split: if_splits option.splits)
  then have "length (dropWhile (\<lambda>b. b \<noteq> 0x0d) bs) \<ge> 2"
    by (cases "length (dropWhile (\<lambda>b. b \<noteq> 0x0d) bs) \<ge> 2") (auto simp: CRLF_def)
  moreover have "length (dropWhile (\<lambda>b. b \<noteq> 0x0d) bs) \<le> length bs"
    by (rule length_dropWhile_le)
  ultimately show ?thesis
    by (simp add: rest)
qed

function decode_chunked :: "u8 list \<Rightarrow> (u8 list \<times> u8 list) option" where
  "decode_chunked bs =
    (case chunk_size_line bs of
       None \<Rightarrow> None
     | Some (n, rest) \<Rightarrow>
         if n = 0 then (if take 2 rest = CRLF then Some ([], drop 2 rest) else None)
         else if n + 2 \<le> length rest \<and> take 2 (drop n rest) = CRLF then
           map_option (\<lambda>(body, after). (take n rest @ body, after)) (decode_chunked (drop (n + 2) rest))
         else None)"
  by pat_completeness auto

termination decode_chunked
  by (relation "measure length") (auto dest: chunk_size_line_shorter)

declare decode_chunked.simps [simp del]

lemma parse_hex_append:
  "parse_hex acc (xs @ ys) = (case parse_hex acc xs of None \<Rightarrow> None | Some n \<Rightarrow> parse_hex n ys)"
  by (induction xs arbitrary: acc) (auto split: option.split)

lemma hex_cases: "d < (16 :: nat) \<Longrightarrow> d \<in> {0, 1, 2, 3, 4, 5, 6, 7, 8, 9, 10, 11, 12, 13, 14, 15}"
  unfolding insert_iff empty_iff by presburger

lemma hex_value_digit: "d < 16 \<Longrightarrow> hex_value (hex_digit d) = Some d \<and> hex_digit d \<noteq> 0x0d"
  by (drule hex_cases, elim insertE emptyE) (simp_all add: hex_value_def hex_digit_def)

lemma parse_hex_show_hex: "parse_hex 0 (show_hex n) = Some n"
proof (induction n rule: show_hex.induct)
  case (1 n)
  then show ?case
    by (subst show_hex.simps) (auto simp: parse_hex_append hex_value_digit)
qed

lemma show_hex_no_cr: "0x0d \<notin> set (show_hex n)"
proof (induction n rule: show_hex.induct)
  case (1 n)
  then show ?case
    using hex_value_digit [of n] hex_value_digit [of "n mod 16"]
    by (subst show_hex.simps) auto
qed

lemma chunk_size_line_show: "chunk_size_line (show_hex n @ CRLF @ rest) = Some (n, rest)"
proof -
  have "takeWhile (\<lambda>b. b \<noteq> 0x0d) (show_hex n @ CRLF @ rest) = show_hex n"
    "dropWhile (\<lambda>b. b \<noteq> 0x0d) (show_hex n @ CRLF @ rest) = CRLF @ rest"
    using show_hex_no_cr [of n]
    by (subst takeWhile_append2 dropWhile_append2; auto simp: CRLF_def)+
  then show ?thesis
    by (simp add: chunk_size_line_def parse_hex_show_hex CRLF_def)
qed

lemma decode_chunk:
  assumes "chunk \<noteq> []"
  shows "decode_chunked (chunk_bytes chunk @ rest) =
    map_option (\<lambda>(body, after). (chunk @ body, after)) (decode_chunked rest)"
proof -
  have "take 2 (drop (length chunk) (chunk @ CRLF @ rest)) = CRLF"
    "drop (length chunk + 2) (chunk @ CRLF @ rest) = rest"
    by (simp_all add: CRLF_def)
  then show ?thesis
    using assms
    by (subst decode_chunked.simps) (simp add: chunk_bytes_def chunk_size_line_show del: drop_append)
qed

lemma decode_size_zero:
  "chunk_size_line bs = Some (0, CRLF @ rest) \<Longrightarrow> decode_chunked bs = Some ([], rest)"
  by (subst decode_chunked.simps) simp

lemma decode_last_chunk: "decode_chunked (last_chunk @ rest) = Some ([], rest)"
proof -
  have "show_hex 0 = ascii ''0''"
    by (simp add: show_hex.simps [of 0] hex_digit_def)
  then show ?thesis
    using chunk_size_line_show [of 0 "CRLF @ rest"] by (intro decode_size_zero) (simp add: last_chunk_def)
qed

lemma decode_empty_chunk: "decode_chunked (chunk_bytes [] @ rest) = Some ([], rest)"
  by (intro decode_size_zero) (simp add: chunk_bytes_def chunk_size_line_show)

lemma decode_chunks:
  "decode_chunked (concat (map chunk_bytes chunks) @ last_chunk @ rest) =
    (if [] \<in> set chunks
     then Some (concat (takeWhile (\<lambda>c. c \<noteq> []) chunks),
                concat (map chunk_bytes (tl (dropWhile (\<lambda>c. c \<noteq> []) chunks))) @ last_chunk @ rest)
     else Some (concat chunks, rest))"
proof (induction chunks)
  case (Cons c chunks)
  then show ?case
    by (cases "c = []") (simp_all add: decode_chunk decode_empty_chunk)
qed (simp add: decode_last_chunk)

section \<open>Whole responses\<close>

fun writes_only :: "'h \<Rightarrow> 'h event \<Rightarrow> bool" where
  "writes_only h (Write_all_ev h' bs r) \<longleftrightarrow> h' = h"
| "writes_only h _ \<longleftrightarrow> False"

lemma provided_append [simp]: "provided (es @ fs) = provided es @ provided fs"
  by (induction es rule: provided.induct) simp_all

lemma writes_only_provided: "list_all (writes_only h) es \<Longrightarrow> provided es = []"
proof (induction es)
  case (Cons e es)
  then show ?case by (cases e) auto
qed simp

lemma write_plain_response_calls: "emits (writes_only h) (\<lambda>_. True) (write_plain_response E h code why text)"
  unfolding write_plain_response_def by (auto intro!: calls_rules)

lemma write_response_chunk_calls: "emits (writes_only h) (\<lambda>_. True) (write_response_chunk E h chunk)"
  unfolding write_response_chunk_def by (auto intro!: calls_rules)

lemma write_headers_calls: "emits (writes_only h) (\<lambda>_. True) (write_headers E h headers)"
  by (induction headers) (auto intro!: calls_rules)

lemma write_chunks_run:
  "write_chunks fuel E h response w = (Done (), w1, es) \<Longrightarrow> sent h es = concat (map chunk_bytes (provided es))"
proof (induction fuel arbitrary: w es)
  case (Suc fuel)
  from Suc.prems have run: "andthen (provider_chunk E response) (\<lambda>next. case next of None \<Rightarrow> ret ()
      | Some chunk \<Rightarrow> andthen (write_response_chunk E h chunk) (\<lambda>_. write_chunks fuel E h response)) w = (Done (), w1, es)"
    by simp
  then show ?case
  proof (cases rule: andthen_runs)
    case (ran got w2 es1 es2)
    then have es1: "es1 = [Provider_chunk_ev response (Done got)]"
      by (auto simp: provider_chunk_def call_def split: prod.splits)
    show ?thesis
    proof (cases got)
      case None
      then show ?thesis
        using ran es1 by (simp add: ret_def)
    next
      case (Some chunk)
      then have "andthen (write_response_chunk E h chunk) (\<lambda>_. write_chunks fuel E h response) w2 = (Done (), w1, es2)"
        using ran(2) by simp
      then show ?thesis
      proof (cases rule: andthen_runs)
        case inner: (ran x w3 es3 es4)
        have "provided es3 = []"
          by (rule writes_only_provided [OF conjunct1 [OF emitsD [OF write_response_chunk_calls inner(1)]]])
        then show ?thesis
          using Suc.IH [OF inner(2)] sendsD [OF write_response_chunk_sends inner(1)]
          by (simp add: ran(3) inner(3) es1 Some)
      qed simp_all
    qed
  qed simp_all
qed (simp add: hang_def)

definition write_response_head ::
  "'h response_lib \<Rightarrow> ('w, 'h, 'z) env_scheme \<Rightarrow> 'h \<Rightarrow> 'h \<Rightarrow> u8 list option \<Rightarrow> ('w, 'h, io_error, unit) act" where
  "write_response_head R E send response first_chunk =
    andthen (write_all E send
      (ascii ''HTTP/1.1 '' @ show_dec (response_status R response) @ ascii '' '' @
       (case canonical_reason R response of None \<Rightarrow> [] | Some why \<Rightarrow> why) @ CRLF)) (\<lambda>_.
    andthen (write_headers E send (response_headers R response)) (\<lambda>_.
    andthen (write_all E send (ascii ''connection: close'' @ CRLF)) (\<lambda>_.
    andthen (write_all E send (ascii ''transfer-encoding: chunked'' @ CRLF)) (\<lambda>_.
    andthen (write_all E send CRLF) (\<lambda>_.
    case first_chunk of None \<Rightarrow> ret () | Some chunk \<Rightarrow> write_response_chunk E send chunk)))))"

lemma write_http_response_split:
  "write_http_response fuel R E send response first_chunk =
    andthen (write_response_head R E send response first_chunk) (\<lambda>_.
    andthen (write_chunks fuel E send response) (\<lambda>_.
    andthen (write_all E send last_chunk) (\<lambda>_. ret ())))"
  unfolding write_http_response_def write_response_head_def last_chunk_def by (simp only: andthen_assoc)

lemma write_response_head_sends:
  "sends h (response_head_bytes (response_status R response) (canonical_reason R response) (response_headers R response) @
      (case first_chunk of None \<Rightarrow> [] | Some chunk \<Rightarrow> chunk_bytes chunk))
    (write_response_head R E h response first_chunk)"
proof -
  have first: "sends h (case first_chunk of None \<Rightarrow> [] | Some chunk \<Rightarrow> chunk_bytes chunk)
      (case first_chunk of None \<Rightarrow> ret () | Some chunk \<Rightarrow> write_response_chunk E h chunk)"
    by (cases first_chunk) (simp_all add: sends_ret write_response_chunk_sends)
  have "sends h
      ((ascii ''HTTP/1.1 '' @ show_dec (response_status R response) @ ascii '' '' @
        (case canonical_reason R response of None \<Rightarrow> [] | Some why \<Rightarrow> why) @ CRLF) @
       concat (map header_line (filter (\<lambda>field. should_forward_response_header (fst field)) (response_headers R response))) @
       (ascii ''connection: close'' @ CRLF) @ (ascii ''transfer-encoding: chunked'' @ CRLF) @ CRLF @
       (case first_chunk of None \<Rightarrow> [] | Some chunk \<Rightarrow> chunk_bytes chunk))
    (write_response_head R E h response first_chunk)"
    unfolding write_response_head_def
    by (rule sends_andthen sends_write_all write_headers_sends first)+
  then show ?thesis
    by (simp only: response_head_bytes_def append_assoc)
qed

lemma write_response_head_calls: "emits (writes_only h) (\<lambda>_. True) (write_response_head R E h response first_chunk)"
  unfolding write_response_head_def
  by (auto intro!: calls_rules write_headers_calls write_response_chunk_calls split: option.split)

section \<open>A finite body is written to its end\<close>

text \<open>\<open>completes P Q m\<close>: from a world in \<open>P\<close> the act \<open>m\<close> ends without an error, in a world in \<open>Q\<close>.\<close>

definition completes :: "('w \<Rightarrow> bool) \<Rightarrow> ('w \<Rightarrow> bool) \<Rightarrow> ('w, 'h, 'e, 'a) act \<Rightarrow> bool" where
  "completes P Q m \<longleftrightarrow> (\<forall>w. P w \<longrightarrow> (\<exists>x w1 es. m w = (Done x, w1, es) \<and> Q w1))"

lemma completes_ret: "completes P P (ret x)"
  by (simp add: completes_def ret_def)

lemma completes_andthen: "\<lbrakk> completes P Q m; \<And>x. completes Q R (f x) \<rbrakk> \<Longrightarrow> completes P R (andthen m f)"
  unfolding completes_def
proof (intro allI impI)
  fix w assume "P w" and m: "\<forall>w. P w \<longrightarrow> (\<exists>x w1 es. m w = (Done x, w1, es) \<and> Q w1)"
    and f: "\<And>x. \<forall>w. Q w \<longrightarrow> (\<exists>y w1 es. f x w = (Done y, w1, es) \<and> R w1)"
  then obtain x w1 es where x: "m w = (Done x, w1, es)" "Q w1"
    by blast
  with f [of x] obtain y w2 fs where "f x w1 = (Done y, w2, fs)" "R w2"
    by blast
  with x show "\<exists>y w2 es. andthen m f w = (Done y, w2, es) \<and> R w2"
    by (simp add: andthen_def)
qed

text \<open>
  A receiver that accepts what is written on \<open>send\<close>, and a provider that delivers what is left of a
  response's body chunk by chunk, and then its end.
\<close>

locale provider_stream =
  fixes E :: "('w, 'h, 'z) env_scheme"
    and send :: 'h
    and ready :: "'w \<Rightarrow> bool"
    and remaining :: "'w \<Rightarrow> 'h \<Rightarrow> u8 list list"
  assumes next_chunk:
      "\<And>w h r w1. \<lbrakk> ready w; op_provider_chunk E h w = (r, w1) \<rbrakk> \<Longrightarrow> ready w1 \<and>
        (case remaining w h of
           [] \<Rightarrow> r = Done None \<and> remaining w1 = remaining w
         | c # cs \<Rightarrow> r = Done (Some c) \<and> remaining w1 = (remaining w)(h := cs))"
    and accepts_writes:
      "\<And>w bs r w1. \<lbrakk> ready w; op_write_all E send bs w = (r, w1) \<rbrakk> \<Longrightarrow>
        r = Done () \<and> ready w1 \<and> remaining w1 = remaining w"
begin

definition left :: "('h \<Rightarrow> u8 list list) \<Rightarrow> 'w \<Rightarrow> bool" where
  "left chunks w \<longleftrightarrow> ready w \<and> remaining w = chunks"

lemma write_all_completes: "completes (left chunks) (left chunks) (write_all E send bs)"
  using accepts_writes by (fastforce simp: completes_def left_def write_all_def call_def split: prod.splits)

lemmas writer_rules = completes_andthen completes_ret write_all_completes

lemma write_response_chunk_completes: "completes (left chunks) (left chunks) (write_response_chunk E send chunk)"
  unfolding write_response_chunk_def by (rule writer_rules)+

lemma write_headers_completes: "completes (left chunks) (left chunks) (write_headers E send headers)"
  by (induction headers) (auto intro!: writer_rules)

lemma write_chunks_completes:
  "length (chunks h) < fuel \<Longrightarrow> completes (left chunks) (left (chunks(h := []))) (write_chunks fuel E send h)"
proof (induction fuel arbitrary: chunks)
  case (Suc fuel)
  show ?case
  proof (cases "chunks h")
    case Nil
    then have "chunks(h := []) = chunks"
      by auto
    then show ?thesis
      using next_chunk Nil
      by (fastforce simp: completes_def left_def andthen_def provider_chunk_def call_def ret_def split: prod.splits)
  next
    case (Cons c cs)
    have "completes (left (chunks(h := cs))) (left (chunks(h := [])))
        (andthen (write_response_chunk E send c) (\<lambda>_. write_chunks fuel E send h))"
    proof (rule completes_andthen [OF write_response_chunk_completes])
      show "completes (left (chunks(h := cs))) (left (chunks(h := []))) (write_chunks fuel E send h)"
        by (rule Suc.IH [of "chunks(h := cs)", unfolded fun_upd_upd]) (use Suc.prems Cons in simp)
    qed
    note rest = this [unfolded completes_def, rule_format]
    show ?thesis
      unfolding completes_def
    proof (intro allI impI)
      fix w assume w: "left chunks w"
      obtain r w1 where chunk: "op_provider_chunk E h w = (r, w1)"
        by fastforce
      with next_chunk [OF _ chunk] w Cons have "r = Done (Some c)" "left (chunks(h := cs)) w1"
        by (simp_all add: left_def)
      with rest [of w1] chunk
      show "\<exists>x w1 es. write_chunks (Suc fuel) E send h w = (Done x, w1, es) \<and> left (chunks(h := [])) w1"
        by (auto simp: andthen_def [of "call a b" for a b] provider_chunk_def call_def split: prod.splits)
    qed
  qed
qed simp

lemma write_http_response_completes:
  assumes "length (chunks response) < fuel"
  shows "completes (left chunks) (left (chunks(response := []))) (write_http_response fuel R E send response first_chunk)"
proof -
  have first: "completes (left chunks) (left chunks)
      (case first_chunk of None \<Rightarrow> ret () | Some chunk \<Rightarrow> write_response_chunk E send chunk)"
    by (cases first_chunk) (simp_all add: completes_ret write_response_chunk_completes)
  show ?thesis
    unfolding write_http_response_def
    by (rule completes_andthen write_all_completes write_headers_completes first write_chunks_completes [of chunks response, OF assms]
      completes_ret)+
qed

end

interpretation loop_provider: provider_stream loop_env send "\<lambda>w. \<not> finished w send" provider_body for send
  by unfold_locales
    (auto simp: loop_env_def loop_provider_chunk_def loop_write_all_def split: list.splits if_splits)

text \<open>An instance: a response with two forwarded headers, two that are not, and a body of two chunks.\<close>

definition example_responses :: "nat response_lib" where
  "example_responses =
    \<lparr>response_status = (\<lambda>_. 200), canonical_reason = (\<lambda>_. Some (ascii ''OK'')),
     response_headers = (\<lambda>_. [(ascii ''content-type'', ascii ''text/plain''), (ascii ''content-length'', ascii ''5'')])\<rparr>"

definition example_response_world :: loop_world where
  "example_response_world = empty_world\<lparr>provider_body := (\<lambda>_. [ascii ''yo!''])\<rparr>"

lemma write_http_response_sent:
  assumes "write_http_response fuel R E send response first_chunk w = (Done (), w1, es)"
  shows "sent send es =
    response_head_bytes (response_status R response) (canonical_reason R response) (response_headers R response) @
    concat (map chunk_bytes ((case first_chunk of None \<Rightarrow> [] | Some chunk \<Rightarrow> [chunk]) @ provided es)) @ last_chunk"
  using assms unfolding write_http_response_split
proof (cases rule: andthen_runs)
  case (ran x w2 es1 es2)
  from ran(2) show ?thesis
  proof (cases rule: andthen_runs)
    case inner: (ran y w3 es3 es4)
    have es4: "sent send es4 = last_chunk" "provided es4 = []"
      using inner(2) by (auto simp: andthen_def write_all_def call_def ret_def split: prod.splits outcome.splits)
    have "provided es1 = []"
      by (rule writes_only_provided [OF conjunct1 [OF emitsD [OF write_response_head_calls ran(1)]]])
    moreover have "sent send es3 = concat (map chunk_bytes (provided es3))"
      using write_chunks_run [of fuel E send response w2 w3 es3] inner(1) by simp
    ultimately show ?thesis
      using sendsD [OF write_response_head_sends ran(1)] es4
      by (simp add: ran(3) inner(3) split: option.split)
  qed simp_all
qed simp_all

text \<open>C21: a provider's response as the client receives it. A completed \<open>write_http_response\<close> has written a
  head with the provider's status and all of its headers except those that describe its own connection and
  framing, then one chunk for every chunk the provider delivered, in order, and the last-chunk marker.
  A decoder of chunked bodies reads back exactly the provider's body, unless the provider delivered an
  empty chunk: that is written as a last-chunk marker and ends the body there.\<close>

theorem provider_response_reframed:
  assumes "write_http_response fuel R E send response first_chunk w = (Done (), w1, es)"
    and "chunks = (case first_chunk of None \<Rightarrow> [] | Some chunk \<Rightarrow> [chunk]) @ provided es"
  shows "\<exists>bytes. sent send es =
      response_head_bytes (response_status R response) (canonical_reason R response) (response_headers R response) @ bytes \<and>
    (case decode_chunked bytes of
       None \<Rightarrow> False
     | Some (text, after) \<Rightarrow>
         text = concat (takeWhile (\<lambda>c. c \<noteq> []) chunks) \<and> (after = [] \<longleftrightarrow> [] \<notin> set chunks))"
proof -
  have "sent send es =
      response_head_bytes (response_status R response) (canonical_reason R response) (response_headers R response) @
        concat (map chunk_bytes chunks) @ last_chunk"
    using write_http_response_sent [OF assms(1)] assms(2) by simp
  moreover have "last_chunk \<noteq> []"
    by (simp add: last_chunk_def)
  moreover have "[] \<notin> set chunks \<Longrightarrow> concat (takeWhile (\<lambda>c. c \<noteq> []) chunks) = concat chunks"
    by (rule arg_cong [of _ _ concat]) (auto simp: takeWhile_eq_all_conv)
  ultimately show ?thesis
    using decode_chunks [of chunks "[]"]
    by (intro exI [of _ "concat (map chunk_bytes chunks) @ last_chunk"]) (cases "[] \<in> set chunks", simp_all)
qed

theorem provider_response_reframed_witness:
  "\<exists>w1 es bytes. write_http_response 2 example_responses loop_env 1 9 (Some (ascii ''hi'')) example_response_world =
      (Done (), w1, es) \<and>
    sent 1 es = response_head_bytes 200 (Some (ascii ''OK'')) (response_headers example_responses 9) @ bytes \<and>
    (\<exists>after. decode_chunked bytes = Some (ascii ''hiyo!'', after))"
proof -
  obtain w1 es where run: "write_http_response 2 example_responses loop_env 1 9 (Some (ascii ''hi'')) example_response_world =
      (Done (), w1, es)" and body: "provided es = [ascii ''yo!'']"
    by (simp add: numeral_2_eq_2 write_http_response_def write_response_chunk_def example_responses_def
      should_forward_response_header_def example_response_world_def loop_eval)
  have "[ascii ''hi'', ascii ''yo!''] = (case Some (ascii ''hi'') of None \<Rightarrow> [] | Some chunk \<Rightarrow> [chunk]) @ provided es"
    by (simp add: body)
  from provider_response_reframed [OF run this] run show ?thesis
    by (fastforce simp: example_responses_def split: option.splits)
qed

text \<open>C29: a finite body is passed on completely. If the receiver accepts what is written and the provider
  delivers the rest of the body and its end, then writing the response returns, with fuel for one more
  chunk than there are; everything the provider had left was taken.\<close>

theorem provider_response_completes:
  assumes "provider_stream E send ready remaining"
    and "ready w" and "length (remaining w response) < fuel"
  shows "\<exists>w1 es. write_http_response fuel R E send response first_chunk w = (Done (), w1, es) \<and>
    remaining w1 response = []"
  using provider_stream.write_http_response_completes [OF assms(1), of "remaining w" response fuel R first_chunk] assms(2,3)
  unfolding completes_def provider_stream.left_def [OF assms(1)] by fastforce

theorem provider_response_completes_witness:
  "\<exists>w1 es. write_http_response 2 example_responses loop_env 1 9 (Some (ascii ''hi'')) example_response_world =
      (Done (), w1, es) \<and> provider_body w1 9 = []"
  using provider_response_completes [OF loop_provider.provider_stream_axioms [of 1],
      of example_response_world 9 2 example_responses "Some (ascii ''hi'')"]
  by (simp add: example_response_world_def empty_world_def)

text \<open>A plain response is self-consistent: a completed \<open>write_plain_response\<close> has written a head and then
  its text, and the Content-Length in that head, read back, is the length of the text.\<close>

theorem plain_response_framed:
  assumes "write_plain_response E send code why text w = (Done (), w1, es)" and "length text \<le> u64_max"
  shows "\<exists>head digits. sent send es = head @ ascii ''content-length: '' @ digits @ CRLF @ CRLF @ text \<and>
    parse_unsigned u64_max digits = Some (length text)"
proof -
  let ?head = "ascii ''HTTP/1.1 '' @ show_dec code @ ascii '' '' @ why @ CRLF @
    ascii ''content-type: text/plain'' @ CRLF @ ascii ''connection: close'' @ CRLF"
  have "sent send es = ?head @ ascii ''content-length: '' @ show_dec (length text) @ CRLF @ CRLF @ text"
    using sendsD [OF write_plain_response_sends assms(1)] by (simp only: plain_response_bytes_def append_assoc)
  with parse_unsigned_show_dec [OF assms(2)] show ?thesis
    by blast
qed

theorem plain_response_framed_witness:
  "\<exists>w1 es head digits. write_plain_response loop_env 1 200 (ascii ''OK'') (ascii ''ok'') empty_world = (Done (), w1, es) \<and>
    sent 1 es = head @ ascii ''content-length: '' @ digits @ CRLF @ CRLF @ ascii ''ok''"
proof -
  obtain w1 es where run: "write_plain_response loop_env 1 200 (ascii ''OK'') (ascii ''ok'') empty_world = (Done (), w1, es)"
    by (simp add: write_plain_response_def loop_eval)
  have "length (ascii ''ok'') \<le> u64_max"
    by (simp add: u64_max_def)
  from plain_response_framed [OF run this] run show ?thesis
    by blast
qed

end
