(* ===== verification/HttpCalls.thy ===== *)
theory HttpCalls
  imports HttpMessage ExitServer
begin

text \<open>
  The calls the HTTP readers and writers make, for the two OpenAI handlers: reading a request only reads
  from its stream, an error answer only writes to and closes its own, and the events that tell what was
  asked of a provider.
\<close>

section \<open>Events of the provider\<close>

fun provider_sends :: "'h event list \<Rightarrow> (provider_request \<times> (io_error, 'h) outcome) list" where
  "provider_sends [] = []"
| "provider_sends (Provider_send_ev req r # es) = (req, r) # provider_sends es"
| "provider_sends (_ # es) = provider_sends es"

fun chunk_results :: "'h event list \<Rightarrow> (io_error, u8 list option) outcome list" where
  "chunk_results [] = []"
| "chunk_results (Provider_chunk_ev h r # es) = r # chunk_results es"
| "chunk_results (_ # es) = chunk_results es"

lemma provider_sends_append [simp]: "provider_sends (es @ fs) = provider_sends es @ provider_sends fs"
  by (induction es rule: provider_sends.induct) simp_all

lemma chunk_results_append [simp]: "chunk_results (es @ fs) = chunk_results es @ chunk_results fs"
  by (induction es rule: chunk_results.induct) simp_all

section \<open>Reading\<close>

fun request_reads :: "'h \<Rightarrow> 'h event \<Rightarrow> bool" where
  "request_reads h (Read_exact_ev h' n r) \<longleftrightarrow> h' = h"
| "request_reads h (Fill_buf_ev h' r) \<longleftrightarrow> h' = h"
| "request_reads h (Consume_ev h' n) \<longleftrightarrow> h' = h"
| "request_reads h _ \<longleftrightarrow> False"

lemma calls_andthen_results:
  "\<lbrakk> emits P (\<lambda>_. True) m; \<And>x. x \<in> results m \<Longrightarrow> emits P (\<lambda>_. True) (f x) \<rbrakk> \<Longrightarrow> emits P (\<lambda>_. True) (andthen m f)"
  by (fastforce simp: emits_def andthen_def results_def split: prod.splits outcome.splits)

lemma calls_fill_buf: "(\<And>r. P (Fill_buf_ev h r)) \<Longrightarrow> emits P (\<lambda>_. True) (fill_buf E h)"
  unfolding fill_buf_def by (rule emits_call)

lemma calls_consume: "P (Consume_ev h n) \<Longrightarrow> emits P (\<lambda>_. True) (consume E h n)"
  by (simp add: emits_def consume_def)

lemma calls_buffer_is_empty: "emits P (\<lambda>_. True) (buffer_is_empty E h)"
  by (simp add: emits_def buffer_is_empty_def)

lemma read_line_calls: "emits (request_reads h) (\<lambda>_. True) (read_line_loop E h max_len bytes)"
proof (induction E h max_len bytes rule: read_line_loop.induct)
  case (1 E h max_len bytes)
  show ?case
    unfolding read_line_loop.simps [of E h max_len bytes]
  proof (rule calls_andthen_results)
    show "emits (request_reads h) (\<lambda>_. True) (map_err (\<lambda>_. bad_request ''read HTTP line'') (fill_buf E h))"
      by (intro emits_map_err calls_fill_buf) simp
  next
    fix available
    assume got: "available \<in> results (map_err (\<lambda>_. bad_request ''read HTTP line'') (fill_buf E h))"
    let ?n = "case position (\<lambda>byte. byte = 0x0a) available of None \<Rightarrow> length available | Some p \<Rightarrow> p + 1"
    let ?bytes = "bytes @ take ?n available"
    have more: "emits (request_reads h) (\<lambda>_. True)
        (andthen (consume E h ?n) (\<lambda>_. if ends_with ?bytes [0x0a] then ret ?bytes
           else read_line_loop E h max_len ?bytes))"
      if "available \<noteq> []" "\<not> length bytes + ?n > max_len"
    proof (rule calls_andthen_results)
      show "emits (request_reads h) (\<lambda>_. True) (consume E h ?n)"
        by (rule calls_consume) simp
      fix u
      show "emits (request_reads h) (\<lambda>_. True)
          (if ends_with ?bytes [0x0a] then ret ?bytes else read_line_loop E h max_len ?bytes)"
        by (rule emits_if [OF calls_ret "1.IH" [OF got that(1) refl that(2) refl]])
          (simp_all add: results_def consume_def)
    qed
    show "emits (request_reads h) (\<lambda>_. True)
      (if available = [] then if bytes = [] then raise (bad_request ''HTTP request ended early'') else ret bytes
       else let take_n = ?n
         in if length bytes + take_n > max_len then raise HeadersTooLarge
            else let bytes' = bytes @ take take_n available
              in andthen (consume E h take_n) (\<lambda>_. if ends_with bytes' [0x0a] then ret bytes'
                else read_line_loop E h max_len bytes'))"
      unfolding Let_def using more by (auto intro: calls_ret emits_raise)
  qed
qed

lemma read_head_loop_calls: "emits (request_reads h) (\<lambda>_. True) (read_head_loop E h head n)"
proof (induction E h head n rule: read_head_loop.induct)
  case (1 E h head n)
  show ?case
    unfolding read_head_loop.simps [of E h head n] Let_def
    by (rule calls_andthen_results)
      (use 1 in \<open>auto simp: read_limited_line_bytes_def intro: read_line_calls calls_ret emits_raise\<close>)
qed

lemma read_http_head_calls: "emits (request_reads h) (\<lambda>_. True) (read_http_head E h)"
  unfolding read_http_head_def read_limited_line_bytes_def
  by (intro calls_andthen emits_map_err read_line_calls read_head_loop_calls)

lemma read_http_request_calls: "emits (request_reads h) (\<lambda>_. True) (read_http_request L E h)"
  unfolding read_http_request_def Let_def
  by (auto intro!: calls_rules read_http_head_calls)

lemma read_one_local_calls: "emits (request_reads h) (\<lambda>_. True) (read_one_local_http_request L E h)"
  unfolding read_one_local_http_request_def Let_def
  by (auto intro!: calls_rules read_http_head_calls calls_buffer_is_empty)

section \<open>What such calls do not do\<close>

definition quiet :: "'h \<Rightarrow> 'h event list \<Rightarrow> bool" where
  "quiet h es \<longleftrightarrow> provider_sends es = [] \<and> chunk_results es = [] \<and> provided es = [] \<and> sent h es = []"

lemma quiet_append: "quiet h es \<Longrightarrow> quiet h fs \<Longrightarrow> quiet h (es @ fs)"
  by (simp add: quiet_def)

lemma quiet_deadline: "quiet h es \<Longrightarrow> quiet h (Deadline_ev d # es @ [Deadline_ev d'])"
  by (simp add: quiet_def)

lemma request_reads_quiet: "list_all (request_reads h) es \<Longrightarrow> quiet k es"
proof (induction es)
  case (Cons e es)
  then show ?case by (cases e) (auto simp: quiet_def)
qed (simp add: quiet_def)

text \<open>A plain answer, complete and closed.\<close>

definition plainly_answered :: "'h \<Rightarrow> nat \<Rightarrow> rstring \<Rightarrow> rstring \<Rightarrow> 'h event list \<Rightarrow> bool" where
  "plainly_answered h code why text es \<longleftrightarrow>
    sent h es = plain_response_bytes code why text \<and> list_ex (closes h) es"

lemma finish_closes: "finish E h w = (Done x, w1, es) \<Longrightarrow> sent k es = [] \<and> list_ex (closes h) es"
  by (auto simp: finish_def call_def split: prod.splits)

lemma shutdown_closes: "shutdown E h w = (Done x, w1, es) \<Longrightarrow> sent k es = [] \<and> list_ex (closes h) es"
  by (auto simp: shutdown_def call_def split: prod.splits)

lemma plain_then_close_run:
  assumes "andthen (map_err IoErr (write_plain_response E h code why text)) (\<lambda>_.
      andthen (map_err IoErr close) (\<lambda>_. ret x)) w = (Done y, w1, es)"
    and "\<And>u v v1 fs. close v = (Done u, v1, fs) \<Longrightarrow> sent h fs = [] \<and> list_ex (closes h) fs"
  shows "y = x \<and> plainly_answered h code why text es"
  using assms(1)
  by (auto elim!: andthen_runs map_err_runs dest!: assms(2)
      simp: plainly_answered_def ret_def sendsD [OF write_plain_response_sends] Done_map_outcome)

definition asks_nothing :: "'h event list \<Rightarrow> bool" where
  "asks_nothing es \<longleftrightarrow> provider_sends es = [] \<and> chunk_results es = [] \<and> provided es = []"

lemma quiet_asks_nothing: "quiet h es \<Longrightarrow> asks_nothing es"
  by (simp add: quiet_def asks_nothing_def)

lemma asks_nothing_append [simp]: "asks_nothing (es @ fs) \<longleftrightarrow> asks_nothing es \<and> asks_nothing fs"
  by (auto simp: asks_nothing_def)

lemma asks_nothing_Cons:
  "asks_nothing (Write_all_ev h bs r # es) = asks_nothing es"
  "asks_nothing (Finish_ev h r2 # es) = asks_nothing es"
  "asks_nothing (Shutdown_ev h r2 # es) = asks_nothing es"
  "asks_nothing (Deadline_ev d # es) = asks_nothing es"
  by (simp_all add: asks_nothing_def)

lemma answers_ask_nothing: "list_all (answers_only h) es \<Longrightarrow> asks_nothing es"
proof (induction es)
  case (Cons e es)
  then show ?case by (cases e) (auto simp: asks_nothing_def)
qed (simp add: asks_nothing_def)

lemma writes_ask_nothing: "list_all (writes_only h) es \<Longrightarrow> asks_nothing es"
proof (induction es)
  case (Cons e es)
  then show ?case by (cases e) (auto simp: asks_nothing_def)
qed (simp add: asks_nothing_def)

text \<open>A \<open>match\<close> on the result of a future under a timeout.\<close>

lemma timeout_then_runs:
  assumes "andthen (timeout E d m) f w = (r, w2, es)"
  obtains got w1 es1 fs where "m (op_deadline E (Some d) w) = (got, w1, es1)"
    "f (case got of Done x \<Rightarrow> Completed (Inr x) | Fail e \<Rightarrow> Completed (Inl e) | Hang \<Rightarrow> Elapsed) (op_deadline E None w1) =
      (r, w2, fs)"
    "es = (Deadline_ev (Some d) # es1 @ [Deadline_ev None]) @ fs"
  using assms by (auto simp: andthen_def timeout_def split: prod.splits)

end
