(* ===== verification/OpenAiConfig.thy ===== *)
theory OpenAiConfig
  imports Tunnel
begin

text \<open>
  The configurations of \<open>src/openai/config.rs\<close> with their validation, the argument parsers of
  \<open>src/cli.rs\<close> that feed them, and the configurations that \<open>run_server\<close> and \<open>run_client\<close> build.
  URLs are \<open>reqwest::Url\<close>, third-party: a type \<open>'u\<close> with a record of its operations.
\<close>

record 'u url_lib =
  url_parse :: "rstring \<Rightarrow> 'u option"
  url_scheme :: "'u \<Rightarrow> rstring"
  url_host :: "'u \<Rightarrow> rstring option"
  url_username :: "'u \<Rightarrow> rstring"
  url_password :: "'u \<Rightarrow> rstring option"
  url_path :: "'u \<Rightarrow> rstring"
  url_set_path :: "rstring \<Rightarrow> 'u \<Rightarrow> 'u"
  url_join :: "'u \<Rightarrow> rstring \<Rightarrow> 'u option"
  url_set_query :: "rstring option \<Rightarrow> 'u \<Rightarrow> 'u"
  url_text :: "'u \<Rightarrow> rstring"

section \<open>Constants and configurations\<close>

definition REQUEST_READ_TIMEOUT :: duration where
  "REQUEST_READ_TIMEOUT = from_secs 10"

definition PROVIDER_CONNECT_TIMEOUT :: duration where
  "PROVIDER_CONNECT_TIMEOUT = from_secs 10"

definition PROVIDER_REQUEST_TIMEOUT :: duration where
  "PROVIDER_REQUEST_TIMEOUT = from_secs 120"

definition OPENAI_TUNNEL_OPERATION_TIMEOUT :: duration where
  "OPENAI_TUNNEL_OPERATION_TIMEOUT = from_secs 10"

definition DEFAULT_CONNECT_TIMEOUT :: duration where
  "DEFAULT_CONNECT_TIMEOUT = from_secs 10"

definition DEFAULT_RECONNECT_ATTEMPTS :: nat where
  "DEFAULT_RECONNECT_ATTEMPTS = 1"

definition OPENAI_MAX_CONCURRENT_SESSIONS :: nat where
  "OPENAI_MAX_CONCURRENT_SESSIONS = 128"

definition DEFAULT_MAX_CONNECTIONS :: nat where
  "DEFAULT_MAX_CONNECTIONS = 128"

definition DEFAULT_MAX_STREAMS_PER_CONNECTION :: nat where
  "DEFAULT_MAX_STREAMS_PER_CONNECTION = 128"

record ('u, 'k) OpenAiServerConfig =
  os_provider_base_url :: 'u
  os_bind_addr :: SocketAddr
  os_allow_peers :: "'k list"
  os_request_read_timeout :: duration
  os_provider_connect_timeout :: duration
  os_provider_request_timeout :: duration
  os_max_connections :: nat
  os_max_streams_per_connection :: nat
  os_identity_path :: "rstring option"

record OpenAiClientConfig =
  oc_local_request_timeout :: duration
  oc_tunnel_operation_timeout :: duration
  oc_connect_timeout :: duration
  oc_reconnect_attempts :: nat
  oc_health_check_interval :: "duration option"
  oc_max_concurrent_sessions :: nat

definition openai_client_config_default :: OpenAiClientConfig where
  "openai_client_config_default =
    \<lparr>oc_local_request_timeout = REQUEST_READ_TIMEOUT,
     oc_tunnel_operation_timeout = OPENAI_TUNNEL_OPERATION_TIMEOUT,
     oc_connect_timeout = DEFAULT_CONNECT_TIMEOUT,
     oc_reconnect_attempts = DEFAULT_RECONNECT_ATTEMPTS,
     oc_health_check_interval = None,
     oc_max_concurrent_sessions = OPENAI_MAX_CONCURRENT_SESSIONS\<rparr>"

lemmas config_constants =
  REQUEST_READ_TIMEOUT_def PROVIDER_CONNECT_TIMEOUT_def PROVIDER_REQUEST_TIMEOUT_def
  OPENAI_TUNNEL_OPERATION_TIMEOUT_def DEFAULT_CONNECT_TIMEOUT_def DEFAULT_RECONNECT_ATTEMPTS_def
  OPENAI_MAX_CONCURRENT_SESSIONS_def DEFAULT_MAX_CONNECTIONS_def DEFAULT_MAX_STREAMS_PER_CONNECTION_def
  from_secs_def from_millis_def

section \<open>Validation\<close>

text \<open>A guard that bails out with a message.\<close>

definition bail_if :: "bool \<Rightarrow> string \<Rightarrow> anyhow_error + unit" where
  "bail_if b msg = (if b then Inl (Message msg) else Inr ())"

lemma res_then_bail_if [simp]:
  "res_then (bail_if b msg) f = (if b then Inl (Message msg) else f ())"
  by (simp add: bail_if_def)

lemma bail_if_Inr [simp]: "bail_if b msg = Inr u \<longleftrightarrow> \<not> b"
  by (simp add: bail_if_def)

definition validate_provider_url_policy :: "'u url_lib \<Rightarrow> 'u \<Rightarrow> anyhow_error + unit" where
  "validate_provider_url_policy U url =
    res_then
      (if url_scheme U url = ascii ''http'' \<or> url_scheme U url = ascii ''https'' then Inr ()
       else Inl (Message (''provider base URL must use http or https, got '' @ map (\<lambda>b. char_of (unat b)) (url_scheme U url)))) (\<lambda>_.
    res_then (bail_if (url_host U url = None) ''provider base URL must include a host'') (\<lambda>_.
    res_then (bail_if (url_username U url \<noteq> [] \<or> url_password U url \<noteq> None)
      ''provider base URL must not include credentials'') (\<lambda>_.
    Inr ())))"

definition validate_provider_base_url :: "'u url_lib \<Rightarrow> rstring \<Rightarrow> anyhow_error + 'u" where
  "validate_provider_base_url U base_url =
    res_then (ok_or (Message ''parse provider base URL'') (url_parse U base_url)) (\<lambda>url.
    res_then (validate_provider_url_policy U url) (\<lambda>_.
    Inr url))"

definition validate_server_config :: "'u url_lib \<Rightarrow> ('u, 'k) OpenAiServerConfig \<Rightarrow> anyhow_error + unit" where
  "validate_server_config U config =
    res_then (validate_provider_url_policy U (os_provider_base_url config)) (\<lambda>_.
    res_then (bail_if (os_request_read_timeout config = 0) ''request read timeout must be greater than zero'') (\<lambda>_.
    res_then (bail_if (os_provider_connect_timeout config = 0)
      ''provider connect timeout must be greater than zero'') (\<lambda>_.
    res_then (bail_if (os_provider_request_timeout config = 0)
      ''provider request timeout must be greater than zero'') (\<lambda>_.
    res_then (bail_if (os_max_connections config = 0) ''max connections must be greater than zero'') (\<lambda>_.
    res_then (bail_if (os_max_streams_per_connection config = 0)
      ''max streams per connection must be greater than zero'') (\<lambda>_.
    Inr ()))))))"

definition validate_client_config :: "OpenAiClientConfig \<Rightarrow> anyhow_error + unit" where
  "validate_client_config config =
    res_then (bail_if (oc_local_request_timeout config = 0) ''local request timeout must be greater than zero'') (\<lambda>_.
    res_then (bail_if (oc_tunnel_operation_timeout config = 0)
      ''tunnel operation timeout must be greater than zero'') (\<lambda>_.
    res_then (bail_if (oc_connect_timeout config = 0) ''connect timeout must be greater than zero'') (\<lambda>_.
    res_then (bail_if (oc_reconnect_attempts config = 0) ''reconnect attempts must be greater than zero'') (\<lambda>_.
    res_then (bail_if (case oc_health_check_interval config of None \<Rightarrow> False | Some interval \<Rightarrow> interval = 0)
      ''health check interval must be greater than zero'') (\<lambda>_.
    res_then (bail_if (oc_max_concurrent_sessions config = 0)
      ''max concurrent sessions must be greater than zero'') (\<lambda>_.
    Inr ()))))))"

section \<open>Command line arguments\<close>

text \<open>The value parsers; of the error texts the wording of the standard library's parse error is left out.\<close>

definition duration_millis :: "rstring \<Rightarrow> string + duration" where
  "duration_millis arg =
    res_then (ok_or ''invalid millisecond value'' (parse_unsigned u64_max arg)) (\<lambda>millis.
    if millis = 0 then Inl ''must be greater than zero'' else Inr (from_millis millis))"

definition nonzero_usize :: "rstring \<Rightarrow> string + nat" where
  "nonzero_usize arg =
    res_then (ok_or ''invalid integer value'' (parse_unsigned u64_max arg)) (\<lambda>parsed.
    if parsed = 0 then Inl ''must be greater than zero'' else Inr parsed)"

record OpenAiServerArgs =
  sa_provider_base_url :: rstring
  sa_bind_addr :: SocketAddr
  sa_allow_peers :: "rstring list"
  sa_max_connections :: nat
  sa_max_streams_per_connection :: nat
  sa_request_read_timeout_ms :: duration
  sa_provider_connect_timeout_ms :: duration
  sa_provider_request_timeout_ms :: duration
  sa_identity_path :: "rstring option"

record OpenAiClientArgs =
  ca_server_ticket :: rstring
  ca_listen :: SocketAddr
  ca_max_concurrent_sessions :: nat
  ca_local_request_timeout_ms :: duration
  ca_tunnel_operation_timeout_ms :: duration
  ca_connect_timeout_ms :: duration
  ca_reconnect_attempts :: nat
  ca_health_check_interval_ms :: "duration option"
  ca_identity_path :: "rstring option"

text \<open>The configurations \<open>run_server\<close> and \<open>run_client\<close> make of them; parsing the peers is a parameter here.\<close>

definition server_config_of_args ::
  "'u url_lib \<Rightarrow> (rstring list \<Rightarrow> anyhow_error + 'k list) \<Rightarrow> OpenAiServerArgs \<Rightarrow>
    anyhow_error + ('u, 'k) OpenAiServerConfig" where
  "server_config_of_args U parse_peers args =
    res_then (parse_peers (sa_allow_peers args)) (\<lambda>allow_peers.
    res_then (validate_provider_base_url U (sa_provider_base_url args)) (\<lambda>provider_base_url.
    Inr \<lparr>os_provider_base_url = provider_base_url, os_bind_addr = sa_bind_addr args, os_allow_peers = allow_peers,
      os_request_read_timeout = sa_request_read_timeout_ms args,
      os_provider_connect_timeout = sa_provider_connect_timeout_ms args,
      os_provider_request_timeout = sa_provider_request_timeout_ms args,
      os_max_connections = sa_max_connections args,
      os_max_streams_per_connection = sa_max_streams_per_connection args,
      os_identity_path = sa_identity_path args\<rparr>))"

definition client_config_of_args :: "OpenAiClientArgs \<Rightarrow> OpenAiClientConfig" where
  "client_config_of_args args =
    \<lparr>oc_local_request_timeout = ca_local_request_timeout_ms args,
     oc_tunnel_operation_timeout = ca_tunnel_operation_timeout_ms args,
     oc_connect_timeout = ca_connect_timeout_ms args,
     oc_reconnect_attempts = ca_reconnect_attempts args,
     oc_health_check_interval = ca_health_check_interval_ms args,
     oc_max_concurrent_sessions = ca_max_concurrent_sessions args\<rparr>"

section \<open>What is accepted\<close>

definition provider_url_ok :: "'u url_lib \<Rightarrow> 'u \<Rightarrow> bool" where
  "provider_url_ok U url \<longleftrightarrow>
    (url_scheme U url = ascii ''http'' \<or> url_scheme U url = ascii ''https'') \<and> url_host U url \<noteq> None \<and>
    url_username U url = [] \<and> url_password U url = None"

definition server_config_ok :: "'u url_lib \<Rightarrow> ('u, 'k) OpenAiServerConfig \<Rightarrow> bool" where
  "server_config_ok U config \<longleftrightarrow>
    provider_url_ok U (os_provider_base_url config) \<and>
    0 < os_request_read_timeout config \<and> 0 < os_provider_connect_timeout config \<and>
    0 < os_provider_request_timeout config \<and> 0 < os_max_connections config \<and>
    0 < os_max_streams_per_connection config"

definition client_config_ok :: "OpenAiClientConfig \<Rightarrow> bool" where
  "client_config_ok config \<longleftrightarrow>
    0 < oc_local_request_timeout config \<and> 0 < oc_tunnel_operation_timeout config \<and>
    0 < oc_connect_timeout config \<and> 0 < oc_reconnect_attempts config \<and>
    oc_health_check_interval config \<noteq> Some 0 \<and> 0 < oc_max_concurrent_sessions config"

lemma validate_policy_iff: "validate_provider_url_policy U url = Inr () \<longleftrightarrow> provider_url_ok U url"
  by (auto simp: validate_provider_url_policy_def provider_url_ok_def)

lemma validate_base_url_iff:
  "validate_provider_base_url U s = Inr url \<longleftrightarrow> url_parse U s = Some url \<and> provider_url_ok U url"
  by (auto simp: validate_provider_base_url_def res_then_Inr ok_or_Inr validate_policy_iff)

lemma validate_server_iff: "validate_server_config U config = Inr () \<longleftrightarrow> server_config_ok U config"
  by (auto simp: validate_server_config_def server_config_ok_def res_then_Inr validate_policy_iff)

lemma validate_client_iff: "validate_client_config config = Inr () \<longleftrightarrow> client_config_ok config"
  by (auto simp: validate_client_config_def client_config_ok_def res_then_Inr split: option.splits)

lemma duration_millis_iff:
  "duration_millis arg = Inr d \<longleftrightarrow> (\<exists>ms. parse_unsigned u64_max arg = Some ms \<and> 0 < ms \<and> d = from_millis ms)"
  by (auto simp: duration_millis_def res_then_Inr ok_or_Inr)

lemma nonzero_usize_iff: "nonzero_usize arg = Inr n \<longleftrightarrow> parse_unsigned u64_max arg = Some n \<and> 0 < n"
  by (auto simp: nonzero_usize_def res_then_Inr ok_or_Inr)

lemma from_millis_pos [simp]: "0 < from_millis ms \<longleftrightarrow> 0 < ms"
  by (simp add: from_millis_def)

text \<open>The arguments as the parsers deliver them.\<close>

definition parsed_duration :: "duration \<Rightarrow> bool" where
  "parsed_duration d \<longleftrightarrow> (\<exists>arg. duration_millis arg = Inr d)"

definition parsed_count :: "nat \<Rightarrow> bool" where
  "parsed_count n \<longleftrightarrow> (\<exists>arg. nonzero_usize arg = Inr n)"

definition server_args_parsed :: "OpenAiServerArgs \<Rightarrow> bool" where
  "server_args_parsed args \<longleftrightarrow>
    parsed_duration (sa_request_read_timeout_ms args) \<and> parsed_duration (sa_provider_connect_timeout_ms args) \<and>
    parsed_duration (sa_provider_request_timeout_ms args) \<and> parsed_count (sa_max_connections args) \<and>
    parsed_count (sa_max_streams_per_connection args)"

definition client_args_parsed :: "OpenAiClientArgs \<Rightarrow> bool" where
  "client_args_parsed args \<longleftrightarrow>
    parsed_duration (ca_local_request_timeout_ms args) \<and> parsed_duration (ca_tunnel_operation_timeout_ms args) \<and>
    parsed_duration (ca_connect_timeout_ms args) \<and> parsed_count (ca_reconnect_attempts args) \<and>
    (case ca_health_check_interval_ms args of None \<Rightarrow> True | Some d \<Rightarrow> parsed_duration d) \<and>
    parsed_count (ca_max_concurrent_sessions args)"

lemma parsed_pos: "parsed_duration d \<Longrightarrow> 0 < d" "parsed_count n \<Longrightarrow> 0 < n"
  by (auto simp: parsed_duration_def parsed_count_def duration_millis_iff nonzero_usize_iff)

lemma parsed_ten_seconds: "parsed_duration (from_secs 10)"
  unfolding parsed_duration_def duration_millis_iff
  by (intro exI [of _ "show_dec 10000"] exI [of _ 10000])
    (simp add: parse_unsigned_show_dec u64_max_def from_secs_def from_millis_def)

lemma parsed_count_show: "\<lbrakk> 0 < n; n \<le> u64_max \<rbrakk> \<Longrightarrow> parsed_count n"
  unfolding parsed_count_def nonzero_usize_iff by (intro exI [of _ "show_dec n"]) (simp add: parse_unsigned_show_dec)

section \<open>The theorems\<close>

text \<open>What the validators accept. A server configuration is accepted exactly if its provider URL is an
  http or https URL with a host and without credentials, and all timeouts and limits are positive; a
  client configuration exactly if its timeouts and limits are positive. The default client configuration
  is accepted.\<close>

theorem validation_exact:
  "(validate_server_config U config = Inr () \<longleftrightarrow> server_config_ok U config) \<and>
   (validate_provider_base_url U text = Inr url \<longleftrightarrow> url_parse U text = Some url \<and> provider_url_ok U url) \<and>
   (validate_client_config client = Inr () \<longleftrightarrow> client_config_ok client) \<and>
   validate_client_config openai_client_config_default = Inr ()"
  by (simp add: validate_server_iff validate_base_url_iff validate_client_iff client_config_ok_def
      openai_client_config_default_def config_constants)

text \<open>C36: the command line cannot produce an invalid configuration. Arguments that the value parsers
  accepted make a client configuration that passes validation, and a server configuration that passes it
  whenever it can be built at all.\<close>

theorem parsed_arguments_valid:
  assumes "client_args_parsed client_args" and "server_args_parsed server_args"
    and "server_config_of_args U parse_peers server_args = Inr config"
  shows "validate_client_config (client_config_of_args client_args) = Inr () \<and> validate_server_config U config = Inr ()"
proof
  show "validate_client_config (client_config_of_args client_args) = Inr ()"
    unfolding validate_client_iff
    using assms(1)
    by (auto simp: client_config_ok_def client_config_of_args_def client_args_parsed_def
        intro: parsed_pos dest: parsed_pos(1) split: option.splits)
  show "validate_server_config U config = Inr ()"
    unfolding validate_server_iff
    using assms(2,3)
    by (auto simp: server_config_ok_def server_config_of_args_def server_args_parsed_def res_then_Inr
        validate_base_url_iff intro: parsed_pos)
qed

definition example_urls :: "rstring url_lib" where
  "example_urls =
    \<lparr>url_parse = Some, url_scheme = (\<lambda>_. ascii ''http''), url_host = (\<lambda>_. Some (ascii ''localhost'')),
     url_username = (\<lambda>_. []), url_password = (\<lambda>_. None), url_path = (\<lambda>u. u),
     url_set_path = (\<lambda>p u. p), url_join = (\<lambda>u r. Some (u @ r)),
     url_set_query = (\<lambda>q u. case q of None \<Rightarrow> u | Some s \<Rightarrow> u @ ascii ''?'' @ s), url_text = (\<lambda>u. u)\<rparr>"

text \<open>Arguments as the parsers deliver them: the numbers and the durations of the command line's defaults.\<close>

definition example_client_args :: OpenAiClientArgs where
  "example_client_args =
    \<lparr>ca_server_ticket = [], ca_listen = SocketAddr (V4 (Ipv4 127 0 0 1)) 8080,
     ca_max_concurrent_sessions = 128, ca_local_request_timeout_ms = from_secs 10,
     ca_tunnel_operation_timeout_ms = from_secs 10, ca_connect_timeout_ms = from_secs 10,
     ca_reconnect_attempts = 1, ca_health_check_interval_ms = Some (from_secs 10), ca_identity_path = None\<rparr>"

definition example_server_args :: OpenAiServerArgs where
  "example_server_args =
    \<lparr>sa_provider_base_url = ascii ''http://localhost'', sa_bind_addr = SocketAddr (V4 (Ipv4 0 0 0 0)) 0,
     sa_allow_peers = [], sa_max_connections = 128, sa_max_streams_per_connection = 64,
     sa_request_read_timeout_ms = from_secs 10, sa_provider_connect_timeout_ms = from_secs 10,
     sa_provider_request_timeout_ms = from_secs 10, sa_identity_path = None\<rparr>"

theorem parsed_arguments_valid_witness:
  "client_args_parsed example_client_args \<and> server_args_parsed example_server_args \<and>
    (\<exists>config :: (rstring, nat) OpenAiServerConfig.
      server_config_of_args example_urls (\<lambda>_. Inr []) example_server_args = Inr config \<and>
      os_max_connections config = 128 \<and> os_max_streams_per_connection config = 64 \<and>
      validate_client_config (client_config_of_args example_client_args) = Inr () \<and>
      validate_server_config example_urls config = Inr ())"
proof -
  have parsed: "client_args_parsed example_client_args" "server_args_parsed example_server_args"
    by (simp_all add: client_args_parsed_def server_args_parsed_def example_client_args_def example_server_args_def
        parsed_ten_seconds parsed_count_show u64_max_def)
  obtain config :: "(rstring, nat) OpenAiServerConfig" where
    config: "server_config_of_args example_urls (\<lambda>_. Inr []) example_server_args = Inr config"
      "os_max_connections config = 128" "os_max_streams_per_connection config = 64"
    by (simp add: server_config_of_args_def validate_provider_base_url_def validate_provider_url_policy_def
        example_urls_def example_server_args_def)
  from parsed config parsed_arguments_valid [OF parsed config(1)] show ?thesis
    by blast
qed

end
