(* ===== verification/ProviderUrl.thy ===== *)
theory ProviderUrl
  imports OpenAiConfig
begin

text \<open>
  The provider's URL of a forwarded request, \<open>src/openai/url.rs\<close>: the target's path is checked segment
  by segment after percent-decoding, a path prefix that the base URL has already is dropped, and the rest is
  joined to the base URL. Joining is the URL library's.
\<close>

section \<open>Operations\<close>

text \<open>The characters \<open>/\<close>, \<open>?\<close>, \<open>%\<close> and the backslash.\<close>

abbreviation slash :: u8 where
  "slash \<equiv> 0x2F"

abbreviation question :: u8 where
  "question \<equiv> 0x3F"

abbreviation percent :: u8 where
  "percent \<equiv> 0x25"

abbreviation backslash :: u8 where
  "backslash \<equiv> 0x5C"

definition trim_start_matches :: "u8 \<Rightarrow> rstring \<Rightarrow> rstring" where
  "trim_start_matches c s = dropWhile (\<lambda>b. b = c) s"

definition trim_end_matches :: "u8 \<Rightarrow> rstring \<Rightarrow> rstring" where
  "trim_end_matches c s = rev (dropWhile (\<lambda>b. b = c) (rev s))"

text \<open>\<open>split_once\<close>: the parts before and after the first occurrence.\<close>

fun split_once :: "u8 \<Rightarrow> rstring \<Rightarrow> (rstring \<times> rstring) option" where
  "split_once c [] = None"
| "split_once c (b # bs) = (if b = c then Some ([], bs) else map_option (\<lambda>(p, q). (b # p, q)) (split_once c bs))"

abbreviation invalid_percent :: anyhow_error where
  "invalid_percent \<equiv> Message ''request target contains invalid percent encoding''"

definition percent_digit :: "u8 \<Rightarrow> anyhow_error + u8" where
  "percent_digit byte =
    (if chr8 CHR ''0'' \<le> byte \<and> byte \<le> chr8 CHR ''9'' then Inr (byte - chr8 CHR ''0'')
     else if chr8 CHR ''a'' \<le> byte \<and> byte \<le> chr8 CHR ''f'' then Inr (byte - chr8 CHR ''a'' + 10)
     else if chr8 CHR ''A'' \<le> byte \<and> byte \<le> chr8 CHR ''F'' then Inr (byte - chr8 CHR ''A'' + 10)
     else Inl invalid_percent)"

function percent_decode_loop :: "u8 list \<Rightarrow> nat \<Rightarrow> u8 list \<Rightarrow> anyhow_error + u8 list" where
  "percent_decode_loop bytes index decoded =
    (if index < length bytes then
       if bytes ! index = percent then
         if index + 2 \<ge> length bytes then Inl invalid_percent
         else
           res_then (percent_digit (bytes ! (index + 1))) (\<lambda>high.
           res_then (percent_digit (bytes ! (index + 2))) (\<lambda>low.
           percent_decode_loop bytes (index + 3) (decoded @ [join_nibbles high low])))
       else percent_decode_loop bytes (index + 1) (decoded @ [bytes ! index])
     else Inr decoded)"
  by pat_completeness auto
termination
  by (relation "measure (\<lambda>(bytes, index, decoded). length bytes - index)") auto

declare percent_decode_loop.simps [simp del]

definition percent_decode_path_segment :: "rstring \<Rightarrow> anyhow_error + u8 list" where
  "percent_decode_path_segment segment = percent_decode_loop segment 0 []"

fun reject_segments :: "rstring list \<Rightarrow> anyhow_error + unit" where
  "reject_segments [] = Inr ()"
| "reject_segments (segment # segments) =
    res_then (percent_decode_path_segment segment) (\<lambda>decoded.
    res_then (bail_if (decoded = ascii ''.'' \<or> decoded = ascii ''..'') ''request target contains unsafe dot segment'') (\<lambda>_.
    res_then (bail_if (list_ex (\<lambda>byte. byte = slash \<or> byte = backslash) decoded)
      ''request target contains encoded path separator'') (\<lambda>_.
    reject_segments segments)))"

definition reject_unsafe_request_path :: "rstring \<Rightarrow> anyhow_error + unit" where
  "reject_unsafe_request_path path = reject_segments (split_on slash path)"

definition provider_request_url_from_base :: "'u url_lib \<Rightarrow> 'u \<Rightarrow> rstring \<Rightarrow> anyhow_error + 'u" where
  "provider_request_url_from_base U base_url request_target =
    res_then (bail_if (\<not> starts_with request_target [slash] \<or> starts_with request_target [slash, slash])
      ''OpenAI proxy requires origin-form request targets starting with /'') (\<lambda>_.
    let base_path = trim_start_matches slash (trim_end_matches slash (url_path U base_url));
        base = (if \<not> ends_with (url_path U base_url) [slash]
                then url_set_path U (url_path U base_url @ [slash]) base_url else base_url);
        (path, query) = (case split_once question request_target of
            None \<Rightarrow> (request_target, None) | Some (path, query) \<Rightarrow> (path, Some query))
    in res_then (reject_unsafe_request_path path) (\<lambda>_.
       let relative_path = trim_start_matches slash path;
           relative_path =
             (if base_path \<noteq> [] \<and> (relative_path = base_path \<or> starts_with relative_path (base_path @ [slash]))
              then trim_start_matches slash (drop (length base_path) relative_path) else relative_path)
       in res_then (ok_or (Message ''join provider request path'') (url_join U base relative_path)) (\<lambda>url.
          Inr (url_set_query U query url))))"

definition provider_request_url :: "'u url_lib \<Rightarrow> rstring \<Rightarrow> rstring \<Rightarrow> anyhow_error + 'u" where
  "provider_request_url U base_url request_target =
    res_then (validate_provider_base_url U base_url) (\<lambda>base.
    provider_request_url_from_base U base request_target)"

section \<open>Percent-decoding\<close>

text \<open>The reference: a segment is a sequence of plain bytes and escapes, decoded one after the other.\<close>

definition hex_digit_value :: "u8 \<Rightarrow> u8 option" where
  "hex_digit_value b =
    (if b \<in> set (ascii ''0123456789'') then Some (b - 0x30)
     else if b \<in> set (ascii ''abcdef'') then Some (b - 0x57)
     else if b \<in> set (ascii ''ABCDEF'') then Some (b - 0x37) else None)"

fun decode_segment :: "rstring \<Rightarrow> u8 list option" where
  "decode_segment [] = Some []"
| "decode_segment (b # bs) =
    (if b \<noteq> percent then map_option (Cons b) (decode_segment bs)
     else (case bs of
         h # l # rest \<Rightarrow>
           (case (hex_digit_value h, hex_digit_value l) of
              (Some high, Some low) \<Rightarrow> map_option (Cons (join_nibbles high low)) (decode_segment rest)
            | _ \<Rightarrow> None)
       | _ \<Rightarrow> None))"

lemma hex_ranges:
  "b \<in> set (ascii ''0123456789'') \<longleftrightarrow> 0x30 \<le> b \<and> b \<le> 0x39"
  "b \<in> set (ascii ''abcdef'') \<longleftrightarrow> 0x61 \<le> b \<and> b \<le> 0x66"
  "b \<in> set (ascii ''ABCDEF'') \<longleftrightarrow> 0x41 \<le> b \<and> b \<le> 0x46"
  by (simp_all add: word_le_nat_alt word_unat_eq_iff) arith+

lemma percent_digit_reference:
  "percent_digit b = (case hex_digit_value b of None \<Rightarrow> Inl invalid_percent | Some v \<Rightarrow> Inr v)"
  unfolding percent_digit_def hex_digit_value_def hex_ranges by simp

lemma percent_decode_reference:
  "percent_decode_loop (before @ segment) (length before) decoded =
    (case decode_segment segment of None \<Rightarrow> Inl invalid_percent | Some bs \<Rightarrow> Inr (decoded @ bs))"
proof (induction segment arbitrary: before decoded rule: decode_segment.induct)
  case 1
  then show ?case
    by (subst percent_decode_loop.simps) simp
next
  case (2 b bs)
  show ?case
  proof (cases "b = percent")
    case False
    have "percent_decode_loop (before @ b # bs) (length before) decoded =
        percent_decode_loop ((before @ [b]) @ bs) (length (before @ [b])) (decoded @ [b])"
      using False by (subst percent_decode_loop.simps) simp
    then show ?thesis
      unfolding 2(1) [OF False] using False by (simp split: option.split)
  next
    case True
    consider "length bs < 2" | h l rest where "bs = h # l # rest"
      by (cases bs; cases "tl bs") auto
    then show ?thesis
    proof cases
      case 1
      then have "decode_segment (b # bs) = None"
        using True by (cases bs; cases "tl bs") auto
      with 1 True show ?thesis
        by (subst percent_decode_loop.simps) simp
    next
      case 2
      note IH = "2.IH"(2) [where before = "before @ [b, h, l]"]
      have "percent_decode_loop (before @ b # bs) (length before) decoded =
          res_then (percent_digit h) (\<lambda>high.
          res_then (percent_digit l) (\<lambda>low.
          percent_decode_loop ((before @ [b, h, l]) @ rest) (length (before @ [b, h, l])) (decoded @ [join_nibbles high low])))"
        using True 2 by (subst percent_decode_loop.simps) (simp add: nth_append eval_nat_numeral)
      with IH True 2 show ?thesis
        by (auto simp: percent_digit_reference split: option.split)
    qed
  qed
qed

lemma percent_decode_segment:
  "percent_decode_path_segment segment =
    (case decode_segment segment of None \<Rightarrow> Inl invalid_percent | Some bs \<Rightarrow> Inr bs)"
  using percent_decode_reference [of "[]" segment "[]"]
  by (simp add: percent_decode_path_segment_def split: option.split)

section \<open>What a safe path is\<close>

definition safe_segment :: "rstring \<Rightarrow> bool" where
  "safe_segment segment \<longleftrightarrow>
    (case decode_segment segment of
       None \<Rightarrow> False
     | Some decoded \<Rightarrow>
         decoded \<noteq> ascii ''.'' \<and> decoded \<noteq> ascii ''..'' \<and> slash \<notin> set decoded \<and> backslash \<notin> set decoded)"

lemma reject_segments_iff: "reject_segments segments = Inr () \<longleftrightarrow> list_all safe_segment segments"
  by (induction segments)
    (auto simp: res_then_Inr percent_decode_segment safe_segment_def list_ex_iff split: option.splits)

lemma reject_path_iff: "reject_unsafe_request_path path = Inr () \<longleftrightarrow> list_all safe_segment (split_on slash path)"
  by (simp add: reject_unsafe_request_path_def reject_segments_iff)

text \<open>The pieces of a forwarded target.\<close>

definition origin_form :: "rstring \<Rightarrow> bool" where
  "origin_form target \<longleftrightarrow> starts_with target [slash] \<and> \<not> starts_with target [slash, slash]"

definition target_path :: "rstring \<Rightarrow> rstring" where
  "target_path target = takeWhile (\<lambda>b. b \<noteq> question) target"

definition target_query :: "rstring \<Rightarrow> rstring option" where
  "target_query target =
    (if question \<in> set target then Some (tl (dropWhile (\<lambda>b. b \<noteq> question) target)) else None)"

definition base_prefix :: "'u url_lib \<Rightarrow> 'u \<Rightarrow> rstring" where
  "base_prefix U base = trim_start_matches slash (trim_end_matches slash (url_path U base))"

definition base_directory :: "'u url_lib \<Rightarrow> 'u \<Rightarrow> 'u" where
  "base_directory U base =
    (if ends_with (url_path U base) [slash] then base else url_set_path U (url_path U base @ [slash]) base)"

definition below_base :: "rstring \<Rightarrow> rstring \<Rightarrow> rstring" where
  "below_base prefix relative =
    (if prefix \<noteq> [] \<and> (relative = prefix \<or> starts_with relative (prefix @ [slash]))
     then trim_start_matches slash (drop (length prefix) relative) else relative)"

lemma split_once_iff:
  "split_once c s = (if c \<in> set s then Some (takeWhile (\<lambda>b. b \<noteq> c) s, tl (dropWhile (\<lambda>b. b \<noteq> c) s)) else None)"
  by (induction s) auto

lemma target_split:
  "(case split_once question target of None \<Rightarrow> (target, None) | Some (path, query) \<Rightarrow> (path, Some query)) =
    (target_path target, target_query target)"
proof (cases "question \<in> set target")
  case False
  then have "target_path target = target"
    by (auto simp: takeWhile_eq_all_conv target_path_def)
  moreover have "target_query target = None" "split_once question target = None"
    using False by (simp_all add: split_once_iff target_query_def)
  ultimately show ?thesis
    by (simp only: option.case)
qed (simp add: split_once_iff target_path_def target_query_def)

lemma provider_request_url_eq:
  "provider_request_url_from_base U base target =
    res_then (bail_if (\<not> origin_form target)
      ''OpenAI proxy requires origin-form request targets starting with /'') (\<lambda>_.
    res_then (reject_unsafe_request_path (target_path target)) (\<lambda>_.
    res_then (ok_or (Message ''join provider request path'')
      (url_join U (base_directory U base)
        (below_base (base_prefix U base) (trim_start_matches slash (target_path target))))) (\<lambda>url.
    Inr (url_set_query U (target_query target) url))))"
  unfolding provider_request_url_from_base_def target_split
  by (simp add: Let_def origin_form_def base_directory_def base_prefix_def below_base_def)

lemma provider_request_url_iff:
  "provider_request_url_from_base U base target = Inr url \<longleftrightarrow>
    origin_form target \<and> list_all safe_segment (split_on slash (target_path target)) \<and>
    (\<exists>joined. url_join U (base_directory U base)
        (below_base (base_prefix U base) (trim_start_matches slash (target_path target))) = Some joined \<and>
      url = url_set_query U (target_query target) joined)"
  by (auto simp: provider_request_url_eq res_then_Inr ok_or_Inr reject_path_iff)

text \<open>Whatever is dropped, what is joined is the end of the path, and does not begin with a slash.\<close>

lemma below_base_suffix:
  "\<exists>dropped. path = dropped @ below_base prefix (trim_start_matches slash path)"
proof -
  have trim: "\<exists>d. s = d @ trim_start_matches slash s" for s
    unfolding trim_start_matches_def by (metis takeWhile_dropWhile_id)
  obtain d1 where d1: "path = d1 @ trim_start_matches slash path"
    using trim by blast
  show ?thesis
  proof (cases "prefix \<noteq> [] \<and> (trim_start_matches slash path = prefix \<or> starts_with (trim_start_matches slash path) (prefix @ [slash]))")
    case True
    then have "trim_start_matches slash path = prefix @ drop (length prefix) (trim_start_matches slash path)"
      by (auto simp: starts_with_iff)
    with d1 trim [of "drop (length prefix) (trim_start_matches slash path)"] True show ?thesis
      by (metis append_assoc below_base_def)
  next
    case False
    then have "below_base prefix (trim_start_matches slash path) = trim_start_matches slash path"
      unfolding below_base_def by (rule if_not_P)
    with d1 show ?thesis
      by auto
  qed
qed

lemma trim_start_no_slash: "\<not> starts_with (trim_start_matches slash s) [slash]"
  unfolding trim_start_matches_def by (induction s) auto

lemma below_base_no_slash: "\<not> starts_with (below_base prefix (trim_start_matches slash path)) [slash]"
  unfolding below_base_def using trim_start_no_slash by auto

lemma split_on_append: "split_on d (p @ d # r) = split_on d p @ split_on d r"
proof (induction p)
  case (Cons b p)
  then show ?case
    by (cases "split_on d p") (auto split: list.split)
qed simp

lemma split_on_head: "split_on d (d # r) = [] # split_on d r"
  by simp

lemma safe_empty [simp]: "safe_segment []"
  by (simp add: safe_segment_def)

lemma target_parts_append:
  "question \<notin> set p \<Longrightarrow> target_path (p @ r) = p @ target_path r"
  "question \<notin> set p \<Longrightarrow> target_query (p @ r) = target_query r"
proof -
  assume p: "question \<notin> set p"
  then have all: "\<forall>b \<in> set p. b \<noteq> question"
    by blast
  show "target_path (p @ r) = p @ target_path r"
    unfolding target_path_def by (rule takeWhile_append2) (use all in blast)
  have "dropWhile (\<lambda>b. b \<noteq> question) (p @ r) = dropWhile (\<lambda>b. b \<noteq> question) r"
    by (rule dropWhile_append2) (use all in blast)
  with p show "target_query (p @ r) = target_query r"
    by (simp add: target_query_def)
qed

lemma trim_start_unslashed: "\<not> starts_with s [slash] \<Longrightarrow> trim_start_matches slash s = s"
  by (cases s) (simp_all add: trim_start_matches_def)

lemma target_path_head: "starts_with (target_path s) [slash] = starts_with s [slash]"
  by (cases s) (simp_all add: target_path_def)

lemma trim_start_slash: "trim_start_matches slash (slash # s) = trim_start_matches slash s"
  by (simp add: trim_start_matches_def)

lemma base_prefix_no_slash: "\<not> starts_with (base_prefix U base) [slash]"
  unfolding base_prefix_def by (rule trim_start_no_slash)

section \<open>The theorems\<close>

text \<open>C28: which targets are forwarded, and where to. A target is forwarded exactly if it is in origin form, no
  segment of its path decodes to a dot segment or to something with a slash or a backslash, and the join
  succeeds; what is joined to the base URL's directory is the end of its path, without the part that repeats
  the base's own path and without a leading slash, and its query is passed on. Decoding is compared with a
  reference that reads plain bytes and escapes one after the other.\<close>

theorem forwarded_url:
  "(provider_request_url_from_base U base target = Inr url \<longleftrightarrow>
    origin_form target \<and> list_all safe_segment (split_on slash (target_path target)) \<and>
    (\<exists>joined. url_join U (base_directory U base)
        (below_base (base_prefix U base) (trim_start_matches slash (target_path target))) = Some joined \<and>
      url = url_set_query U (target_query target) joined)) \<and>
   (\<exists>dropped. target_path target =
      dropped @ below_base (base_prefix U base) (trim_start_matches slash (target_path target))) \<and>
   \<not> starts_with (below_base (base_prefix U base) (trim_start_matches slash (target_path target))) [slash]"
  unfolding provider_request_url_iff using below_base_suffix below_base_no_slash by blast

text \<open>A base path is not doubled. A target that repeats the base URL's path is forwarded to the same
  URL as the target without it.\<close>

theorem base_path_not_doubled:
  assumes "base_prefix U base = prefix" and "prefix \<noteq> []" and "question \<notin> set prefix"
    and "list_all safe_segment (split_on slash prefix)"
    and "\<not> starts_with rest [slash]" and "target_path rest \<noteq> prefix" and "\<not> starts_with (target_path rest) (prefix @ [slash])"
  shows "provider_request_url_from_base U base (slash # prefix @ slash # rest) =
    provider_request_url_from_base U base (slash # rest)"
proof -
  have prefix: "\<not> starts_with prefix [slash]"
    using base_prefix_no_slash [of U base] assms(1) by simp
  then have origin: "origin_form (slash # prefix @ slash # rest)" "origin_form (slash # rest)"
    using assms(2,5) by (cases prefix; cases rest; simp add: origin_form_def)+
  have paths: "target_path (slash # prefix @ slash # rest) = slash # prefix @ slash # target_path rest"
    "target_path (slash # rest) = slash # target_path rest"
    "target_query (slash # prefix @ slash # rest) = target_query rest" "target_query (slash # rest) = target_query rest"
    using target_parts_append [of "slash # prefix @ [slash]" rest] target_parts_append [of "[slash]" rest] assms(3)
    by simp_all
  have rest: "trim_start_matches slash (target_path rest) = target_path rest"
    by (rule trim_start_unslashed) (simp only: target_path_head assms(5) not_False_eq_True)
  have "trim_start_matches slash (prefix @ slash # target_path rest) = prefix @ slash # target_path rest"
    by (rule trim_start_unslashed) (use prefix assms(2) in \<open>cases prefix; simp\<close>)
  then have "below_base prefix (trim_start_matches slash (target_path (slash # prefix @ slash # rest))) = target_path rest"
    using assms(2) rest by (simp add: paths trim_start_slash below_base_def starts_with_iff)
  moreover have "below_base prefix (trim_start_matches slash (target_path (slash # rest))) = target_path rest"
    using assms(6,7) rest by (simp add: paths trim_start_slash below_base_def)
  moreover have "reject_unsafe_request_path (target_path (slash # prefix @ slash # rest)) =
      reject_unsafe_request_path (target_path (slash # rest))"
  proof -
    have "reject_segments (segments @ more) = reject_segments more" if "list_all safe_segment segments" for segments more
      using that by (induction segments)
        (auto simp: percent_decode_segment safe_segment_def list_ex_iff split: option.splits)
    with assms(4) show ?thesis
      by (simp only: reject_unsafe_request_path_def paths split_on_head split_on_append)
        (simp add: percent_decode_segment)
  qed
  ultimately show ?thesis
    by (simp add: provider_request_url_eq origin paths(3,4) assms(1))
qed

definition example_base :: rstring where
  "example_base = ascii ''/v1''"

lemmas url_eval =
  base_prefix_def example_urls_def example_base_def trim_start_matches_def trim_end_matches_def target_path_def
  safe_segment_def starts_with.simps

theorem base_path_not_doubled_witness:
  "provider_request_url_from_base example_urls example_base (ascii ''/v1/models'') =
    provider_request_url_from_base example_urls example_base (ascii ''/models'')"
  using base_path_not_doubled [of example_urls example_base "ascii ''v1''" "ascii ''models''"]
  by (simp add: url_eval)

section \<open>Absolute URLs in the path\<close>

text \<open>An absolute URL: a scheme, a colon and two slashes.\<close>

abbreviation colon :: u8 where
  "colon \<equiv> 0x3A"

definition is_scheme :: "rstring \<Rightarrow> bool" where
  "is_scheme scheme \<longleftrightarrow>
    list_all (\<lambda>b. b \<in> set (ascii ''abcdefghijklmnopqrstuvwxyzABCDEFGHIJKLMNOPQRSTUVWXYZ0123456789+-.'')) scheme \<and>
    (case scheme of [] \<Rightarrow> False
     | b # _ \<Rightarrow> b \<in> set (ascii ''abcdefghijklmnopqrstuvwxyzABCDEFGHIJKLMNOPQRSTUVWXYZ''))"

definition absolute_url :: "rstring \<Rightarrow> bool" where
  "absolute_url u \<longleftrightarrow>
    (case split_once colon u of
       None \<Rightarrow> False
     | Some (scheme, rest) \<Rightarrow> is_scheme scheme \<and> starts_with rest [slash, slash])"

text \<open>What the URL library documents: an absolute URL is joined to any base as it is, and the query does not
  touch the host.\<close>

definition joins_absolute_urls :: "'u url_lib \<Rightarrow> bool" where
  "joins_absolute_urls U \<longleftrightarrow> (\<forall>base u. absolute_url u \<longrightarrow> url_join U base u = url_parse U u)"

definition query_keeps_host :: "'u url_lib \<Rightarrow> bool" where
  "query_keeps_host U \<longleftrightarrow> (\<forall>query u. url_host U (url_set_query U query u) = url_host U u)"

lemma scheme_chars:
  assumes "is_scheme scheme"
  shows "scheme \<noteq> []" and "colon \<notin> set scheme" and "slash \<notin> set scheme" and "question \<notin> set scheme"
  using assms by (auto simp: is_scheme_def list_all_iff)

lemma absolute_urlE:
  assumes "absolute_url u"
  obtains scheme rest where "u = scheme @ colon # slash # slash # rest" "is_scheme scheme"
proof -
  obtain scheme rest where split: "split_once colon u = Some (scheme, rest)"
    and ok: "is_scheme scheme" "starts_with rest [slash, slash]"
    using assms by (auto simp: absolute_url_def split: option.splits)
  from split have "colon \<in> set u" "scheme = takeWhile (\<lambda>b. b \<noteq> colon) u" "rest = tl (dropWhile (\<lambda>b. b \<noteq> colon) u)"
    by (simp_all add: split_once_iff split: if_splits)
  then have "u = scheme @ colon # rest"
    by (induction u arbitrary: scheme) (auto split: if_splits)
  with ok that show ?thesis
    by (auto simp: starts_with_iff)
qed

lemma absolute_target_parts:
  assumes "absolute_url u"
  shows "origin_form (slash # u)" and "target_path (slash # u) = slash # target_path u"
    and "target_query (slash # u) = target_query u" and "absolute_url (target_path u)"
    and "trim_start_matches slash (slash # target_path u) = target_path u"
proof -
  from assms obtain scheme rest where u: "u = scheme @ colon # slash # slash # rest" and scheme: "is_scheme scheme"
    by (rule absolute_urlE)
  note chars = scheme_chars [OF scheme]
  have path: "target_path u = scheme @ colon # slash # slash # target_path rest"
    using target_parts_append(1) [of "scheme @ [colon, slash, slash]" rest] chars(4) by (simp add: u)
  have "split_once colon (scheme @ colon # r) = Some (scheme, r)" for r
    using chars(2) by (induction scheme) auto
  then show "absolute_url (target_path u)"
    by (simp add: path absolute_url_def scheme)
  from chars(1,3) obtain b bs where b: "scheme = b # bs" "b \<noteq> slash"
    by (cases scheme) auto
  then show "origin_form (slash # u)"
    by (simp add: u origin_form_def)
  show "trim_start_matches slash (slash # target_path u) = target_path u"
    unfolding trim_start_slash by (rule trim_start_unslashed) (simp add: path b)
  show "target_path (slash # u) = slash # target_path u" "target_query (slash # u) = target_query u"
    using target_parts_append [of "[slash]" u] by simp_all
qed

lemma absolute_not_below:
  assumes "absolute_url u" and "colon \<notin> set prefix"
  shows "below_base prefix u = u"
proof -
  from assms(1) obtain scheme rest where u: "u = scheme @ colon # slash # slash # rest" and scheme: "is_scheme scheme"
    by (rule absolute_urlE)
  have "\<not> starts_with u (prefix @ [slash])"
  proof
    assume "starts_with u (prefix @ [slash])"
    then obtain tail where "scheme @ colon # slash # slash # rest = prefix @ slash # tail"
      by (auto simp: starts_with_iff u)
    with assms(2) scheme_chars(3) [OF scheme] show False
      by (auto simp: append_eq_append_conv2 append_eq_Cons_conv Cons_eq_append_conv)
  qed
  moreover have "u \<noteq> prefix"
    using assms(2) u by auto
  ultimately show ?thesis
    by (simp add: below_base_def)
qed

lemma base_prefix_chars: "set (base_prefix U base) \<subseteq> set (url_path U base)"
  unfolding base_prefix_def trim_start_matches_def trim_end_matches_def
  by (metis set_dropWhileD set_rev subsetI)

text \<open>C39: an absolute URL in the path leaves the base. Take any absolute URL whose path segments are safe, as
  the target after a slash. It is forwarded to that very URL, whatever the base URL is (its path has no colon), and so
  to the URL's own host, when the library joins absolute URLs as the URL standard says.\<close>

theorem absolute_target_joined:
  assumes "absolute_url u" and "list_all safe_segment (split_on slash (target_path u))"
    and "colon \<notin> set (url_path U base)"
    and "joins_absolute_urls U" and "query_keeps_host U"
  shows "provider_request_url_from_base U base (slash # u) =
      (case url_parse U (target_path u) of
         None \<Rightarrow> Inl (Message ''join provider request path'')
       | Some parsed \<Rightarrow> Inr (url_set_query U (target_query u) parsed)) \<and>
    (\<forall>url. provider_request_url_from_base U base (slash # u) = Inr url \<longrightarrow>
      (\<exists>parsed. url_parse U (target_path u) = Some parsed \<and> url_host U url = url_host U parsed))"
proof -
  note parts = absolute_target_parts [OF assms(1)]
  have "colon \<notin> set (base_prefix U base)"
    using assms(3) base_prefix_chars [of U base] by blast
  then have below: "below_base (base_prefix U base) (target_path u) = target_path u"
    by (rule absolute_not_below [OF parts(4)])
  have safe: "reject_unsafe_request_path (slash # target_path u) = Inr ()"
    unfolding reject_path_iff split_on_head by (simp add: assms(2))
  have join: "url_join U (base_directory U base) (target_path u) = url_parse U (target_path u)"
    using assms(4) parts(4) by (simp add: joins_absolute_urls_def)
  have result: "provider_request_url_from_base U base (slash # u) =
      (case url_parse U (target_path u) of
         None \<Rightarrow> Inl (Message ''join provider request path'')
       | Some parsed \<Rightarrow> Inr (url_set_query U (target_query u) parsed))"
    by (simp add: provider_request_url_eq parts(1-3,5) safe below join ok_or_def split: option.split)
  moreover have "url_host U (url_set_query U q parsed) = url_host U parsed" for q parsed
    using assms(5) by (simp add: query_keeps_host_def)
  ultimately show ?thesis
    by (auto split: option.splits)
qed

text \<open>An instance that resolves references: a URL is its scheme, its host and its path.\<close>

definition parse_absolute :: "rstring \<Rightarrow> (rstring \<times> rstring \<times> rstring) option" where
  "parse_absolute u =
    (if absolute_url u then
       (case split_once colon u of
          None \<Rightarrow> None
        | Some (scheme, rest) \<Rightarrow>
            let rest = drop 2 rest
            in Some (scheme, takeWhile (\<lambda>b. b \<noteq> slash) rest, dropWhile (\<lambda>b. b \<noteq> slash) rest))
     else None)"

definition resolving_urls :: "(rstring \<times> rstring \<times> rstring) url_lib" where
  "resolving_urls =
    \<lparr>url_parse = parse_absolute, url_scheme = (\<lambda>(scheme, _, _). scheme), url_host = (\<lambda>(_, host, _). Some host),
     url_username = (\<lambda>_. []), url_password = (\<lambda>_. None), url_path = (\<lambda>(_, _, path). path),
     url_set_path = (\<lambda>path (scheme, host, _). (scheme, host, path)),
     url_join = (\<lambda>(scheme, host, path) r. if absolute_url r then parse_absolute r else Some (scheme, host, path @ r)),
     url_set_query = (\<lambda>query (scheme, host, path). (scheme, host, case query of None \<Rightarrow> path | Some s \<Rightarrow> path @ question # s)),
     url_text = (\<lambda>(scheme, host, path). scheme @ ascii ''://'' @ host @ path)\<rparr>"

definition local_base :: "rstring \<times> rstring \<times> rstring" where
  "local_base = (ascii ''http'', ascii ''localhost'', ascii ''/v1'')"

text \<open>The base is on \<open>localhost\<close>; a plain target stays there, an absolute URL in the path does not.\<close>

theorem absolute_target_joined_witness:
  "url_parse resolving_urls (ascii ''http://localhost/v1'') = Some local_base \<and>
    provider_request_url_from_base resolving_urls local_base (ascii ''/models'') =
      Inr (ascii ''http'', ascii ''localhost'', ascii ''/v1/models'') \<and>
    provider_request_url_from_base resolving_urls local_base (slash # ascii ''http://evil.test/models?k=1'') =
      Inr (ascii ''http'', ascii ''evil.test'', ascii ''/models?k=1'') \<and>
    url_host resolving_urls local_base \<noteq> Some (ascii ''evil.test'')"
proof -
  let ?u = "ascii ''http://evil.test/models?k=1''"
  have laws: "joins_absolute_urls resolving_urls" "query_keeps_host resolving_urls"
    by (auto simp: joins_absolute_urls_def query_keeps_host_def resolving_urls_def)
  have u: "absolute_url ?u" "list_all safe_segment (split_on slash (target_path ?u))"
    by (simp_all add: absolute_url_def is_scheme_def target_path_def safe_segment_def)
  have base: "colon \<notin> set (url_path resolving_urls local_base)"
    by (simp add: resolving_urls_def local_base_def)
  have "reject_unsafe_request_path (ascii ''/models'') = Inr ()"
    unfolding reject_path_iff by (simp add: safe_segment_def)
  then have "provider_request_url_from_base resolving_urls local_base (ascii ''/models'') =
      Inr (ascii ''http'', ascii ''localhost'', ascii ''/v1/models'')"
    by (simp add: provider_request_url_eq origin_form_def target_path_def target_query_def base_directory_def
        base_prefix_def below_base_def trim_start_matches_def trim_end_matches_def ends_with_def ok_or_def
        resolving_urls_def local_base_def absolute_url_def)
  moreover have parsed: "url_parse resolving_urls (target_path ?u) = Some (ascii ''http'', ascii ''evil.test'', ascii ''/models'')"
    "target_query ?u = Some (ascii ''k=1'')"
    by (simp_all add: resolving_urls_def parse_absolute_def absolute_url_def is_scheme_def target_path_def target_query_def)
  have "provider_request_url_from_base resolving_urls local_base (slash # ?u) =
      Inr (url_set_query resolving_urls (Some (ascii ''k=1'')) (ascii ''http'', ascii ''evil.test'', ascii ''/models''))"
    using absolute_target_joined [OF u base laws] unfolding parsed option.case by (rule conjunct1)
  moreover have "url_set_query resolving_urls (Some (ascii ''k=1'')) (ascii ''http'', ascii ''evil.test'', ascii ''/models'') =
      (ascii ''http'', ascii ''evil.test'', ascii ''/models?k=1'')"
    by (simp add: resolving_urls_def)
  moreover have "url_parse resolving_urls (ascii ''http://localhost/v1'') = Some local_base"
    by (simp add: resolving_urls_def parse_absolute_def absolute_url_def is_scheme_def local_base_def)
  moreover have "url_host resolving_urls local_base \<noteq> Some (ascii ''evil.test'')"
    by (simp add: resolving_urls_def local_base_def)
  ultimately show ?thesis
    by (simp only: simp_thms)
qed

end
