(* ===== verification/OpenAiServer.thy ===== *)
theory OpenAiServer
  imports HttpCalls ProviderUrl
begin

text \<open>
  The stream handler of the OpenAI proxy server, \<open>src/openai/server_handler.rs\<close>: read one HTTP request
  under a timeout, answer health checks, forward anything else to the configured provider and copy its
  response back. The theorems say what a stream asks of the provider and how each ending is answered.

  The libraries are parameters, bundled in \<open>openai_lib\<close>; \<open>lib_header_keys\<close> is the iteration over the
  names of a \<open>HeaderMap\<close>, each once, in an order the library leaves open.
\<close>

record ('u, 'h) openai_lib =
  lib_http :: http_lib
  lib_urls :: "'u url_lib"
  lib_responses :: "'h response_lib"
  lib_header_keys :: "header_map \<Rightarrow> rstring list"

section \<open>Operations\<close>

definition write_error_and_finish ::
  "('w, 'h, 'z) env_scheme \<Rightarrow> 'h \<Rightarrow> nat \<Rightarrow> rstring \<Rightarrow> rstring \<Rightarrow> ('w, 'h, unit) handler" where
  "write_error_and_finish E send code why text =
    andthen (map_err IoErr (write_plain_error E send code why text)) (\<lambda>_.
    andthen (map_err IoErr (finish E send)) (\<lambda>_.
    ret ()))"

definition read_and_validate_request ::
  "http_lib \<Rightarrow> ('w, 'h, 'z) env_scheme \<Rightarrow> 'h \<Rightarrow> 'h \<Rightarrow> duration \<Rightarrow> ('w, 'h, OpenAiHttpRequest option) handler" where
  "read_and_validate_request L E send recv request_read_timeout =
    andthen (timeout E request_read_timeout (read_http_request L E recv)) (\<lambda>result.
    case result of
      Completed (Inr request) \<Rightarrow> ret (Some request)
    | Completed (Inl err) \<Rightarrow>
        (let response = error_response err in
        andthen (write_error_and_finish E send (status response) (reason response) (body response)) (\<lambda>_.
        ret None))
    | Elapsed \<Rightarrow>
        andthen (write_error_and_finish E send 408 (ascii ''Request Timeout'') (ascii ''request timeout'')) (\<lambda>_.
        ret None))"

definition respond_to_health_check ::
  "('w, 'h, 'z) env_scheme \<Rightarrow> 'h \<Rightarrow> OpenAiHttpRequest \<Rightarrow> ('w, 'h, bool) handler" where
  "respond_to_health_check E send request =
    (if \<not> is_health_request request then ret False
     else
       andthen (map_err IoErr (write_plain_response E send 200 (ascii ''OK'') (ascii ''ok'' @ [0x0a]))) (\<lambda>_.
       andthen (map_err IoErr (finish E send)) (\<lambda>_.
       ret True)))"

definition forwarded_headers :: "('u, 'h) openai_lib \<Rightarrow> header_map \<Rightarrow> header_map" where
  "forwarded_headers L headers =
    concat (map (\<lambda>name.
      if should_forward_request_header name then map (\<lambda>value. (name, value)) (values_of name headers) else [])
      (lib_header_keys L headers))"

definition provider_request_builder ::
  "('u, 'h) openai_lib \<Rightarrow> ('u, 'k) OpenAiServerConfig \<Rightarrow> OpenAiHttpRequest \<Rightarrow> anyhow_error + provider_request" where
  "provider_request_builder L config request =
    res_then (provider_request_url_from_base (lib_urls L) (os_provider_base_url config) (http_target request)) (\<lambda>url.
    Inr \<lparr>pr_method = http_method request, pr_url = url_text (lib_urls L) url,
         pr_headers = forwarded_headers L (http_headers request), pr_body = http_body request\<rparr>)"

definition forward_request_to_provider ::
  "('u, 'h) openai_lib \<Rightarrow> ('w, 'h, 'z) env_scheme \<Rightarrow> 'h \<Rightarrow> ('u, 'k) OpenAiServerConfig \<Rightarrow> OpenAiHttpRequest \<Rightarrow>
    ('w, 'h, 'h option) handler" where
  "forward_request_to_provider L E send config request =
    (case provider_request_builder L config request of
       Inl err \<Rightarrow>
         andthen (write_error_and_finish E send 400 (ascii ''Bad Request'') (ascii ''bad request'')) (\<lambda>_.
         ret None)
     | Inr built \<Rightarrow>
         andthen (timeout E (os_provider_request_timeout config) (provider_send E built)) (\<lambda>result.
         case result of
           Completed (Inr response) \<Rightarrow> ret (Some response)
         | Completed (Inl err) \<Rightarrow>
             andthen (write_error_and_finish E send 502 (ascii ''Bad Gateway'') (ascii ''provider request failed'')) (\<lambda>_.
             ret None)
         | Elapsed \<Rightarrow>
             andthen (write_error_and_finish E send 504 (ascii ''Gateway Timeout'') (ascii ''provider request timed out'')) (\<lambda>_.
             ret None)))"

definition copy_provider_response_and_finish ::
  "nat \<Rightarrow> ('u, 'h) openai_lib \<Rightarrow> ('w, 'h, 'z) env_scheme \<Rightarrow> 'h \<Rightarrow> 'h \<Rightarrow> ('w, 'h, unit) handler" where
  "copy_provider_response_and_finish fuel L E send response =
    andthen (attempt (provider_chunk E response)) (\<lambda>first.
    case first of
      Inl err \<Rightarrow>
        andthen (write_error_and_finish E send 502 (ascii ''Bad Gateway'') (ascii ''provider response failed'')) (\<lambda>_.
        ret ())
    | Inr first_chunk \<Rightarrow>
        andthen (map_err IoErr (write_http_response fuel (lib_responses L) E send response first_chunk)) (\<lambda>_.
        andthen (map_err IoErr (finish E send)) (\<lambda>_.
        ret ())))"

definition handle_openai_stream ::
  "nat \<Rightarrow> ('u, 'h) openai_lib \<Rightarrow> ('w, 'h, 'z) env_scheme \<Rightarrow> 'h \<Rightarrow> 'h \<Rightarrow> ('u, 'k) OpenAiServerConfig \<Rightarrow>
    ('w, 'h, unit) handler" where
  "handle_openai_stream fuel L E send recv config =
    andthen (read_and_validate_request (lib_http L) E send recv (os_request_read_timeout config)) (\<lambda>requested.
    case requested of
      None \<Rightarrow> ret ()
    | Some request \<Rightarrow>
        andthen (respond_to_health_check E send request) (\<lambda>healthy.
        if healthy then ret ()
        else
          andthen (forward_request_to_provider L E send config request) (\<lambda>forwarded.
          case forwarded of
            None \<Rightarrow> ret ()
          | Some response \<Rightarrow> copy_provider_response_and_finish fuel L E send response)))"

section \<open>What a request asks for\<close>

text \<open>
  The specification of a stream: what was read decides between an answer of the proxy itself and one
  request to the provider; the provider's reaction then decides the answer.
\<close>

datatype verdict = Answer nat rstring rstring | Forward provider_request

definition verdict_of ::
  "('u, 'h) openai_lib \<Rightarrow> ('u, 'k) OpenAiServerConfig \<Rightarrow> (HttpRequestError, OpenAiHttpRequest) outcome \<Rightarrow> verdict" where
  "verdict_of L config got =
    (case got of
       Fail err \<Rightarrow> Answer (status (error_response err)) (reason (error_response err)) (body (error_response err))
     | Hang \<Rightarrow> Answer 408 (ascii ''Request Timeout'') (ascii ''request timeout'')
     | Done request \<Rightarrow>
         if is_health_request request then Answer 200 (ascii ''OK'') (ascii ''ok'' @ [0x0a])
         else
           (case provider_request_builder L config request of
              Inl err \<Rightarrow> Answer 400 (ascii ''Bad Request'') (ascii ''bad request'')
            | Inr built \<Rightarrow> Forward built))"

definition provider_answered ::
  "('u, 'h) openai_lib \<Rightarrow> 'h \<Rightarrow> (io_error, 'h) outcome \<Rightarrow> 'h event list \<Rightarrow> bool" where
  "provider_answered L send reaction es \<longleftrightarrow>
    (case reaction of
       Fail e \<Rightarrow> plainly_answered send 502 (ascii ''Bad Gateway'') (ascii ''provider request failed'') es
     | Hang \<Rightarrow> plainly_answered send 504 (ascii ''Gateway Timeout'') (ascii ''provider request timed out'') es
     | Done response \<Rightarrow>
         (case chunk_results es of
            Fail e # _ \<Rightarrow> plainly_answered send 502 (ascii ''Bad Gateway'') (ascii ''provider response failed'') es
          | _ \<Rightarrow>
              sent send es = response_head_bytes (response_status (lib_responses L) response)
                  (canonical_reason (lib_responses L) response) (response_headers (lib_responses L) response) @
                concat (map chunk_bytes (provided es)) @ last_chunk \<and>
              list_ex (closes send) es))"

section \<open>The steps against the specification\<close>

lemma write_error_and_finish_calls: "emits (answers_only h) (\<lambda>_. True) (write_error_and_finish E h code why text)"
  unfolding write_error_and_finish_def write_plain_error_def write_plain_response_def by (auto intro!: calls_rules)

lemma plain_then_finish_run:
  assumes "andthen (map_err IoErr (write_plain_response E h code why text)) (\<lambda>_.
      andthen (map_err IoErr (finish E h)) (\<lambda>_. ret x)) w = (Done y, w1, es)"
  shows "y = x \<and> plainly_answered h code why text es"
  by (rule plain_then_close_run [OF assms]) (rule finish_closes)

lemma plain_then_finish_asks:
  assumes "andthen (map_err IoErr (write_plain_response E h code why text)) (\<lambda>_.
      andthen (map_err IoErr (finish E h)) (\<lambda>_. ret x)) w = (r, w1, es)"
  shows "asks_nothing es"
proof -
  have "emits (answers_only h) (\<lambda>_. True) (andthen (map_err IoErr (write_plain_response E h code why text)) (\<lambda>_.
      andthen (map_err IoErr (finish E h)) (\<lambda>_. ret x)))"
    unfolding write_plain_response_def by (auto intro!: calls_rules)
  from emitsD [OF this assms] show ?thesis
    by (auto intro: answers_ask_nothing)
qed

text \<open>An error answer in place of a result.\<close>

lemma refused_run:
  assumes "andthen (write_error_and_finish E h code why text) (\<lambda>_. ret x) w = (r, w1, es)"
  shows "asks_nothing es \<and> (\<forall>y. r = Done y \<longrightarrow> y = x \<and> plainly_answered h code why text es)"
  using assms
proof (cases rule: andthen_runs)
  case (ran u w2 es1 es2)
  note run = ran(1) [unfolded write_error_and_finish_def write_plain_error_def]
  from plain_then_finish_run [OF run] plain_then_finish_asks [OF run] ran(2,3) show ?thesis
    by (auto simp: ret_def)
qed (auto dest!: emitsD [OF write_error_and_finish_calls] answers_ask_nothing)

lemma read_and_validate_run:
  assumes "read_and_validate_request L E send recv t w = (r, w1, es)"
    and "read_http_request L E recv (op_deadline E (Some t) w) = (got, w2, es2)"
  shows "asks_nothing es \<and>
    (case got of
       Done request \<Rightarrow> r = Done (Some request) \<and> sent send es = []
     | _ \<Rightarrow> \<forall>y. r = Done y \<longrightarrow> y = None \<and>
         (case verdict_of L' config got of
            Answer code why text \<Rightarrow> plainly_answered send code why text es
          | Forward _ \<Rightarrow> False))"
proof -
  have reads: "quiet k (Deadline_ev (Some t) # es2 @ [Deadline_ev None])" for k
    using emitsD [OF read_http_request_calls assms(2)] by (auto intro: quiet_deadline request_reads_quiet)
  let ?next = "\<lambda>result. case result of
      Completed (Inr request) \<Rightarrow> ret (Some request)
    | Completed (Inl err) \<Rightarrow>
        (let response = error_response err in
        andthen (write_error_and_finish E send (status response) (reason response) (body response)) (\<lambda>_. ret None))
    | Elapsed \<Rightarrow>
        andthen (write_error_and_finish E send 408 (ascii ''Request Timeout'') (ascii ''request timeout'')) (\<lambda>_. ret None)"
  obtain fs where es: "es = (Deadline_ev (Some t) # es2 @ [Deadline_ev None]) @ fs"
    and rest: "?next (case got of Done x \<Rightarrow> Completed (Inr x) | Fail e \<Rightarrow> Completed (Inl e) | Hang \<Rightarrow> Elapsed)
      (op_deadline E None w2) = (r, w1, fs)"
    using assms unfolding read_and_validate_request_def andthen_def [of "timeout a b c" for a b c] timeout_def
    by (simp split: prod.splits)
  note quiet_reads = quiet_asks_nothing [OF reads [of send]] reads [of send, unfolded quiet_def]
  show ?thesis
  proof (cases got)
    case (Done request)
    then show ?thesis
      using rest quiet_reads by (simp add: es ret_def)
  next
    case (Fail err)
    then have "andthen (write_error_and_finish E send (status (error_response err)) (reason (error_response err))
        (body (error_response err))) (\<lambda>_. ret None) (op_deadline E None w2) = (r, w1, fs)"
      using rest by (simp add: Let_def)
    from refused_run [OF this] quiet_reads Fail show ?thesis
      by (auto simp: es verdict_of_def asks_nothing_def plainly_answered_def)
  next
    case Hang
    then have "andthen (write_error_and_finish E send 408 (ascii ''Request Timeout'') (ascii ''request timeout''))
        (\<lambda>_. ret None) (op_deadline E None w2) = (r, w1, fs)"
      using rest by simp
    from refused_run [OF this] quiet_reads Hang show ?thesis
      by (auto simp: es verdict_of_def asks_nothing_def plainly_answered_def)
  qed
qed

lemma health_run:
  assumes "respond_to_health_check E send request w = (r, w1, es)"
  shows "asks_nothing es \<and>
    (if is_health_request request
     then \<forall>y. r = Done y \<longrightarrow> y \<and> plainly_answered send 200 (ascii ''OK'') (ascii ''ok'' @ [0x0a]) es
     else r = Done False \<and> es = [])"
proof (cases "is_health_request request")
  case True
  with assms have run: "andthen (map_err IoErr (write_plain_response E send 200 (ascii ''OK'') (ascii ''ok'' @ [0x0a]))) (\<lambda>_.
      andthen (map_err IoErr (finish E send)) (\<lambda>_. ret True)) w = (r, w1, es)"
    by (simp add: respond_to_health_check_def)
  show ?thesis
  proof (intro conjI)
    show "asks_nothing es"
      by (rule plain_then_finish_asks [OF run])
    show "if is_health_request request
     then \<forall>y. r = Done y \<longrightarrow> y \<and> plainly_answered send 200 (ascii ''OK'') (ascii ''ok'' @ [0x0a]) es
     else r = Done False \<and> es = []"
      unfolding if_P [OF True]
    proof (intro allI impI)
      fix y assume "r = Done y"
      from plain_then_finish_run [OF run [unfolded this]]
      show "y \<and> plainly_answered send 200 (ascii ''OK'') (ascii ''ok'' @ [0x0a]) es"
        by blast
    qed
  qed
qed (use assms in \<open>auto simp: respond_to_health_check_def ret_def asks_nothing_def\<close>)

text \<open>The calls of a stream that ask nothing more of the provider than the next chunk.\<close>

fun not_sending :: "'h event \<Rightarrow> bool" where
  "not_sending (Provider_send_ev req r) \<longleftrightarrow> False"
| "not_sending _ \<longleftrightarrow> True"

lemma not_sending_sends: "list_all not_sending es \<Longrightarrow> provider_sends es = []"
proof (induction es)
  case (Cons e es)
  then show ?case by (cases e) auto
qed simp

lemma write_headers_not_sending: "emits not_sending (\<lambda>_. True) (write_headers E h headers)"
  by (induction headers) (auto intro!: calls_rules)

lemma write_response_chunk_not_sending: "emits not_sending (\<lambda>_. True) (write_response_chunk E h chunk)"
  unfolding write_response_chunk_def by (auto intro!: calls_rules)

lemma write_chunks_not_sending: "emits not_sending (\<lambda>_. True) (write_chunks fuel E h response)"
  by (induction fuel) (auto intro!: calls_rules write_response_chunk_not_sending split: option.split)

lemma copy_provider_response_calls:
  "emits not_sending (\<lambda>_. True) (copy_provider_response_and_finish fuel L E send response)"
  unfolding copy_provider_response_and_finish_def write_http_response_def write_error_and_finish_def
    write_plain_error_def write_plain_response_def
  by (auto intro!: calls_rules write_headers_not_sending write_response_chunk_not_sending write_chunks_not_sending
      split: sum.split option.split)

lemma forward_run:
  assumes "forward_request_to_provider L E send config request w = (r, w1, es)"
  shows "case provider_request_builder L config request of
      Inl err \<Rightarrow> asks_nothing es \<and>
        (\<forall>y. r = Done y \<longrightarrow> y = None \<and> plainly_answered send 400 (ascii ''Bad Request'') (ascii ''bad request'') es)
    | Inr built \<Rightarrow> \<exists>reaction. provider_sends es = [(built, reaction)] \<and> chunk_results es = [] \<and> provided es = [] \<and>
        (case reaction of
           Done response \<Rightarrow> r = Done (Some response) \<and> sent send es = []
         | _ \<Rightarrow> \<forall>y. r = Done y \<longrightarrow> y = None \<and> provider_answered L send reaction es)"
proof (cases "provider_request_builder L config request")
  case (Inl err)
  with assms have "andthen (write_error_and_finish E send 400 (ascii ''Bad Request'') (ascii ''bad request'')) (\<lambda>_. ret None) w =
      (r, w1, es)"
    by (simp add: forward_request_to_provider_def)
  from refused_run [OF this] Inl show ?thesis
    by simp
next
  case (Inr built)
  from assms have run: "andthen (timeout E (os_provider_request_timeout config) (provider_send E built)) (\<lambda>result.
      case result of
        Completed (Inr response) \<Rightarrow> ret (Some response)
      | Completed (Inl err) \<Rightarrow>
          andthen (write_error_and_finish E send 502 (ascii ''Bad Gateway'') (ascii ''provider request failed'')) (\<lambda>_. ret None)
      | Elapsed \<Rightarrow>
          andthen (write_error_and_finish E send 504 (ascii ''Gateway Timeout'') (ascii ''provider request timed out'')) (\<lambda>_.
          ret None)) w = (r, w1, es)"
    by (simp only: forward_request_to_provider_def Inr sum.case)
  then obtain reaction w2 es1 fs where
    step: "provider_send E built (op_deadline E (Some (os_provider_request_timeout config)) w) = (reaction, w2, es1)"
    and rest: "(case (case reaction of Done x \<Rightarrow> Completed (Inr x) | Fail e \<Rightarrow> Completed (Inl e) | Hang \<Rightarrow> Elapsed) of
        Completed (Inr response) \<Rightarrow> ret (Some response)
      | Completed (Inl err) \<Rightarrow>
          andthen (write_error_and_finish E send 502 (ascii ''Bad Gateway'') (ascii ''provider request failed'')) (\<lambda>_. ret None)
      | Elapsed \<Rightarrow>
          andthen (write_error_and_finish E send 504 (ascii ''Gateway Timeout'') (ascii ''provider request timed out'')) (\<lambda>_.
          ret None)) (op_deadline E None w2) = (r, w1, fs)"
    and es_all: "es = (Deadline_ev (Some (os_provider_request_timeout config)) # es1 @ [Deadline_ev None]) @ fs"
    by (rule timeout_then_runs)
  have "es1 = [Provider_send_ev built reaction]"
    using step by (auto simp: provider_send_def call_def split: prod.splits)
  then have es: "es = [Deadline_ev (Some (os_provider_request_timeout config)), Provider_send_ev built reaction,
      Deadline_ev None] @ fs"
    by (simp add: es_all)
  show ?thesis
  proof (cases reaction)
    case (Done response)
    then show ?thesis
      using rest Inr by (simp add: es ret_def)
  next
    case (Fail err)
    then have "andthen (write_error_and_finish E send 502 (ascii ''Bad Gateway'') (ascii ''provider request failed''))
        (\<lambda>_. ret None) (op_deadline E None w2) = (r, w1, fs)"
      using rest by simp
    from refused_run [OF this] Fail Inr show ?thesis
      by (auto simp: es provider_answered_def plainly_answered_def asks_nothing_def)
  next
    case Hang
    then have "andthen (write_error_and_finish E send 504 (ascii ''Gateway Timeout'') (ascii ''provider request timed out''))
        (\<lambda>_. ret None) (op_deadline E None w2) = (r, w1, fs)"
      using rest by simp
    from refused_run [OF this] Hang Inr show ?thesis
      by (auto simp: es provider_answered_def plainly_answered_def asks_nothing_def)
  qed
qed

lemma copy_provider_response_run:
  assumes "copy_provider_response_and_finish fuel L E send response w = (r, w1, es)"
  shows "provider_sends es = [] \<and> (\<forall>y. r = Done y \<longrightarrow> provider_answered L send (Done response) es)"
proof (intro conjI allI impI)
  show "provider_sends es = []"
    using emitsD [OF copy_provider_response_calls assms] by (auto intro: not_sending_sends)
next
  fix y assume r: "r = Done y"
  from assms [unfolded r copy_provider_response_and_finish_def]
  show "provider_answered L send (Done response) es"
  proof (cases rule: andthen_runs)
    case (ran first w2 es1 es2)
    from ran(1) obtain res where es1: "es1 = [Provider_chunk_ev response res]"
      and res: "res = (case first of Inl err \<Rightarrow> Fail err | Inr chunk \<Rightarrow> Done chunk)"
      by (auto simp: attempt_def provider_chunk_def call_def split: prod.splits outcome.splits)
    show ?thesis
    proof (cases first)
      case (Inl err)
      with ran(2) have "andthen (write_error_and_finish E send 502 (ascii ''Bad Gateway'') (ascii ''provider response failed''))
          (\<lambda>_. ret ()) w2 = (Done y, w1, es2)"
        by simp
      from refused_run [OF this] show ?thesis
        by (simp add: provider_answered_def ran(3) es1 res Inl plainly_answered_def)
    next
      case (Inr first_chunk)
      with ran(2) have "andthen (map_err IoErr (write_http_response fuel (lib_responses L) E send response first_chunk)) (\<lambda>_.
          andthen (map_err IoErr (finish E send)) (\<lambda>_. ret ())) w2 = (Done y, w1, es2)"
        by simp
      then show ?thesis
      proof (cases rule: andthen_runs)
        case inner: (ran x w3 es3 es4)
        from inner(1) have "write_http_response fuel (lib_responses L) E send response first_chunk w2 = (Done (), w3, es3)"
          by (rule map_err_runs) (simp add: Done_map_outcome)
        note written = write_http_response_sent [OF this]
        have es4: "sent send es4 = [] \<and> provided es4 = [] \<and> list_ex (closes send) es4 \<and> chunk_results es4 = []"
          using inner(2)
          by (auto elim!: andthen_runs map_err_runs simp: ret_def finish_def call_def Done_map_outcome split: prod.splits)
        have "provided es1 = (case first_chunk of None \<Rightarrow> [] | Some chunk \<Rightarrow> [chunk])"
          by (simp add: es1 res Inr split: option.split)
        then have "provided es = (case first_chunk of None \<Rightarrow> [] | Some chunk \<Rightarrow> [chunk]) @ provided es3"
          by (simp add: ran(3) inner(3) es4)
        moreover have "chunk_results es = Done first_chunk # chunk_results es3"
          by (simp add: ran(3) inner(3) es4) (simp add: es1 res Inr)
        moreover have "sent send es = sent send es3" "list_ex (closes send) es"
          by (simp_all add: ran(3) inner(3) es4) (simp add: es1)
        ultimately show ?thesis
          using written by (simp add: provider_answered_def)
      qed simp_all
    qed
  qed simp_all
qed

lemma provider_answered_after:
  assumes "provider_answered L send (Done response) fs" and "chunk_results es = []" "provided es = []" "sent send es = []"
  shows "provider_answered L send (Done response) (es @ fs)"
  using assms by (auto simp: provider_answered_def plainly_answered_def split: list.split outcome.split)

lemma openai_session_run:
  assumes "handle_openai_stream fuel L E send recv config w = (r, w1, es)"
    and "read_http_request (lib_http L) E recv (op_deadline E (Some (os_request_read_timeout config)) w) = (got, w2, es2)"
  shows "case verdict_of L config got of
      Answer code why text \<Rightarrow>
        provider_sends es = [] \<and> (\<forall>y. r = Done y \<longrightarrow> plainly_answered send code why text es)
    | Forward built \<Rightarrow>
        \<exists>reaction. provider_sends es = [(built, reaction)] \<and>
          (\<forall>y. r = Done y \<longrightarrow> provider_answered L send reaction es)"
proof -
  obtain r1 u1 es1 where rd: "read_and_validate_request (lib_http L) E send recv (os_request_read_timeout config) w = (r1, u1, es1)"
    by (rule act_run)
  note rd_spec = read_and_validate_run [OF rd assms(2), of L config]
  show ?thesis
  proof (cases "\<exists>request. got = Done request")
    case False
    then have "r1 = Done x \<Longrightarrow> x = None" for x
      using rd_spec by (cases got) auto
    then have ends: "es = es1" "r = map_outcome id (\<lambda>_. ()) r1"
      using assms(1) rd
      by (auto simp: handle_openai_stream_def andthen_def ret_def split: outcome.splits option.splits)
    with False rd_spec show ?thesis
      by (cases got; cases r1) (auto simp: asks_nothing_def verdict_of_def split: verdict.splits)
  next
    case True
    then obtain request where got: "got = Done request"
      by blast
    with rd_spec have r1: "r1 = Done (Some request)" "asks_nothing es1" "sent send es1 = []"
      by simp_all
    obtain r2 u2 es3 where hc: "respond_to_health_check E send request u1 = (r2, u2, es3)"
      by (rule act_run)
    note hc_spec = health_run [OF hc]
    show ?thesis
    proof (cases "is_health_request request")
      case True
      with hc_spec have "r2 = Done x \<Longrightarrow> x" for x
        by simp
      then have ends: "es = es1 @ es3" "r = map_outcome id (\<lambda>_. ()) r2"
        using assms(1) rd r1(1) hc
        by (auto simp: handle_openai_stream_def andthen_def ret_def split: outcome.splits option.splits)
      with True got hc_spec r1 show ?thesis
        by (cases r2) (auto simp: verdict_of_def asks_nothing_def plainly_answered_def)
    next
      case False
      with hc_spec have r2: "r2 = Done False" "es3 = []"
        by simp_all
      obtain r3 u3 es4 where fw: "forward_request_to_provider L E send config request u2 = (r3, u3, es4)"
        by (rule act_run)
      note fw_spec = forward_run [OF fw]
      show ?thesis
      proof (cases "\<exists>response. r3 = Done (Some response)")
        case True
        then obtain response where r3: "r3 = Done (Some response)"
          by blast
        with fw_spec obtain built reaction where built: "provider_request_builder L config request = Inr built"
            "provider_sends es4 = [(built, reaction)]" "chunk_results es4 = []" "provided es4 = []"
            "case reaction of Done response \<Rightarrow> r3 = Done (Some response) \<and> sent send es4 = []
              | _ \<Rightarrow> \<forall>y. r3 = Done y \<longrightarrow> y = None \<and> provider_answered L send reaction es4"
          by (cases "provider_request_builder L config request") auto
        then have built_done: "reaction = Done response" "sent send es4 = []"
          using r3 by (cases reaction; simp)+
        obtain r4 u4 es5 where cp: "copy_provider_response_and_finish fuel L E send response u3 = (r4, u4, es5)"
          by (rule act_run)
        have "r = r4" "es = (es1 @ es4) @ es5"
          using assms(1) rd hc fw cp r1 r2 r3
          by (auto simp: handle_openai_stream_def andthen_def [of "read_and_validate_request a b c d e" for a b c d e]
              andthen_def [of "respond_to_health_check a b c" for a b c]
              andthen_def [of "forward_request_to_provider a b c d e" for a b c d e])
        with copy_provider_response_run [OF cp] built(1-4) built_done r1 got False show ?thesis
          by (auto simp: verdict_of_def asks_nothing_def intro!: provider_answered_after)
      next
        case stopped: False
        have "r3 = Done x \<Longrightarrow> x = None" for x
          using stopped by (cases x) auto
        then have ends: "es = es1 @ es4" "r = map_outcome id (\<lambda>_. ()) r3"
          using assms(1) rd hc fw r1 r2
          by (auto simp: handle_openai_stream_def andthen_def ret_def split: outcome.splits option.splits)
        show ?thesis
        proof (cases "provider_request_builder L config request")
          case (Inl err)
          with fw_spec ends got False r1 show ?thesis
            by (cases r3) (auto simp: verdict_of_def asks_nothing_def plainly_answered_def)
        next
          case (Inr built)
          with fw_spec obtain reaction where sends: "provider_sends es4 = [(built, reaction)]"
            and reacts: "case reaction of Done response \<Rightarrow> r3 = Done (Some response) \<and> sent send es4 = []
              | _ \<Rightarrow> \<forall>y. r3 = Done y \<longrightarrow> y = None \<and> provider_answered L send reaction es4"
            by auto
          have reaction: "provider_sends es4 = [(built, reaction)]" "\<And>x. reaction \<noteq> Done x"
            "\<forall>y. r3 = Done y \<longrightarrow> provider_answered L send reaction es4"
            using sends reacts stopped by (cases reaction; auto)+
          have "provider_answered L send reaction (es1 @ es4)" if "provider_answered L send reaction es4"
            using that r1 reaction(2) by (cases reaction) (auto simp: provider_answered_def plainly_answered_def)
          with reaction show ?thesis
            using ends got False r1 Inr by (cases r3) (auto simp: verdict_of_def asks_nothing_def)
        qed
      qed
    qed
  qed
qed

section \<open>Forwarded headers\<close>

text \<open>What the library documents of the iteration over a map's names: each name once.\<close>

definition iterates_names :: "('u, 'h) openai_lib \<Rightarrow> bool" where
  "iterates_names L \<longleftrightarrow>
    (\<forall>headers. distinct (lib_header_keys L headers) \<and> set (lib_header_keys L headers) = fst ` set headers)"

lemma values_of_tagged: "values_of name (map (\<lambda>v. (n, v)) vs) = (if n = name then vs else [])"
  by (induction vs) auto

lemma values_of_absent: "name \<notin> fst ` set headers \<Longrightarrow> values_of name headers = []"
  by (induction headers) auto

lemma values_of_forwarded:
  assumes "iterates_names L"
  shows "values_of name (forwarded_headers L headers) =
    (if should_forward_request_header name then values_of name headers else [])"
proof -
  have "values_of name (concat (map (\<lambda>n. if should_forward_request_header n
        then map (\<lambda>value. (n, value)) (values_of n headers) else []) names)) =
      (if name \<in> set names \<and> should_forward_request_header name then values_of name headers else [])"
    if "distinct names" for names
    using that by (induction names) (auto simp: values_of_tagged)
  with assms show ?thesis
    by (auto simp: forwarded_headers_def iterates_names_def values_of_absent)
qed

section \<open>The theorems\<close>

text \<open>An instance: a POST to \<open>/v1\<close> with a body, for a provider whose base path is \<open>/v1\<close>.\<close>

definition example_openai_lib :: "(rstring, nat) openai_lib" where
  "example_openai_lib =
    \<lparr>lib_http = example_lib [example_length_header], lib_urls = example_urls, lib_responses = example_responses,
     lib_header_keys = (\<lambda>headers. remdups (map fst headers))\<rparr>"

definition example_openai_config :: "(rstring, nat) OpenAiServerConfig" where
  "example_openai_config =
    \<lparr>os_provider_base_url = example_base, os_bind_addr = SocketAddr (V4 (Ipv4 0 0 0 0)) 0, os_allow_peers = [],
     os_request_read_timeout = REQUEST_READ_TIMEOUT, os_provider_connect_timeout = PROVIDER_CONNECT_TIMEOUT,
     os_provider_request_timeout = PROVIDER_REQUEST_TIMEOUT, os_max_connections = DEFAULT_MAX_CONNECTIONS,
     os_max_streams_per_connection = DEFAULT_MAX_STREAMS_PER_CONNECTION, os_identity_path = None\<rparr>"

definition example_openai_world :: loop_world where
  "example_openai_world = empty_world
    \<lparr>inbox := (\<lambda>_. example_head @ ascii ''hi''), provider := (\<lambda>_. Done 9), provider_body := (\<lambda>_. [ascii ''yo!''])\<rparr>"

lemma example_openai_read:
  "\<exists>p w2 es2. read_http_request (lib_http example_openai_lib) ending_env 2
      (op_deadline ending_env (Some (os_request_read_timeout example_openai_config)) example_openai_world) =
      (Done (request_of p (ascii ''hi'')), w2, es2) \<and>
    parse_http_head (example_lib [example_length_header]) example_head = Inr p"
proof -
  let ?L = "example_lib [example_length_header]"
  let ?w = "op_deadline ending_env (Some (os_request_read_timeout example_openai_config)) example_openai_world"
  obtain p where p: "parse_http_head ?L example_head = Inr p" "wanted p = 2" "\<not> has_chunked_body p"
    using example_parsed by blast
  obtain r w2 es2 where run: "read_http_request ?L ending_env 2 ?w = (r, w2, es2)"
    by (rule act_run)
  have "inbox ?w 2 = example_head @ ascii ''hi'' @ []"
    by (simp add: ending_env_def loop_env_def example_openai_world_def)
  moreover have "length (ascii ''hi'') = wanted p"
    by (simp add: p)
  ultimately have "p_request ?L True (inbox ?w 2) = Parsed (request_of p (ascii ''hi'')) []"
    unfolding p_request_Parsed using p example_head_framed by blast
  from decodesD(1) [OF ending_source.read_http_request_decodes run this] run p(1) show ?thesis
    by (simp add: example_openai_lib_def)
qed

text \<open>C9: the outcome of a stream at the OpenAI proxy server. What was read decides: an unreadable request, a late
  one, a health check and a target that is refused are answered by the proxy itself, each with its own
  status, and cost the provider nothing. Anything else is sent to the provider, once. A completed stream
  then has answered a failure with 502, a provider that is late with 504, and otherwise with the provider's
  response, re-framed; in every case the stream is closed.\<close>

theorem openai_session_outcome:
  assumes "handle_openai_stream fuel L E send recv config w = (r, w1, es)"
    and "read_http_request (lib_http L) E recv (op_deadline E (Some (os_request_read_timeout config)) w) = (got, w2, es2)"
  shows "case verdict_of L config got of
      Answer code why text \<Rightarrow>
        provider_sends es = [] \<and> (\<forall>y. r = Done y \<longrightarrow> plainly_answered send code why text es)
    | Forward built \<Rightarrow>
        \<exists>reaction. provider_sends es = [(built, reaction)] \<and>
          (\<forall>y. r = Done y \<longrightarrow> provider_answered L send reaction es)"
  by (rule openai_session_run [OF assms])

text \<open>C6: what the provider is asked. A stream sends the provider at most one request, and only one that was read
  completely and is not a health check: with the method and the body that were read, with every header that is
  not about the client's own connection, each with all its values in order, and no other. Its target is in origin
  form and none of its path segments is unsafe. Its URL is what the URL library makes of the base URL's directory
  and the target's path, without leading slashes and without the part that repeats the base's own path, with the
  target's query. Whether that is a URL below the base is up to the library's join: for a relative path it
  is, for an absolute URL in the path it is not.\<close>

theorem provider_request_exact:
  assumes "handle_openai_stream fuel L E send recv config w = (r, w1, es)" and "iterates_names L"
  shows "length (provider_sends es) \<le> 1 \<and>
    list_all (\<lambda>(asked, _). \<exists>request w2 es2 joined.
      read_http_request (lib_http L) E recv (op_deadline E (Some (os_request_read_timeout config)) w) =
        (Done request, w2, es2) \<and>
      \<not> is_health_request request \<and>
      origin_form (http_target request) \<and>
      list_all safe_segment (split_on slash (target_path (http_target request))) \<and>
      url_join (lib_urls L) (base_directory (lib_urls L) (os_provider_base_url config))
        (below_base (base_prefix (lib_urls L) (os_provider_base_url config))
          (trim_start_matches slash (target_path (http_target request)))) = Some joined \<and>
      pr_url asked = url_text (lib_urls L) (url_set_query (lib_urls L) (target_query (http_target request)) joined) \<and>
      pr_method asked = http_method request \<and> pr_body asked = http_body request \<and>
      (\<forall>name. values_of name (pr_headers asked) =
        (if should_forward_request_header name then values_of name (http_headers request) else []))) (provider_sends es)"
proof -
  obtain got w2 es2 where rd:
    "read_http_request (lib_http L) E recv (op_deadline E (Some (os_request_read_timeout config)) w) = (got, w2, es2)"
    by (rule act_run)
  note spec = openai_session_run [OF assms(1) rd]
  show ?thesis
  proof (cases "verdict_of L config got")
    case (Answer code why message)
    with spec show ?thesis
      by simp
  next
    case (Forward built)
    then obtain request where got: "got = Done request" "\<not> is_health_request request"
      "provider_request_builder L config request = Inr built"
      by (auto simp: verdict_of_def split: outcome.splits if_splits sum.splits)
    from got(3) obtain url where url: "provider_request_url_from_base (lib_urls L) (os_provider_base_url config) (http_target request) = Inr url"
      and built: "built = \<lparr>pr_method = http_method request, pr_url = url_text (lib_urls L) url,
         pr_headers = forwarded_headers L (http_headers request), pr_body = http_body request\<rparr>"
      by (auto simp: provider_request_builder_def res_then_Inr)
    from spec Forward obtain reaction where sends: "provider_sends es = [(built, reaction)]"
      by auto
    show ?thesis
      using rd got(1,2) url [unfolded provider_request_url_iff]
      by (auto simp: sends built values_of_forwarded [OF assms(2)])
  qed
qed

lemma example_parsed_target:
  "parse_http_head (example_lib [example_length_header]) example_head = Inr p \<Longrightarrow>
    http_target (request_of p b) = ascii ''/v1'' \<and> http_method (request_of p b) = ascii ''POST'' \<and> http_body (request_of p b) = b"
  by (simp add: parse_eval example_length_header_def request_of_def) auto

lemma example_path_safe: "reject_unsafe_request_path [slash, 118, 49] = Inr ()"
  unfolding reject_path_iff by (simp add: safe_segment_def)

lemma example_verdict:
  assumes "parse_http_head (example_lib [example_length_header]) example_head = Inr p"
  shows "\<exists>built. verdict_of example_openai_lib example_openai_config (Done (request_of p (ascii ''hi''))) = Forward built \<and>
    pr_url built = ascii ''/v1/'' \<and> pr_body built = ascii ''hi''"
  using example_parsed_target [OF assms, of "ascii ''hi''"]
  by (simp add: verdict_of_def is_health_request_def provider_request_builder_def provider_request_url_eq
      origin_form_def example_path_safe target_query_def base_directory_def below_base_def ends_with_def url_eval
      example_openai_lib_def example_openai_config_def)

theorem openai_session_outcome_witness:
  "\<exists>r w1 es built reaction. handle_openai_stream 3 example_openai_lib ending_env 1 2 example_openai_config example_openai_world =
      (r, w1, es) \<and> provider_sends es = [(built, reaction)] \<and> pr_url built = ascii ''/v1/'' \<and> pr_body built = ascii ''hi''"
proof -
  obtain r w1 es where run:
    "handle_openai_stream 3 example_openai_lib ending_env 1 2 example_openai_config example_openai_world = (r, w1, es)"
    by (rule act_run)
  obtain p w2 es2 where rd: "read_http_request (lib_http example_openai_lib) ending_env 2
      (op_deadline ending_env (Some (os_request_read_timeout example_openai_config)) example_openai_world) =
      (Done (request_of p (ascii ''hi'')), w2, es2)"
    and p: "parse_http_head (example_lib [example_length_header]) example_head = Inr p"
    using example_openai_read by blast
  from openai_session_outcome [OF run rd] example_verdict [OF p] run show ?thesis
    by fastforce
qed

theorem provider_request_exact_witness:
  "\<exists>r w1 es asked reaction.
    handle_openai_stream 3 example_openai_lib ending_env 1 2 example_openai_config example_openai_world = (r, w1, es) \<and>
    provider_sends es = [(asked, reaction)] \<and> pr_method asked = ascii ''POST'' \<and> pr_url asked = ascii ''/v1/'' \<and>
    pr_body asked = ascii ''hi'' \<and> (\<forall>name. \<not> should_forward_request_header name \<longrightarrow> values_of name (pr_headers asked) = [])"
proof -
  obtain r w1 es where run:
    "handle_openai_stream 3 example_openai_lib ending_env 1 2 example_openai_config example_openai_world = (r, w1, es)"
    by (rule act_run)
  obtain p w2 es2 where rd: "read_http_request (lib_http example_openai_lib) ending_env 2
      (op_deadline ending_env (Some (os_request_read_timeout example_openai_config)) example_openai_world) =
      (Done (request_of p (ascii ''hi'')), w2, es2)"
    and p: "parse_http_head (example_lib [example_length_header]) example_head = Inr p"
    using example_openai_read by blast
  from openai_session_run [OF run rd] example_verdict [OF p] obtain asked reaction where
    sends: "provider_sends es = [(asked, reaction)]" and url: "pr_url asked = ascii ''/v1/''"
    by fastforce
  have "iterates_names example_openai_lib"
    by (simp add: iterates_names_def example_openai_lib_def)
  from provider_request_exact [OF run this] have
    "pr_method asked = http_method (request_of p (ascii ''hi''))" "pr_body asked = http_body (request_of p (ascii ''hi''))"
    "\<forall>name. \<not> should_forward_request_header name \<longrightarrow> values_of name (pr_headers asked) = []"
    by (auto simp: sends rd)
  with run sends url example_parsed_target [OF p, of "ascii ''hi''"] show ?thesis
    by auto
qed

end
