(* ===== verification/StepSystems.thy ===== *)
theory StepSystems
  imports Prelude
begin

text \<open>
  Concurrent parts of the program are step relations between states: one rule for each piece of
  code between two points where a task can be suspended. This theory holds what they share: the
  reachable states, invariants as an interface with its consequence, and measures that a step
  decreases.
\<close>

inductive reachable :: "('s \<Rightarrow> bool) \<Rightarrow> ('s \<Rightarrow> 's \<Rightarrow> bool) \<Rightarrow> 's \<Rightarrow> bool"
  for start :: "'s \<Rightarrow> bool" and step :: "'s \<Rightarrow> 's \<Rightarrow> bool" where
  reach_start: "start s \<Longrightarrow> reachable start step s"
| reach_step: "\<lbrakk> reachable start step s; step s t \<rbrakk> \<Longrightarrow> reachable start step t"

text \<open>A property that holds at the start and that every step keeps.\<close>

locale invariant_of =
  fixes start :: "'s \<Rightarrow> bool" and step :: "'s \<Rightarrow> 's \<Rightarrow> bool" and inv :: "'s \<Rightarrow> bool"
  assumes inv_start: "start s \<Longrightarrow> inv s"
    and inv_step: "\<lbrakk> inv s; step s t \<rbrakk> \<Longrightarrow> inv t"
begin

lemma holds: "reachable start step s \<Longrightarrow> inv s"
  by (induction rule: reachable.induct) (auto intro: inv_start inv_step)

lemma holds_after: "\<lbrakk> step\<^sup>*\<^sup>* s t; inv s \<rbrakk> \<Longrightarrow> inv t"
  by (induction rule: rtranclp_induct) (auto intro: inv_step)

end

text \<open>
  A system whose states that are not at rest allow a move that makes a measure smaller comes to
  rest: some run of moves ends in a state at rest.
\<close>

locale settling =
  fixes move :: "'s \<Rightarrow> 's \<Rightarrow> bool" and good :: "'s \<Rightarrow> bool" and at_rest :: "'s \<Rightarrow> bool" and work :: "'s \<Rightarrow> nat"
  assumes can_move: "\<lbrakk> good s; \<not> at_rest s \<rbrakk> \<Longrightarrow> \<exists>t. move s t \<and> good t \<and> work t < work s"
begin

lemma settles: "good s \<Longrightarrow> \<exists>t. move\<^sup>*\<^sup>* s t \<and> at_rest t \<and> good t"
proof (induction "work s" arbitrary: s rule: less_induct)
  case less
  show ?case
  proof (cases "at_rest s")
    case False
    then obtain t where t: "move s t" "good t" "work t < work s"
      using can_move less.prems by blast
    with less.hyps obtain u where "move\<^sup>*\<^sup>* t u" "at_rest u" "good u"
      by blast
    with t show ?thesis
      by (meson converse_rtranclp_into_rtranclp)
  qed (use less.prems in blast)
qed

end

section \<open>Runs over inputs\<close>

text \<open>
  A component that reacts to inputs is a function from an input and a state to the next state and the
  actions it takes. A run takes the inputs in their order.
\<close>

fun run_inputs :: "('i \<Rightarrow> 's \<Rightarrow> 's \<times> 'a list) \<Rightarrow> 'i list \<Rightarrow> 's \<Rightarrow> 's \<times> 'a list" where
  "run_inputs step [] s = (s, [])"
| "run_inputs step (i # is) s =
    (case step i s of (s1, acts) \<Rightarrow> (case run_inputs step is s1 of (t, more) \<Rightarrow> (t, acts @ more)))"

definition reacts :: "('i \<Rightarrow> 's \<Rightarrow> 's \<times> 'a list) \<Rightarrow> 's \<Rightarrow> 's \<Rightarrow> bool" where
  "reacts step s t \<longleftrightarrow> (\<exists>i. fst (step i s) = t)"

lemma run_inputs_append:
  "run_inputs step (is @ js) s =
    (case run_inputs step is s of (s1, acts) \<Rightarrow> (case run_inputs step js s1 of (t, more) \<Rightarrow> (t, acts @ more)))"
  by (induction "is" arbitrary: s) (auto split: prod.split)

lemma run_inputs_reachable:
  assumes "reachable start (reacts step) s"
  shows "reachable start (reacts step) (fst (run_inputs step is s))"
  using assms
proof (induction "is" arbitrary: s)
  case (Cons i "is")
  obtain s1 acts where s1: "step i s = (s1, acts)"
    by fastforce
  have "reacts step s s1"
    unfolding reacts_def by (rule exI [of _ i]) (simp add: s1)
  with Cons.prems have "reachable start (reacts step) s1"
    by (rule reach_step)
  from Cons.IH [OF this] show ?case
    by (cases "run_inputs step is s1") (simp add: s1)
qed simp

end
