(* ===== verification/ConnManager.thy ===== *)
theory ConnManager
  imports Tunnel Loopback StepSystems
begin

text \<open>
  The connection manager of \<open>src/openai/connection.rs\<close>: one shared iroh connection, dialled when
  it is needed, replaced when opening a stream on it fails, with a bound on the reconnects of one
  call. Every session of the OpenAI client and its health check use it at the same time.

  The first part has the operations as they run in one task. The mutex \<open>current\<close> and the counter
  \<open>next_id\<close> are shared, so they live in the world: while the task awaits something, the other
  tasks may change them. The second part has the same operations as steps of any number of
  tasks, split at the points where a task can be suspended, and proves what holds whatever the
  interleaving.
\<close>

section \<open>State\<close>

record 'h ManagedOpenAiConnection =
  mc_id :: u64
  mc_connection :: 'h

text \<open>The manager's own state; the endpoint and the server's address are the environment's \<open>op_dial\<close>.\<close>

record 'h OpenAiConnectionManager =
  current :: "'h ManagedOpenAiConnection option"
  next_id :: u64

definition new_manager :: "'h OpenAiConnectionManager" where
  "new_manager = \<lparr>current = None, next_id = 1\<rparr>"

text \<open>\<open>next_id.fetch_add(1)\<close> and \<open>*current = Some(managed)\<close>.\<close>

definition install :: "'h \<Rightarrow> 'h OpenAiConnectionManager \<Rightarrow> 'h ManagedOpenAiConnection \<times> 'h OpenAiConnectionManager" where
  "install conn m =
    (let managed = \<lparr>mc_id = next_id m, mc_connection = conn\<rparr>
     in (managed, m\<lparr>next_id := next_id m + 1, current := Some managed\<rparr>))"

definition forget :: "u64 \<Rightarrow> 'h OpenAiConnectionManager \<Rightarrow> 'h OpenAiConnectionManager" where
  "forget failed m =
    (if (case current m of None \<Rightarrow> False | Some c \<Rightarrow> mc_id c = failed) then m\<lparr>current := None\<rparr> else m)"

section \<open>Operations\<close>

text \<open>
  The world also holds the manager. \<open>op_lock\<close> waits for the mutex, while others run; \<open>False\<close>
  means that it is never released.
\<close>

record ('w, 'h) manager_env = "('w, 'h) env" +
  op_lock :: "'w \<Rightarrow> bool \<times> 'w"
  op_manager :: "'w \<Rightarrow> 'h OpenAiConnectionManager"
  op_set_manager :: "'h OpenAiConnectionManager \<Rightarrow> 'w \<Rightarrow> 'w"

definition lock_current ::
  "('w, 'h, 'z) manager_env_scheme \<Rightarrow> ('w, 'h, 'e, 'h ManagedOpenAiConnection option) act" where
  "lock_current E w =
    (case op_lock E w of
       (True, w1) \<Rightarrow> (Done (current (op_manager E w1)), w1, [])
     | (False, w1) \<Rightarrow> (Hang, w1, []))"

definition set_manager ::
  "('w, 'h, 'z) manager_env_scheme \<Rightarrow> 'h OpenAiConnectionManager \<Rightarrow> ('w, 'h, 'e, unit) act" where
  "set_manager E m w = (Done (), op_set_manager E m w, [])"

definition install_connection ::
  "('w, 'h, 'z) manager_env_scheme \<Rightarrow> 'h \<Rightarrow> ('w, 'h, 'e, 'h ManagedOpenAiConnection) act" where
  "install_connection E conn w =
    (case install conn (op_manager E w) of (managed, m) \<Rightarrow> (Done managed, op_set_manager E m w, []))"

definition manager_dial ::
  "('w, 'h, 'z) manager_env_scheme \<Rightarrow> duration \<Rightarrow> ('w, 'h, anyhow_error, 'h ManagedOpenAiConnection) act" where
  "manager_dial E connect_timeout =
    andthen (lock_current E) (\<lambda>now.
    case now of
      Some managed \<Rightarrow> ret managed
    | None \<Rightarrow>
        andthen (timeout E connect_timeout (dial E)) (\<lambda>result.
        case result of
          Elapsed \<Rightarrow> raise (Message ''timed out connecting to iroh OpenAI proxy server'')
        | Completed (Inl err) \<Rightarrow> raise (IoErr err)
        | Completed (Inr conn) \<Rightarrow> install_connection E conn))"

definition manager_connection ::
  "('w, 'h, 'z) manager_env_scheme \<Rightarrow> duration \<Rightarrow> ('w, 'h, anyhow_error, 'h ManagedOpenAiConnection) act" where
  "manager_connection E connect_timeout =
    andthen (lock_current E) (\<lambda>now.
    case now of
      Some managed \<Rightarrow> ret managed
    | None \<Rightarrow> manager_dial E connect_timeout)"

definition manager_connect ::
  "('w, 'h, 'z) manager_env_scheme \<Rightarrow> duration \<Rightarrow> ('w, 'h, anyhow_error, unit) act" where
  "manager_connect E connect_timeout =
    andthen (set_manager E new_manager) (\<lambda>_.
    andthen (manager_connection E connect_timeout) (\<lambda>_.
    ret ()))"

definition invalidate :: "('w, 'h, 'z) manager_env_scheme \<Rightarrow> u64 \<Rightarrow> ('w, 'h, 'e, unit) act" where
  "invalidate E failed =
    andthen (lock_current E) (\<lambda>_ w.
    (Done (), op_set_manager E (forget failed (op_manager E w)) w, []))"

function open_bi_with_reconnect ::
  "('w, 'h, 'z) manager_env_scheme \<Rightarrow> duration \<Rightarrow> nat \<Rightarrow> duration \<Rightarrow> ('w, 'h, anyhow_error, 'h \<times> 'h) act" where
  "open_bi_with_reconnect E connect_timeout remaining_reconnects operation_timeout =
    andthen (manager_connection E connect_timeout) (\<lambda>managed.
    andthen (timeout E operation_timeout (open_stream E (mc_connection managed))) (\<lambda>result.
    case result of
      Completed (Inr streams) \<Rightarrow> ret streams
    | Completed (Inl err) \<Rightarrow>
        andthen (invalidate E (mc_id managed)) (\<lambda>_.
        if remaining_reconnects = 0 then raise (IoErr err)
        else open_bi_with_reconnect E connect_timeout (remaining_reconnects - 1) operation_timeout)
    | Elapsed \<Rightarrow>
        andthen (invalidate E (mc_id managed)) (\<lambda>_.
        if remaining_reconnects = 0 then raise (Message ''timed out opening iroh OpenAI proxy stream'')
        else open_bi_with_reconnect E connect_timeout (remaining_reconnects - 1) operation_timeout)))"
  by pat_completeness auto
termination
  by (relation "measure (\<lambda>(E, c, n, t). n)") auto

declare open_bi_with_reconnect.simps [simp del]

section \<open>The attempts of one call\<close>

text \<open>The streams a run opened or failed to open, and the connections it dialled or failed to dial.\<close>

fun opens :: "'h event list \<Rightarrow> ('h \<times> (io_error, 'h \<times> 'h) outcome) list" where
  "opens [] = []"
| "opens (Open_stream_ev c r # es) = (c, r) # opens es"
| "opens (_ # es) = opens es"

fun dials :: "'h event list \<Rightarrow> (io_error, 'h) outcome list" where
  "dials [] = []"
| "dials (Dial_ev r # es) = r # dials es"
| "dials (_ # es) = dials es"

fun succeeded :: "('e, 'a) outcome \<Rightarrow> bool" where
  "succeeded (Done x) = True"
| "succeeded _ = False"

lemma stream_opens_append [simp]: "opens (es @ fs) = opens es @ opens fs"
  by (induction es rule: opens.induct) simp_all

lemma dials_append [simp]: "dials (es @ fs) = dials es @ dials fs"
  by (induction es rule: dials.induct) simp_all

lemma lock_current_run: "lock_current E w = (r, w1, es) \<Longrightarrow> es = [] \<and> (\<forall>e. r \<noteq> Fail e)"
  by (auto simp: lock_current_def split: prod.splits bool.splits)

lemma install_connection_run:
  "install_connection E conn w = (r, w1, es) \<Longrightarrow> es = [] \<and> (\<exists>m. r = Done m \<and> mc_connection m = conn)"
  by (auto simp: install_connection_def install_def Let_def)

lemma timeout_dial_run:
  "timeout E d (dial E) w = (r, w1, es) \<Longrightarrow>
    \<exists>res. opens es = [] \<and> dials es = [res] \<and>
      r = Done (case res of Done x \<Rightarrow> Completed (Inr x) | Fail e \<Rightarrow> Completed (Inl e) | Hang \<Rightarrow> Elapsed)"
  by (auto simp: dial_def call_def elim!: timeout_runs split: prod.splits)

lemma timeout_open_run:
  "timeout E d (open_stream E c) w = (r, w1, es) \<Longrightarrow>
    \<exists>res. opens es = [(c, res)] \<and> dials es = [] \<and>
      r = Done (case res of Done x \<Rightarrow> Completed (Inr x) | Fail e \<Rightarrow> Completed (Inl e) | Hang \<Rightarrow> Elapsed)"
  by (auto simp: open_stream_def call_def elim!: timeout_runs split: prod.splits)

lemma invalidate_run: "invalidate E i w = (r, w1, es) \<Longrightarrow> es = [] \<and> (\<forall>e. r \<noteq> Fail e)"
  unfolding invalidate_def by (auto elim!: andthen_runs dest: lock_current_run)

text \<open>What one call of \<open>connection()\<close> does: at most one dial, and no error but a failed dial.\<close>

definition connected :: "'h event list \<Rightarrow> ('e, 'h ManagedOpenAiConnection) outcome \<Rightarrow> bool" where
  "connected es r \<longleftrightarrow> opens es = [] \<and>
    (dials es = [] \<and> (\<forall>e. r \<noteq> Fail e) \<or>
     (\<exists>res. dials es = [res] \<and> (if succeeded res then \<exists>m. r = Done m else \<exists>e. r = Fail e)))"

lemma manager_dial_run:
  assumes "manager_dial E d w = (r, w1, es)"
  shows "connected es r"
  using assms unfolding manager_dial_def
proof (cases rule: andthen_runs)
  case (ran now w2 es1 es2)
  have es1: "es1 = []"
    using lock_current_run [OF ran(1)] by simp
  show ?thesis
  proof (cases now)
    case None
    from ran(2) have "andthen (timeout E d (dial E)) (\<lambda>result.
        case result of
          Elapsed \<Rightarrow> raise (Message ''timed out connecting to iroh OpenAI proxy server'')
        | Completed (Inl err) \<Rightarrow> raise (IoErr err)
        | Completed (Inr conn) \<Rightarrow> install_connection E conn) w2 = (r, w1, es2)"
      by (simp add: None)
    then show ?thesis
    proof (cases rule: andthen_runs)
      case inner: (ran result w3 es3 es4)
      from timeout_dial_run [OF inner(1)] obtain res where res: "opens es3 = []" "dials es3 = [res]"
        "result = (case res of Done x \<Rightarrow> Completed (Inr x) | Fail e \<Rightarrow> Completed (Inl e) | Hang \<Rightarrow> Elapsed)"
        by auto
      show ?thesis
        using inner(2) res
        by (cases res) (auto simp: raise_def connected_def ran(3) inner(3) es1 dest!: install_connection_run)
    qed (auto dest!: timeout_dial_run)
  qed (use ran es1 in \<open>auto simp: ret_def connected_def\<close>)
qed (auto simp: connected_def dest: lock_current_run)

lemma manager_connection_run:
  assumes "manager_connection E d w = (r, w1, es)"
  shows "connected es r"
  using assms unfolding manager_connection_def
proof (cases rule: andthen_runs)
  case (ran now w2 es1 es2)
  have "es1 = []"
    using lock_current_run [OF ran(1)] by simp
  then show ?thesis
    using ran(2,3) by (cases now) (auto simp: ret_def connected_def [of "[]"] dest: manager_dial_run)
qed (auto simp: connected_def dest: lock_current_run)

definition attempts_of :: "nat \<Rightarrow> 'h event list \<Rightarrow> (anyhow_error, 'h \<times> 'h) outcome \<Rightarrow> bool" where
  "attempts_of n es r \<longleftrightarrow>
    length (opens es) \<le> n + 1 \<and> length (dials es) \<le> n + 1 \<and>
    (case r of
       Done streams \<Rightarrow>
         \<exists>before conn. opens es = before @ [(conn, Done streams)] \<and> list_all (\<lambda>(c, res). \<not> succeeded res) before
     | Fail e \<Rightarrow>
         list_all (\<lambda>(c, res). \<not> succeeded res) (opens es) \<and>
         (length (opens es) = n + 1 \<or> (\<exists>before res. dials es = before @ [res] \<and> \<not> succeeded res))
     | Hang \<Rightarrow> list_all (\<lambda>(c, res). \<not> succeeded res) (opens es))"

text \<open>A failed attempt before the rest of the attempts.\<close>

lemma attempts_of_more:
  assumes "attempts_of n es2 r" and "opens es1 = [(c, res)]" and "\<not> succeeded res" and "length (dials es1) \<le> 1"
  shows "attempts_of (Suc n) (es1 @ es2) r"
proof (cases r)
  case (Done streams)
  with assms obtain before conn where "opens es2 = before @ [(conn, Done streams)]"
      "list_all (\<lambda>(c, res). \<not> succeeded res) before"
    by (auto simp: attempts_of_def)
  with assms Done show ?thesis
    by (auto simp: attempts_of_def intro!: exI [of _ "(c, res) # before"])
next
  case (Fail e)
  with assms show ?thesis
    by (auto simp: attempts_of_def)
qed (use assms in \<open>auto simp: attempts_of_def\<close>)

lemma open_bi_run:
  "open_bi_with_reconnect E d n t w = (r, w1, es) \<Longrightarrow> attempts_of n es r"
proof (induction n arbitrary: w es rule: less_induct)
  case (less n)
  from less.prems have run: "andthen (manager_connection E d) (\<lambda>managed.
    andthen (timeout E t (open_stream E (mc_connection managed))) (\<lambda>result.
    case result of
      Completed (Inr streams) \<Rightarrow> ret streams
    | Completed (Inl err) \<Rightarrow>
        andthen (invalidate E (mc_id managed)) (\<lambda>_.
        if n = 0 then raise (IoErr err) else open_bi_with_reconnect E d (n - 1) t)
    | Elapsed \<Rightarrow>
        andthen (invalidate E (mc_id managed)) (\<lambda>_.
        if n = 0 then raise (Message ''timed out opening iroh OpenAI proxy stream'')
        else open_bi_with_reconnect E d (n - 1) t))) w = (r, w1, es)"
    by (subst (asm) open_bi_with_reconnect.simps)
  then show ?case
  proof (cases rule: andthen_runs)
    case (ran managed w2 es1 es2)
    note con = manager_connection_run [OF ran(1), unfolded connected_def]
    from ran(2) show ?thesis
    proof (cases rule: andthen_runs)
      case inner: (ran result w3 es3 es4)
      from timeout_open_run [OF inner(1)] obtain res where res: "opens es3 = [(mc_connection managed, res)]"
        "dials es3 = []"
        "result = (case res of Done x \<Rightarrow> Completed (Inr x) | Fail e \<Rightarrow> Completed (Inl e) | Hang \<Rightarrow> Elapsed)"
        by auto
      show ?thesis
      proof (cases "succeeded res")
        case True
        then show ?thesis
          using inner(2) res con by (cases res) (auto simp: ret_def attempts_of_def ran(3) inner(3))
      next
        case False
        define final where "final = (case res of Fail err \<Rightarrow> IoErr err
          | _ \<Rightarrow> Message ''timed out opening iroh OpenAI proxy stream'')"
        from False have "andthen (invalidate E (mc_id managed)) (\<lambda>_.
            if n = 0 then raise final else open_bi_with_reconnect E d (n - 1) t) w3 = (r, w1, es4)"
          using inner(2) res(3) by (cases res; cases "n = 0") (simp_all add: final_def)
        then show ?thesis
        proof (cases rule: andthen_runs)
          case last: (ran u w4 es5 es6)
          have es5: "es5 = []"
            using invalidate_run [OF last(1)] by simp
          show ?thesis
          proof (cases n)
            case 0
            then show ?thesis
              using last(2) False res con by (auto simp: raise_def attempts_of_def ran(3) inner(3) last(3) es5)
          next
            case (Suc k)
            then have "attempts_of k es6 r"
              using last(2) less.IH [of k] by simp
            then have "attempts_of (Suc k) ((es1 @ es3) @ es6) r"
              by (rule attempts_of_more) (use False res con in auto)
            then show ?thesis
              by (simp add: ran(3) inner(3) last(3) es5 Suc)
          qed
        qed (use False res con in \<open>auto simp: attempts_of_def ran(3) inner(3) dest: invalidate_run\<close>)
      qed
    qed (auto dest!: timeout_open_run)
  next
    case (failed e)
    with manager_connection_run [OF failed(1)] show ?thesis
      by (auto simp: connected_def attempts_of_def split: if_splits intro: exI [of _ "[]"])
  next
    case hung
    with manager_connection_run [OF hung(1)] show ?thesis
      by (auto simp: connected_def attempts_of_def)
  qed
qed

section \<open>Many tasks\<close>

text \<open>
  A task in \<open>open_bi_with_reconnect\<close>, at the points where it can be suspended: about to lock in
  \<open>connection()\<close> or in \<open>dial()\<close>, connecting with the lock held, opening a stream, about to lock in
  \<open>invalidate\<close>. The number is \<open>remaining_reconnects\<close>.
\<close>

datatype 'h task =
    Idle
  | WantConnection nat
  | WantDial nat
  | Dialing nat
  | Opening nat "'h ManagedOpenAiConnection"
  | WantInvalidate nat "'h ManagedOpenAiConnection"
  | Opened
  | GaveUp

text \<open>\<open>history\<close> is not part of the program: it records the connections dialled, newest first.\<close>

record 'h mgr_state =
  manager :: "'h OpenAiConnectionManager"
  lock_holder :: "nat option"
  tasks :: "nat \<Rightarrow> 'h task"
  history :: "'h ManagedOpenAiConnection list"

definition mgr_start :: "'h mgr_state \<Rightarrow> bool" where
  "mgr_start s \<longleftrightarrow> s = \<lparr>manager = new_manager, lock_holder = None, tasks = (\<lambda>_. Idle), history = []\<rparr>"

fun finished_task :: "'h task \<Rightarrow> bool" where
  "finished_task Idle = True"
| "finished_task Opened = True"
| "finished_task GaveUp = True"
| "finished_task _ = False"

definition goto :: "nat \<Rightarrow> 'h task \<Rightarrow> 'h mgr_state \<Rightarrow> 'h mgr_state" where
  "goto i p s = s\<lparr>tasks := (tasks s)(i := p)\<rparr>"

text \<open>One step of task \<open>i\<close>, after its call began.\<close>

inductive mgr_move :: "nat \<Rightarrow> 'h mgr_state \<Rightarrow> 'h mgr_state \<Rightarrow> bool" for i :: nat where
  connection_hit:
    "\<lbrakk> tasks s i = WantConnection n; lock_holder s = None; current (manager s) = Some c \<rbrakk> \<Longrightarrow>
      mgr_move i s (goto i (Opening n c) s)"
| connection_miss:
    "\<lbrakk> tasks s i = WantConnection n; lock_holder s = None; current (manager s) = None \<rbrakk> \<Longrightarrow>
      mgr_move i s (goto i (WantDial n) s)"
| dial_hit:
    "\<lbrakk> tasks s i = WantDial n; lock_holder s = None; current (manager s) = Some c \<rbrakk> \<Longrightarrow>
      mgr_move i s (goto i (Opening n c) s)"
| dial_begin:
    "\<lbrakk> tasks s i = WantDial n; lock_holder s = None; current (manager s) = None \<rbrakk> \<Longrightarrow>
      mgr_move i s (goto i (Dialing n) s\<lparr>lock_holder := Some i\<rparr>)"
| dial_connected:
    "\<lbrakk> tasks s i = Dialing n; install conn (manager s) = (c, m) \<rbrakk> \<Longrightarrow>
      mgr_move i s (goto i (Opening n c) s\<lparr>manager := m, lock_holder := None, history := c # history s\<rparr>)"
| dial_failed:
    "tasks s i = Dialing n \<Longrightarrow> mgr_move i s (goto i GaveUp s\<lparr>lock_holder := None\<rparr>)"
| open_succeeded: "tasks s i = Opening n c \<Longrightarrow> mgr_move i s (goto i Opened s)"
| open_failed: "tasks s i = Opening n c \<Longrightarrow> mgr_move i s (goto i (WantInvalidate n c) s)"
| invalidated:
    "\<lbrakk> tasks s i = WantInvalidate n c; lock_holder s = None \<rbrakk> \<Longrightarrow>
      mgr_move i s (goto i (if n = 0 then GaveUp else WantConnection (n - 1)) s
        \<lparr>manager := forget (mc_id c) (manager s)\<rparr>)"

text \<open>
  All steps: a task begins a call with any number of reconnects, moves, or is dropped (its \<open>JoinHandle\<close>
  is aborted), which releases a lock it holds.
\<close>

inductive mgr_step :: "'h mgr_state \<Rightarrow> 'h mgr_state \<Rightarrow> bool" where
  call_begin: "finished_task (tasks s i) \<Longrightarrow> mgr_step s (goto i (WantConnection n) s)"
| call_move: "mgr_move i s t \<Longrightarrow> mgr_step s t"
| call_drop:
    "mgr_step s (goto i Idle s\<lparr>lock_holder := (if lock_holder s = Some i then None else lock_holder s)\<rparr>)"

inductive_cases mgr_stepE: "mgr_step s t"
inductive_cases mgr_moveE: "mgr_move i s t"

abbreviation mgr_reachable :: "'h mgr_state \<Rightarrow> bool" where
  "mgr_reachable \<equiv> reachable mgr_start mgr_step"

lemma goto_sel [simp]:
  "manager (goto i p s) = manager s"
  "lock_holder (goto i p s) = lock_holder s"
  "history (goto i p s) = history s"
  "tasks (goto i p s) = (tasks s)(i := p)"
  by (simp_all add: goto_def)

lemma goto_manager: "goto i p (s\<lparr>manager := m\<rparr>) = goto i p s\<lparr>manager := m\<rparr>"
  by (simp add: goto_def)

text \<open>The connection a task works with.\<close>

fun uses :: "'h task \<Rightarrow> 'h ManagedOpenAiConnection set" where
  "uses (Opening n c) = {c}"
| "uses (WantInvalidate n c) = {c}"
| "uses _ = {}"

definition dialing :: "'h task \<Rightarrow> bool" where
  "dialing p \<longleftrightarrow> (case p of Dialing n \<Rightarrow> True | _ \<Rightarrow> False)"

lemma dialing_simps [simp]:
  "dialing (Dialing n)"
  "\<not> dialing Idle" "\<not> dialing (WantConnection n)" "\<not> dialing (WantDial n)" "\<not> dialing (Opening n c)"
  "\<not> dialing (WantInvalidate n c)" "\<not> dialing Opened" "\<not> dialing GaveUp"
  by (simp_all add: dialing_def)

text \<open>The ids are handed out in order, by a 64-bit counter that starts at 1.\<close>

fun numbered :: "'h ManagedOpenAiConnection list \<Rightarrow> bool" where
  "numbered [] = True"
| "numbered (c # cs) = (mc_id c = of_nat (length cs + 1) \<and> numbered cs)"

definition mgr_inv :: "'h mgr_state \<Rightarrow> bool" where
  "mgr_inv s \<longleftrightarrow>
    (\<forall>i. dialing (tasks s i) \<longleftrightarrow> lock_holder s = Some i) \<and>
    (lock_holder s \<noteq> None \<longrightarrow> current (manager s) = None) \<and>
    (\<forall>c. current (manager s) = Some c \<longrightarrow> (\<exists>cs. history s = c # cs)) \<and>
    (\<forall>i. uses (tasks s i) \<subseteq> set (history s)) \<and>
    numbered (history s) \<and>
    next_id (manager s) = of_nat (length (history s) + 1)"

lemma mgr_inv_start: "mgr_start s \<Longrightarrow> mgr_inv s"
  by (simp add: mgr_start_def mgr_inv_def new_manager_def)

lemma forget_sel:
  "next_id (forget i m) = next_id m"
  "current (forget i m) = Some c \<longleftrightarrow> current m = Some c \<and> mc_id c \<noteq> i"
  "current m = None \<Longrightarrow> current (forget i m) = None"
  by (auto simp: forget_def split: option.splits)

lemma mgr_invD:
  assumes "mgr_inv s"
  shows "dialing (tasks s i) \<longleftrightarrow> lock_holder s = Some i"
    and "lock_holder s = Some i \<Longrightarrow> current (manager s) = None"
    and "current (manager s) = Some c \<Longrightarrow> \<exists>cs. history s = c # cs"
    and "current (manager s) = Some c \<Longrightarrow> c \<in> set (history s)"
    and "uses (tasks s i) \<subseteq> set (history s)"
    and "numbered (history s)"
    and "next_id (manager s) = of_nat (length (history s) + 1)"
  using assms unfolding mgr_inv_def by auto

text \<open>The steps that change nothing but the task, and the ways to release the lock.\<close>

lemma mgr_inv_goto:
  assumes "mgr_inv s" and "lock_holder s \<noteq> Some i" and "\<not> dialing p" and "uses p \<subseteq> set (history s)"
  shows "mgr_inv (goto i p s)"
  using assms unfolding mgr_inv_def by auto

lemma mgr_inv_release:
  assumes "mgr_inv s" and "\<not> dialing p" and "uses p \<subseteq> set (history s)"
  shows "mgr_inv (goto i p s\<lparr>lock_holder := (if lock_holder s = Some i then None else lock_holder s)\<rparr>)"
  using assms unfolding mgr_inv_def by auto

lemma mgr_inv_move:
  assumes inv: "mgr_inv s" and "mgr_move i s t"
  shows "mgr_inv t"
  using assms(2)
proof cases
  case (dial_begin n)
  then show ?thesis
    using inv by (auto simp: mgr_inv_def)
next
  case (dial_connected n conn c m)
  then have "lock_holder s = Some i"
    using mgr_invD(1) [OF inv, of i] by simp
  with dial_connected show ?thesis
    using inv unfolding mgr_inv_def by (auto simp: install_def Let_def)
next
  case (dial_failed n)
  then have "lock_holder s = Some i"
    using mgr_invD(1) [OF inv, of i] by simp
  with mgr_inv_release [OF inv, of GaveUp i] dial_failed show ?thesis
    by simp
next
  case (invalidated n c)
  have "mgr_inv (s\<lparr>manager := forget (mc_id c) (manager s)\<rparr>)"
    using inv by (auto simp: mgr_inv_def forget_sel)
  then have "mgr_inv (goto i (if n = 0 then GaveUp else WantConnection (n - 1)) (s\<lparr>manager := forget (mc_id c) (manager s)\<rparr>))"
    by (rule mgr_inv_goto) (use invalidated in \<open>simp_all split: if_split\<close>)
  then show ?thesis
    unfolding invalidated(1) goto_manager .
next
  case (open_failed n c)
  with mgr_invD(1,5) [OF inv, of i] show ?thesis
    by (auto intro!: mgr_inv_goto [OF inv])
next
  case (open_succeeded n c)
  with mgr_invD(1) [OF inv, of i] show ?thesis
    by (auto intro!: mgr_inv_goto [OF inv])
qed (auto intro!: mgr_inv_goto [OF inv] dest: mgr_invD(4) [OF inv])

lemma mgr_inv_step:
  assumes inv: "mgr_inv s" and "mgr_step s t"
  shows "mgr_inv t"
  using assms(2)
proof cases
  case (call_begin i n)
  then have "lock_holder s \<noteq> Some i"
    using mgr_invD(1) [OF inv, of i] by (cases "tasks s i") auto
  with call_begin show ?thesis
    by (auto intro!: mgr_inv_goto [OF inv])
next
  case (call_move i)
  then show ?thesis
    by (auto intro: mgr_inv_move [OF inv])
next
  case (call_drop i)
  then show ?thesis
    using mgr_inv_release [OF inv, of Idle i] by simp
qed

interpretation manager_invariant: invariant_of mgr_start mgr_step mgr_inv
  by unfold_locales (auto intro: mgr_inv_start mgr_inv_step)

text \<open>Ids are unique as long as the counter has not wrapped.\<close>

lemma numbered_ids:
  "\<lbrakk> numbered cs; c \<in> set cs \<rbrakk> \<Longrightarrow> \<exists>k. k \<le> length cs \<and> mc_id c = of_nat k"
proof (induction cs)
  case (Cons d cs)
  show ?case
  proof (cases "c = d")
    case True
    then show ?thesis
      using Cons.prems by (intro exI [of _ "length cs + 1"]) simp
  next
    case False
    then show ?thesis
      using Cons by (auto intro: le_SucI)
  qed
qed simp

lemma of_nat_u64_eq: "\<lbrakk> j < 2 ^ 64; k < 2 ^ 64; (of_nat j :: u64) = of_nat k \<rbrakk> \<Longrightarrow> j = k"
  by (drule arg_cong [where f = unat]) (simp add: unat_of_nat)

lemma numbered_distinct: "\<lbrakk> numbered cs; length cs < 2 ^ 64 \<rbrakk> \<Longrightarrow> distinct (map mc_id cs)"
proof (induction cs)
  case (Cons c cs)
  have "mc_id c \<noteq> mc_id d" if d: "d \<in> set cs" for d
  proof -
    from numbered_ids [OF _ d] Cons.prems obtain k where k: "k \<le> length cs" "mc_id d = of_nat k"
      by auto
    with Cons.prems of_nat_u64_eq [of "length cs + 1" k] show ?thesis
      by auto
  qed
  then show ?case
    using Cons by (auto simp del: of_nat_Suc)
qed simp

lemma mgr_same_id:
  assumes "mgr_inv s" and "length (history s) < 2 ^ 64" and "c \<in> set (history s)" "d \<in> set (history s)" and "mc_id c = mc_id d"
  shows "c = d"
  using numbered_distinct [OF mgr_invD(6) [OF assms(1)] assms(2)] assms(3-5)
  by (simp add: distinct_map inj_on_def)

section \<open>Every call ends\<close>

fun task_work :: "'h task \<Rightarrow> nat" where
  "task_work (WantConnection n) = 5 * n + 5"
| "task_work (WantDial n) = 5 * n + 4"
| "task_work (Dialing n) = 5 * n + 3"
| "task_work (Opening n c) = 5 * n + 2"
| "task_work (WantInvalidate n c) = 5 * n + 1"
| "task_work _ = 0"

definition active :: "'h mgr_state \<Rightarrow> nat set" where
  "active s = {i. \<not> finished_task (tasks s i)}"

definition mgr_work :: "'h mgr_state \<Rightarrow> nat" where
  "mgr_work s = (\<Sum>i \<in> active s. task_work (tasks s i))"

abbreviation mgr_moves :: "'h mgr_state \<Rightarrow> 'h mgr_state \<Rightarrow> bool" where
  "mgr_moves s t \<equiv> \<exists>i. mgr_move i s t"

lemma mgr_move_work: "mgr_move i s t \<Longrightarrow> task_work (tasks t i) < task_work (tasks s i) \<and> (\<forall>j. j \<noteq> i \<longrightarrow> tasks t j = tasks s j)"
  by (erule mgr_moveE) auto

lemma task_work_active: "task_work (tasks s i) = 0 \<longleftrightarrow> i \<notin> active s"
  by (cases "tasks s i") (simp_all add: active_def)

lemma mgr_moves_work:
  assumes "finite (active s)" and "mgr_moves s t"
  shows "finite (active t) \<and> mgr_work t < mgr_work s"
proof -
  from assms(2) obtain i where i: "mgr_move i s t"
    by blast
  note w = mgr_move_work [OF i]
  have sub: "active t \<subseteq> active s"
  proof
    fix j assume "j \<in> active t"
    then show "j \<in> active s"
      using w task_work_active [of t j] task_work_active [of s j] by (cases "j = i") auto
  qed
  then have fin: "finite (active t)"
    using assms(1) by (rule finite_subset)
  have "mgr_work t = (\<Sum>j \<in> active s. task_work (tasks t j))"
    unfolding mgr_work_def using assms(1) sub by (intro sum.mono_neutral_left) (auto simp: task_work_active)
  also have "\<dots> < (\<Sum>j \<in> active s. task_work (tasks s j))"
  proof (rule sum_strict_mono_ex1 [OF assms(1)])
    show "\<forall>j \<in> active s. task_work (tasks t j) \<le> task_work (tasks s j)"
    proof
      fix j show "task_work (tasks t j) \<le> task_work (tasks s j)"
        using w by (cases "j = i") auto
    qed
    show "\<exists>j \<in> active s. task_work (tasks t j) < task_work (tasks s j)"
      using w task_work_active [of s i] by auto
  qed
  finally show ?thesis
    using fin by (simp add: mgr_work_def)
qed

definition mgr_good :: "'h mgr_state \<Rightarrow> bool" where
  "mgr_good s \<longleftrightarrow> mgr_inv s \<and> finite (active s)"

lemma mgr_can_move:
  assumes "mgr_inv s" and "i \<in> active s"
  shows "\<exists>t. mgr_moves s t"
proof (cases "lock_holder s")
  case (Some j)
  then obtain n where "tasks s j = Dialing n"
    using mgr_invD(1) [OF assms(1), of j] by (auto simp: dialing_def split: task.splits)
  then show ?thesis
    by (blast intro: mgr_move.dial_failed)
next
  case None
  then show ?thesis
    using assms mgr_invD(1) [OF assms(1), of i]
    by (cases "tasks s i"; cases "current (manager s)") (auto simp: active_def intro: mgr_move.intros)
qed

interpretation manager_settling: settling mgr_moves mgr_good "\<lambda>s. active s = {}" mgr_work
proof unfold_locales
  fix s :: "'h mgr_state"
  assume "mgr_good s" "active s \<noteq> {}"
  then obtain i where "mgr_inv s" "i \<in> active s"
    by (auto simp: mgr_good_def)
  then obtain t where t: "mgr_moves s t"
    using mgr_can_move [of s i] by blast
  with \<open>mgr_good s\<close> mgr_moves_work [of s t] show "\<exists>t. mgr_moves s t \<and> mgr_good t \<and> mgr_work t < mgr_work s"
    unfolding mgr_good_def by (blast intro: mgr_inv_move)
qed

lemma mgr_good_step: "\<lbrakk> mgr_good s; mgr_step s t \<rbrakk> \<Longrightarrow> mgr_good t"
proof -
  assume s: "mgr_good s" and step: "mgr_step s t"
  from step have "finite (active t)"
  proof cases
    case (call_begin i n)
    then have "active t \<subseteq> insert i (active s)"
      by (auto simp: active_def)
    with s show ?thesis
      by (auto simp: mgr_good_def intro: finite_subset)
  next
    case (call_move i)
    with s mgr_moves_work [of s t] show ?thesis
      by (auto simp: mgr_good_def)
  next
    case (call_drop i)
    then have "active t \<subseteq> active s"
      by (auto simp: active_def split: if_splits)
    with s show ?thesis
      by (auto simp: mgr_good_def intro: finite_subset)
  qed
  with s step show "mgr_good t"
    by (auto simp: mgr_good_def intro: mgr_inv_step)
qed

lemma mgr_good_start: "mgr_start s \<Longrightarrow> mgr_good s"
  by (simp add: mgr_good_def mgr_inv_start) (simp add: active_def mgr_start_def)

interpretation manager_goodness: invariant_of mgr_start mgr_step mgr_good
  by unfold_locales (fact mgr_good_start, fact mgr_good_step)

lemma mgr_moves_bounded: "\<lbrakk> finite (active s); (mgr_moves ^^ k) s t \<rbrakk> \<Longrightarrow> k \<le> mgr_work s"
proof (induction k arbitrary: s)
  case (Suc k)
  then obtain u where u: "mgr_moves s u" "(mgr_moves ^^ k) u t"
    by (blast elim: relpowp_Suc_E2)
  with mgr_moves_work [OF Suc.prems(1) u(1)] Suc.IH [of u] show ?case
    by auto
qed simp

section \<open>Instances\<close>

text \<open>The loopback environment with a mutex that is always free.\<close>

definition manager_loop_env :: "(loop_world, nat) manager_env" where
  "manager_loop_env = env.extend ending_env
    (manager_env.fields (\<lambda>w. (True, w))
      (\<lambda>w. \<lparr>current = map_option (\<lambda>(i, c). \<lparr>mc_id = i, mc_connection = c\<rparr>) (loop_managed w), next_id = loop_next_id w\<rparr>)
      (\<lambda>m w. w\<lparr>loop_managed := map_option (\<lambda>c. (mc_id c, mc_connection c)) (current m), loop_next_id := next_id m\<rparr>))"

lemma manager_loop_sel:
  "op_lock manager_loop_env w = (True, w)"
  "op_manager manager_loop_env w =
    \<lparr>current = map_option (\<lambda>(i, c). \<lparr>mc_id = i, mc_connection = c\<rparr>) (loop_managed w), next_id = loop_next_id w\<rparr>"
  "op_set_manager manager_loop_env m w =
    w\<lparr>loop_managed := map_option (\<lambda>c. (mc_id c, mc_connection c)) (current m), loop_next_id := next_id m\<rparr>"
  "op_deadline manager_loop_env d w = w"
  "op_dial manager_loop_env = loop_dial"
  "op_open_stream manager_loop_env c = loop_open_bi"
  "op_write_all manager_loop_env = loop_write_all"
  "op_finish manager_loop_env = loop_finish"
  "op_shutdown manager_loop_env = loop_finish"
  "op_read manager_loop_env = loop_read"
  "op_flush manager_loop_env h w = (Done (), w)"
  "op_read_exact manager_loop_env = loop_read_exact"
  "op_fill_buf manager_loop_env = loop_fill_chunk"
  "op_consume manager_loop_env = take_inbox"
  "op_buffer manager_loop_env = loop_buffer"
  by (simp_all add: manager_loop_env_def env.defs manager_env.defs ending_env_def loop_env_def)

lemma manager_loop_connection:
  "manager_connection manager_loop_env d w =
    (case loop_managed w of
       Some (i, c) \<Rightarrow> (Done \<lparr>mc_id = i, mc_connection = c\<rparr>, w, [])
     | None \<Rightarrow>
         (case loop_dial w of
            (res, w1) \<Rightarrow>
              (case res of
                 Done c \<Rightarrow> (Done \<lparr>mc_id = loop_next_id w1, mc_connection = c\<rparr>,
                   w1\<lparr>loop_managed := Some (loop_next_id w1, c), loop_next_id := loop_next_id w1 + 1\<rparr>,
                   [Deadline_ev (Some d), Dial_ev res, Deadline_ev None])
               | Fail e \<Rightarrow> (Fail (IoErr e), w1, [Deadline_ev (Some d), Dial_ev res, Deadline_ev None])
               | Hang \<Rightarrow> (Fail (Message ''timed out connecting to iroh OpenAI proxy server''), w1,
                   [Deadline_ev (Some d), Dial_ev res, Deadline_ev None]))))"
  by (simp add: manager_connection_def manager_dial_def lock_current_def install_connection_def install_def Let_def
      manager_loop_sel andthen_def ret_def raise_def timeout_def dial_def call_def
      split: option.split outcome.split prod.split)

lemma manager_loop_invalidate:
  "invalidate manager_loop_env i w =
    (Done (), if map_option fst (loop_managed w) = Some i then w\<lparr>loop_managed := None\<rparr> else w, [])"
  by (cases "loop_managed w")
    (simp_all add: invalidate_def lock_current_def forget_def manager_loop_sel andthen_def split: prod.split)

text \<open>Evaluation of a call with at most one reconnect.\<close>

lemmas manager_eval =
  manager_loop_connection manager_loop_invalidate manager_loop_sel
  open_bi_with_reconnect.simps [of _ _ 0] open_bi_with_reconnect.simps [of _ _ "Suc 0"]

interpretation manager_source: buffered_source manager_loop_env inbox "\<lambda>_. True"
proof -
  have same: "op_read_exact manager_loop_env = op_read_exact ending_env"
    "op_write_all manager_loop_env = op_write_all ending_env" "op_flush manager_loop_env = op_flush ending_env"
    "op_deadline manager_loop_env = op_deadline ending_env" "op_fill_buf manager_loop_env = op_fill_buf ending_env"
    "op_consume manager_loop_env = op_consume ending_env"
    by (simp_all add: manager_loop_env_def env.defs manager_env.defs ending_env_def loop_env_def)
  show "buffered_source manager_loop_env inbox (\<lambda>_. True)"
    using ending_source.buffered_source_axioms
    unfolding buffered_source_def buffered_source_axioms_def byte_source_def same .
qed

text \<open>A run of the concurrent system: a task connects, its first stream fails.\<close>

definition example_connection :: "nat ManagedOpenAiConnection" where
  "example_connection = \<lparr>mc_id = 1, mc_connection = 7\<rparr>"

definition example_mgr :: "nat task \<Rightarrow> nat mgr_state" where
  "example_mgr p = \<lparr>manager = \<lparr>current = Some example_connection, next_id = 2\<rparr>, lock_holder = None,
    tasks = (\<lambda>_. Idle)(0 := p), history = [example_connection]\<rparr>"

lemma mgr_begins: "\<lbrakk> mgr_reachable s; finished_task (tasks s i) \<rbrakk> \<Longrightarrow> mgr_reachable (goto i (WantConnection n) s)"
  by (erule reach_step) (rule call_begin)

lemma mgr_moves_on: "\<lbrakk> mgr_reachable s; mgr_move i s t; t = u \<rbrakk> \<Longrightarrow> mgr_reachable u"
  by (auto intro: reach_step call_move)

lemma example_mgr_opening: "mgr_reachable (example_mgr (Opening 1 example_connection))"
proof -
  let ?s0 = "\<lparr>manager = new_manager, lock_holder = None, tasks = (\<lambda>_. Idle), history = []\<rparr> :: nat mgr_state"
  let ?s1 = "goto 0 (WantConnection 1) ?s0"
  let ?s2 = "goto 0 (WantDial 1) ?s1"
  let ?s3 = "goto 0 (Dialing 1) ?s2\<lparr>lock_holder := Some 0\<rparr>"
  have "mgr_reachable ?s0"
    by (rule reach_start) (simp add: mgr_start_def)
  then have "mgr_reachable ?s1"
    by (rule mgr_begins) simp
  then have "mgr_reachable ?s2"
    by (rule mgr_moves_on) (rule mgr_move.connection_miss, simp_all add: new_manager_def)
  then have "mgr_reachable ?s3"
    by (rule mgr_moves_on) (rule mgr_move.dial_begin, simp_all add: new_manager_def)
  then show ?thesis
    by (rule mgr_moves_on)
      (rule mgr_move.dial_connected [of _ 0 1 7],
        simp_all add: install_def Let_def new_manager_def example_connection_def goto_def example_mgr_def)
qed

lemma example_mgr_failed: "mgr_reachable (example_mgr (WantInvalidate 1 example_connection))"
  using example_mgr_opening
  by (rule mgr_moves_on) (rule mgr_move.open_failed [of _ 0 1], simp_all add: goto_def example_mgr_def)

section \<open>The theorems\<close>

text \<open>C7: whatever the tasks that share the manager do, and in whatever order: at most one of them is
  dialling; a connection that is current is the newest one dialled, and nobody is then dialling;
  every connection in use was dialled; and ids tell connections apart, as long as fewer
  than 2^64 connections were dialled.\<close>

theorem manager_shared_safely:
  assumes "mgr_reachable s"
  shows "(\<forall>i j. dialing (tasks s i) \<and> dialing (tasks s j) \<longrightarrow> i = j) \<and>
    (case current (manager s) of None \<Rightarrow> True | Some c \<Rightarrow> lock_holder s = None \<and> history s = c # tl (history s)) \<and>
    (\<forall>i. uses (tasks s i) \<subseteq> set (history s)) \<and>
    (length (history s) < 2 ^ 64 \<longrightarrow> distinct (map mc_id (history s)))"
proof -
  have inv: "mgr_inv s"
    by (rule manager_invariant.holds [OF assms])
  then have "lock_holder s = None \<and> history s = c # tl (history s)" if "current (manager s) = Some c" for c
    using that mgr_invD(3) [OF inv that] by (cases "lock_holder s") (auto dest: mgr_invD(2))
  with mgr_invD [OF inv] show ?thesis
    by (auto simp: numbered_distinct split: option.split)
qed

theorem manager_shared_safely_witness:
  "\<exists>s :: nat mgr_state. mgr_reachable s \<and> dialing (tasks s 0) = False \<and> current (manager s) = Some example_connection \<and>
    history s = example_connection # tl (history s)"
  using manager_shared_safely [OF example_mgr_opening] example_mgr_opening
  by (intro exI [of _ "example_mgr (Opening 1 example_connection)"]) (simp add: example_mgr_def)

text \<open>C15: a working connection is not lost to a late failure. A step that takes the current connection
  away is a move of a task that failed to open a stream on that very connection; a task that
  reports the failure of an older connection leaves the current one alone.\<close>

theorem stale_failure_keeps_connection:
  assumes "mgr_reachable s" and "mgr_step s t" and "length (history s) < 2 ^ 64" and "current (manager s) = Some c"
  shows "current (manager t) = Some c \<or>
    current (manager t) = None \<and> (\<exists>i n. tasks s i = WantInvalidate n c \<and> mgr_move i s t)"
proof -
  have inv: "mgr_inv s"
    by (rule manager_invariant.holds [OF assms(1)])
  from assms(2) show ?thesis
  proof cases
    case (call_move i)
    from call_move(1) show ?thesis
    proof cases
      case (dial_connected n conn c' m)
      then have "current (manager s) = None"
        using mgr_invD(1,2) [OF inv, of i] by simp
      with assms(4) show ?thesis
        by simp
    next
      case (invalidated n d)
      show ?thesis
      proof (cases "mc_id d = mc_id c")
        case True
        have "d \<in> set (history s)"
          using mgr_invD(5) [OF inv, of i] invalidated by auto
        with mgr_same_id [OF inv assms(3)] True mgr_invD(4) [OF inv assms(4)] have "d = c"
          by blast
        with invalidated assms(4) call_move(1) show ?thesis
          by (auto simp: forget_def)
      next
        case False
        with invalidated assms(4) show ?thesis
          by (auto simp: forget_def)
      qed
    qed (use assms(4) in simp_all)
  qed (use assms(4) in simp_all)
qed

theorem stale_failure_keeps_connection_witness:
  "\<exists>s t :: nat mgr_state. mgr_step s t \<and> current (manager s) = Some example_connection \<and>
    current (manager t) = None \<and> (\<exists>i n. tasks s i = WantInvalidate n example_connection \<and> mgr_move i s t)"
proof -
  let ?s = "example_mgr (WantInvalidate 1 example_connection)"
  let ?t = "goto 0 (WantConnection 0) ?s\<lparr>manager := forget (mc_id example_connection) (manager ?s)\<rparr>"
  have step: "mgr_step ?s ?t"
    using mgr_move.invalidated [of ?s 0 1 example_connection]
    by (intro call_move [of 0]) (simp add: example_mgr_def)
  have now: "current (manager ?s) = Some example_connection" and gone: "current (manager ?t) = None"
    by (simp_all add: example_mgr_def forget_def)
  have "length (history ?s) < 2 ^ 64"
    by (simp add: example_mgr_def)
  from stale_failure_keeps_connection [OF example_mgr_failed step this now] gone
  have "\<exists>i n. tasks ?s i = WantInvalidate n example_connection \<and> mgr_move i ?s ?t"
    by simp
  with step now gone show ?thesis
    by blast
qed

text \<open>C16: every call ends. From every reachable state some continuation brings all running calls to their
  end, and every sequence of their moves is at most as long as the work they have left: for
  each call five moves per remaining reconnect, and the rest of its attempt. (A connect, an open and
  a lock wait are moves that end: the first two are under a timeout, and a lock is only held over a connect.)\<close>

theorem every_call_ends:
  assumes "mgr_reachable s"
  shows "(\<exists>t. mgr_moves\<^sup>*\<^sup>* s t \<and> active t = {}) \<and>
    (\<forall>k t. (mgr_moves ^^ k) s t \<longrightarrow> k \<le> mgr_work s)"
proof -
  have good: "mgr_good s"
    by (rule manager_goodness.holds [OF assms])
  then show ?thesis
    using manager_settling.settles [OF good] mgr_moves_bounded [of s] by (auto simp: mgr_good_def)
qed

theorem every_call_ends_witness:
  "mgr_work (example_mgr (Opening 1 example_connection)) = 7 \<and>
    (\<exists>t. mgr_moves\<^sup>*\<^sup>* (example_mgr (Opening 1 example_connection)) t \<and> active t = {})"
proof -
  have "active (example_mgr (Opening 1 example_connection)) = {0}"
    by (auto simp: active_def example_mgr_def)
  then have "mgr_work (example_mgr (Opening 1 example_connection)) = 7"
    by (simp add: mgr_work_def) (simp add: example_mgr_def)
  with every_call_ends [OF example_mgr_opening] show ?thesis
    by blast
qed

text \<open>C30: the attempts of one call. A call with \<open>n\<close> reconnects opens at most \<open>n + 1\<close> streams and dials at
  most \<open>n + 1\<close> times, and returns the streams of the only attempt that succeeded. It gives up only when all
  \<open>n + 1\<close> attempts failed, or at the first dial that fails: the reconnects that are left are not used then.\<close>

theorem reconnect_attempts_bounded:
  assumes "open_bi_with_reconnect E d n t w = (r, w1, es)"
  shows "length (opens es) \<le> n + 1 \<and> length (dials es) \<le> n + 1 \<and>
    (case r of
       Done streams \<Rightarrow>
         \<exists>before conn. opens es = before @ [(conn, Done streams)] \<and> list_all (\<lambda>(c, res). \<not> succeeded res) before
     | Fail e \<Rightarrow>
         list_all (\<lambda>(c, res). \<not> succeeded res) (opens es) \<and>
         (length (opens es) = n + 1 \<or> (\<exists>before res. dials es = before @ [res] \<and> \<not> succeeded res))
     | Hang \<Rightarrow> list_all (\<lambda>(c, res). \<not> succeeded res) (opens es))"
  using open_bi_run [OF assms] unfolding attempts_of_def .

text \<open>In the instance the first stream fails, and the reconnect succeeds.\<close>

theorem reconnect_attempts_bounded_witness:
  "\<exists>w1 es. open_bi_with_reconnect manager_loop_env 10 1 10
      (empty_world\<lparr>new_connections := [Done 5, Done 6], new_streams := [Fail TimedOut, Done (1, 2)]\<rparr>) =
      (Done (1, 2), w1, es) \<and> opens es = [(5, Fail TimedOut), (6, Done (1, 2))] \<and> length (dials es) \<le> 2"
proof -
  let ?w = "empty_world\<lparr>new_connections := [Done 5, Done 6], new_streams := [Fail TimedOut, Done (1, 2)]\<rparr>"
  obtain w1 es where run: "open_bi_with_reconnect manager_loop_env 10 1 10 ?w = (Done (1, 2), w1, es)"
    and opens: "opens es = [(5, Fail TimedOut), (6, Done (1, 2))]"
    by (simp add: manager_eval loop_eval)
  from reconnect_attempts_bounded [OF run] run opens show ?thesis
    by simp
qed

end
