(* ===== verification/OpenAiClient.thy ===== *)
theory OpenAiClient
  imports HttpCalls ConnManager OpenAiConfig
begin

text \<open>
  The OpenAI proxy client, \<open>src/openai/client_handler.rs\<close>: it reads one local HTTP request, opens a tunnel
  stream through the connection manager, sends the request's bytes and copies the response back, with an
  idle timeout; and it checks the tunnel's health.

  A read of a QUIC stream into a non-empty buffer delivers some bytes, at most as many as the buffer holds,
  or, at the end, none: the empty list. The copy loop and the health check's read loop are bounded
  by the peer only; \<open>fuel\<close> bounds them in the model, and a loop that needs more is still running (\<open>Hang\<close>).
\<close>

section \<open>Answers to the local application\<close>

definition write_error_and_shutdown ::
  "('w, 'h, 'z) env_scheme \<Rightarrow> 'h \<Rightarrow> nat \<Rightarrow> rstring \<Rightarrow> rstring \<Rightarrow> ('w, 'h, unit) handler" where
  "write_error_and_shutdown E local_write code why text =
    andthen (map_err IoErr (write_plain_error E local_write code why text)) (\<lambda>_.
    andthen (map_err IoErr (shutdown E local_write)) (\<lambda>_.
    ret ()))"

abbreviation gateway_timeout :: "('w, 'h, 'z) env_scheme \<Rightarrow> 'h \<Rightarrow> ('w, 'h, unit) handler" where
  "gateway_timeout E local_write \<equiv>
    write_error_and_shutdown E local_write 504 (ascii ''Gateway Timeout'') (ascii ''gateway timeout'')"

definition read_local_openai_request ::
  "http_lib \<Rightarrow> ('w, 'h, 'z) env_scheme \<Rightarrow> 'h \<Rightarrow> 'h \<Rightarrow> duration \<Rightarrow> ('w, 'h, u8 list option) handler" where
  "read_local_openai_request L E local_read local_write local_request_timeout =
    andthen (timeout E local_request_timeout (read_one_local_http_request L E local_read)) (\<lambda>result.
    case result of
      Completed (Inr request) \<Rightarrow> ret (Some request)
    | Completed (Inl err) \<Rightarrow>
        (let response = error_response err in
        andthen (write_error_and_shutdown E local_write (status response) (reason response) (body response)) (\<lambda>_.
        ret None))
    | Elapsed \<Rightarrow>
        andthen (write_error_and_shutdown E local_write 408 (ascii ''Request Timeout'') (ascii ''request timeout'')) (\<lambda>_.
        ret None))"

section \<open>The tunnel\<close>

definition open_openai_stream ::
  "('w, 'h, 'z) manager_env_scheme \<Rightarrow> 'h \<Rightarrow> duration \<Rightarrow> nat \<Rightarrow> duration \<Rightarrow> ('w, 'h, ('h \<times> 'h) option) handler" where
  "open_openai_stream E local_write connect_timeout reconnect_attempts tunnel_operation_timeout =
    andthen (attempt (open_bi_with_reconnect E connect_timeout reconnect_attempts tunnel_operation_timeout)) (\<lambda>result.
    case result of
      Inr streams \<Rightarrow> ret (Some streams)
    | Inl err \<Rightarrow>
        andthen (gateway_timeout E local_write) (\<lambda>_.
        ret None))"

definition send_request_to_tunnel ::
  "('w, 'h, 'z) env_scheme \<Rightarrow> 'h \<Rightarrow> 'h \<Rightarrow> u8 list \<Rightarrow> duration \<Rightarrow> ('w, 'h, bool) handler" where
  "send_request_to_tunnel E send local_write request tunnel_operation_timeout =
    andthen (timeout E tunnel_operation_timeout (write_all E send request)) (\<lambda>result.
    case result of
      Completed (Inr _) \<Rightarrow>
        andthen (map_err IoErr (finish E send)) (\<lambda>_.
        ret True)
    | Completed (Inl err) \<Rightarrow> raise (IoErr err)
    | Elapsed \<Rightarrow>
        andthen (ignore (finish E send)) (\<lambda>_.
        andthen (gateway_timeout E local_write) (\<lambda>_.
        ret False)))"

datatype TunnelResponseCopyState = WaitingForFirstByte | Streaming

text \<open>A chunk is the first bytes of the buffer; the model carries them.\<close>

datatype TunnelResponseReadOutcome = Chunk "u8 list" | TimeoutBeforeFirstByte | Complete

definition read_tunnel_response_chunk ::
  "('w, 'h, 'z) env_scheme \<Rightarrow> 'h \<Rightarrow> duration \<Rightarrow> TunnelResponseCopyState \<Rightarrow>
    ('w, 'h, TunnelResponseReadOutcome) handler" where
  "read_tunnel_response_chunk E recv idle_timeout state =
    andthen (timeout E idle_timeout (read_some E recv)) (\<lambda>result.
    case result of
      Completed (Inr bytes) \<Rightarrow> if bytes = [] then ret Complete else ret (Chunk bytes)
    | Completed (Inl err) \<Rightarrow> raise (IoErr err)
    | Elapsed \<Rightarrow> if state = WaitingForFirstByte then ret TimeoutBeforeFirstByte else ret Complete)"

primrec copy_response_loop ::
  "nat \<Rightarrow> ('w, 'h, 'z) env_scheme \<Rightarrow> 'h \<Rightarrow> 'h \<Rightarrow> duration \<Rightarrow> TunnelResponseCopyState \<Rightarrow> ('w, 'h, unit) handler" where
  "copy_response_loop 0 E recv local_write idle_timeout state = hang"
| "copy_response_loop (Suc fuel) E recv local_write idle_timeout state =
    andthen (read_tunnel_response_chunk E recv idle_timeout state) (\<lambda>outcome.
    case outcome of
      Chunk bytes \<Rightarrow>
        andthen (map_err IoErr (write_all E local_write bytes)) (\<lambda>_.
        copy_response_loop fuel E recv local_write idle_timeout Streaming)
    | TimeoutBeforeFirstByte \<Rightarrow>
        andthen (map_err IoErr
          (write_plain_error E local_write 504 (ascii ''Gateway Timeout'') (ascii ''gateway timeout''))) (\<lambda>_.
        ret ())
    | Complete \<Rightarrow> ret ())"

definition copy_tunnel_response_with_idle_timeout ::
  "nat \<Rightarrow> ('w, 'h, 'z) env_scheme \<Rightarrow> 'h \<Rightarrow> 'h \<Rightarrow> duration \<Rightarrow> ('w, 'h, unit) handler" where
  "copy_tunnel_response_with_idle_timeout fuel E recv local_write idle_timeout =
    copy_response_loop fuel E recv local_write idle_timeout WaitingForFirstByte"

definition handle_openai_client_stream ::
  "nat \<Rightarrow> http_lib \<Rightarrow> ('w, 'h, 'z) manager_env_scheme \<Rightarrow> 'h \<Rightarrow> 'h \<Rightarrow> OpenAiClientConfig \<Rightarrow> ('w, 'h, unit) handler" where
  "handle_openai_client_stream fuel L E local_read local_write config =
    andthen (read_local_openai_request L E local_read local_write (oc_local_request_timeout config)) (\<lambda>requested.
    case requested of
      None \<Rightarrow> ret ()
    | Some request \<Rightarrow>
        andthen (open_openai_stream E local_write (oc_connect_timeout config) (oc_reconnect_attempts config)
          (oc_tunnel_operation_timeout config)) (\<lambda>opened.
        case opened of
          None \<Rightarrow> ret ()
        | Some (send, recv) \<Rightarrow>
            andthen (send_request_to_tunnel E send local_write request (oc_tunnel_operation_timeout config)) (\<lambda>sent.
            if \<not> sent then ret ()
            else
              andthen (copy_tunnel_response_with_idle_timeout fuel E recv local_write (oc_tunnel_operation_timeout config)) (\<lambda>_.
              andthen (map_err IoErr (shutdown E local_write)) (\<lambda>_.
              ret ())))))"

section \<open>Health checks\<close>

definition health_request :: "u8 list" where
  "health_request = ascii ''GET /__tunnelAI/healthz HTTP/1.1'' @ CRLF @ ascii ''Host: tunnelAI'' @ CRLF @ CRLF"

text \<open>\<open>response.windows(4).any(...)\<close>.\<close>

fun has_window :: "u8 list \<Rightarrow> u8 list \<Rightarrow> bool" where
  "has_window pat [] = (pat = [])"
| "has_window pat (b # bs) = (starts_with (b # bs) pat \<or> has_window pat bs)"

primrec health_response_loop ::
  "nat \<Rightarrow> ('w, 'h, 'z) env_scheme \<Rightarrow> 'h \<Rightarrow> duration \<Rightarrow> u8 list \<Rightarrow> ('w, 'h, u8 list) handler" where
  "health_response_loop 0 E recv operation_timeout response = hang"
| "health_response_loop (Suc fuel) E recv operation_timeout response =
    andthen (timeout E operation_timeout (read_some E recv)) (\<lambda>result.
    case result of
      Elapsed \<Rightarrow> raise (Message ''timed out reading OpenAI proxy health check response'')
    | Completed (Inl err) \<Rightarrow> raise (IoErr err)
    | Completed (Inr bytes) \<Rightarrow>
        if bytes = [] then ret response
        else if has_window (CRLF @ CRLF) (response @ bytes) then ret (response @ bytes)
        else health_response_loop fuel E recv operation_timeout (response @ bytes))"

definition run_openai_health_check ::
  "nat \<Rightarrow> ('w, 'h, 'z) manager_env_scheme \<Rightarrow> duration \<Rightarrow> duration \<Rightarrow> nat \<Rightarrow> ('w, 'h, unit) handler" where
  "run_openai_health_check fuel E connect_timeout operation_timeout reconnect_attempts =
    andthen (open_bi_with_reconnect E connect_timeout reconnect_attempts operation_timeout) (\<lambda>(send, recv).
    andthen (timeout E operation_timeout (write_all E send health_request)) (\<lambda>result.
    case result of
      Elapsed \<Rightarrow> raise (Message ''timed out writing OpenAI proxy health check'')
    | Completed (Inl err) \<Rightarrow> raise (IoErr err)
    | Completed (Inr _) \<Rightarrow>
        andthen (map_err IoErr (finish E send)) (\<lambda>_.
        andthen (health_response_loop fuel E recv operation_timeout []) (\<lambda>response.
        if starts_with response (ascii ''HTTP/1.1 200'') then ret ()
        else raise (Message ''OpenAI proxy health check returned non-200 response'')))))"

text \<open>The background loop, for a number of ticks of its timer: a failed check is logged, and the loop goes on.\<close>

primrec openai_health_check_loop ::
  "nat \<Rightarrow> nat \<Rightarrow> ('w, 'h, 'z) manager_env_scheme \<Rightarrow> duration \<Rightarrow> duration \<Rightarrow> nat \<Rightarrow> ('w, 'h, unit) handler" where
  "openai_health_check_loop 0 fuel E connect_timeout operation_timeout reconnect_attempts = hang"
| "openai_health_check_loop (Suc ticks) fuel E connect_timeout operation_timeout reconnect_attempts =
    andthen (ignore (run_openai_health_check fuel E connect_timeout operation_timeout reconnect_attempts)) (\<lambda>_.
    openai_health_check_loop ticks fuel E connect_timeout operation_timeout reconnect_attempts)"

section \<open>Copying the response\<close>

text \<open>The copy against its specification: every byte received is passed on before the next read.\<close>

lemma read_chunk_run:
  assumes "read_tunnel_response_chunk E recv d state w = (r, w1, es)"
  shows "sent h es = [] \<and>
    (case r of
       Done (Chunk bytes) \<Rightarrow> received recv es = bytes \<and> bytes \<noteq> []
     | Done TimeoutBeforeFirstByte \<Rightarrow> received recv es = [] \<and> state = WaitingForFirstByte
     | _ \<Rightarrow> received recv es = [])"
  using assms unfolding read_tunnel_response_chunk_def
  by (rule timeout_then_runs) (auto simp: read_some_def call_def ret_def raise_def split: prod.splits outcome.splits if_splits)

definition copied :: "'h \<Rightarrow> 'h \<Rightarrow> TunnelResponseCopyState \<Rightarrow> 'h event list \<Rightarrow> bool" where
  "copied recv out state es \<longleftrightarrow>
    sent out es = received recv es \<or>
    state = WaitingForFirstByte \<and> received recv es = [] \<and>
      sent out es = plain_response_bytes 504 (ascii ''Gateway Timeout'') (ascii ''gateway timeout'')"

lemma write_plain_received: "emits (\<lambda>e. received_by h e = []) (\<lambda>_. True) (write_plain_response E out code why text)"
  unfolding write_plain_response_def by (auto intro!: calls_rules)

lemma received_none: "list_all (\<lambda>e. received_by h e = []) es \<Longrightarrow> received h es = []"
  by (induction es) auto

lemma copy_response_run:
  "copy_response_loop fuel E recv out d state w = (Done (), w1, es) \<Longrightarrow> copied recv out state es"
proof (induction fuel arbitrary: state w es)
  case (Suc fuel)
  from Suc.prems have "andthen (read_tunnel_response_chunk E recv d state) (\<lambda>outcome.
    case outcome of
      Chunk bytes \<Rightarrow>
        andthen (map_err IoErr (write_all E out bytes)) (\<lambda>_. copy_response_loop fuel E recv out d Streaming)
    | TimeoutBeforeFirstByte \<Rightarrow>
        andthen (map_err IoErr (write_plain_error E out 504 (ascii ''Gateway Timeout'') (ascii ''gateway timeout''))) (\<lambda>_. ret ())
    | Complete \<Rightarrow> ret ()) w = (Done (), w1, es)"
    by (simp only: copy_response_loop.simps)
  then show ?case
  proof (cases rule: andthen_runs)
    case (ran outcome w2 es1 es2)
    note read = read_chunk_run [OF ran(1), of out]
    show ?thesis
    proof (cases outcome)
      case (Chunk bytes)
      with ran(2) have "andthen (map_err IoErr (write_all E out bytes)) (\<lambda>_. copy_response_loop fuel E recv out d Streaming) w2 =
          (Done (), w1, es2)"
        by simp
      then show ?thesis
      proof (cases rule: andthen_runs)
        case inner: (ran x w3 es3 es4)
        have "sent out es3 = bytes" "received recv es3 = []"
          using inner(1) by (auto simp: write_all_def call_def Done_map_outcome elim!: map_err_runs split: prod.splits)
        with Suc.IH [OF inner(2)] read Chunk show ?thesis
          by (simp add: copied_def ran(3) inner(3))
      qed simp_all
    next
      case TimeoutBeforeFirstByte
      with ran(2) have "andthen (map_err IoErr (write_plain_response E out 504 (ascii ''Gateway Timeout'') (ascii ''gateway timeout'')))
          (\<lambda>_. ret ()) w2 = (Done (), w1, es2)"
        by (simp add: write_plain_error_def)
      then have "sent out es2 = plain_response_bytes 504 (ascii ''Gateway Timeout'') (ascii ''gateway timeout'') \<and> received recv es2 = []"
      proof (cases rule: andthen_runs)
        case inner: (ran x w3 es3 es4)
        from inner(1) have run: "write_plain_response E out 504 (ascii ''Gateway Timeout'') (ascii ''gateway timeout'') w2 = (Done (), w3, es3)"
          by (rule map_err_runs) (simp add: Done_map_outcome)
        from sendsD [OF write_plain_response_sends run] emitsD [OF write_plain_received run, of recv] inner(2,3)
        show ?thesis
          by (simp add: ret_def received_none)
      qed simp_all
      with read TimeoutBeforeFirstByte show ?thesis
        by (simp add: copied_def ran(3))
    next
      case Complete
      with read ran(2,3) show ?thesis
        by (simp add: ret_def copied_def)
    qed
  qed simp_all
qed (simp add: hang_def)

section \<open>A whole session\<close>

lemma opens_reads: "list_all (request_reads h) es \<Longrightarrow> opens es = [] \<and> dials es = [] \<and> (k \<noteq> h \<longrightarrow> received k es = [])"
proof (induction es)
  case (Cons e es)
  moreover have "received_by k e = []" if "k \<noteq> h" "request_reads h e"
    using that by (cases e) (auto simp: received_by_read split: outcome.split)
  ultimately show ?case by (cases e) auto
qed simp

text \<open>The calls of \<open>open_bi_with_reconnect\<close>, and of the answers.\<close>

fun connects_only :: "'h event \<Rightarrow> bool" where
  "connects_only (Dial_ev r) \<longleftrightarrow> True"
| "connects_only (Open_stream_ev c r) \<longleftrightarrow> True"
| "connects_only (Deadline_ev d) \<longleftrightarrow> True"
| "connects_only _ \<longleftrightarrow> False"

lemma lock_calls: "emits P (\<lambda>_. True) (lock_current E)"
  by (auto simp: emits_def lock_current_def split: prod.splits bool.splits)

lemma install_calls: "emits P (\<lambda>_. True) (install_connection E conn)"
  by (auto simp: emits_def install_connection_def split: prod.splits)

lemma invalidate_calls: "emits P (\<lambda>_. True) (invalidate E i)"
  unfolding invalidate_def by (rule calls_andthen [OF lock_calls]) (simp add: emits_def)

lemma manager_connection_calls: "emits connects_only (\<lambda>_. True) (manager_connection E d)"
  unfolding manager_connection_def manager_dial_def
  by (auto intro!: calls_rules lock_calls install_calls split: option.split timed.split sum.split)

lemma open_bi_calls: "emits connects_only (\<lambda>_. True) (open_bi_with_reconnect E d n t)"
proof (induction n rule: less_induct)
  case (less n)
  then show ?case
    by (subst open_bi_with_reconnect.simps)
      (auto intro!: calls_rules manager_connection_calls invalidate_calls split: timed.split sum.split)
qed

lemma connects_only_quiet: "list_all connects_only es \<Longrightarrow> sent k es = [] \<and> received k es = []"
proof (induction es)
  case (Cons e es)
  then show ?case by (cases e) auto
qed simp

fun shuts :: "'h \<Rightarrow> 'h event \<Rightarrow> bool" where
  "shuts h (Write_all_ev h' bs r) \<longleftrightarrow> h' = h"
| "shuts h (Shutdown_ev h' r) \<longleftrightarrow> h' = h"
| "shuts h _ \<longleftrightarrow> False"

lemma sent_by_write:
  "sent_by k (Write_all_ev h bs r) = (case r of Done u \<Rightarrow> if h = k then bs else [] | _ \<Rightarrow> [])"
  by (cases r) simp_all

lemma shuts_quiet: "list_all (shuts h) es \<Longrightarrow> opens es = [] \<and> dials es = [] \<and> received k es = [] \<and> (k \<noteq> h \<longrightarrow> sent k es = [])"
proof (induction es)
  case (Cons e es)
  moreover have "sent_by k e = []" if "k \<noteq> h" "shuts h e"
    using that by (cases e) (auto simp: sent_by_write split: outcome.split)
  ultimately show ?case by (cases e) auto
qed simp

lemma local_answer_calls: "emits (shuts h) (\<lambda>_. True) (write_error_and_shutdown E h code why text)"
  unfolding write_error_and_shutdown_def write_plain_error_def write_plain_response_def by (auto intro!: calls_rules)

definition stays_local :: "'h \<Rightarrow> 'h event list \<Rightarrow> bool" where
  "stays_local h es \<longleftrightarrow> opens es = [] \<and> dials es = [] \<and> (\<forall>k. received k es = []) \<and> (\<forall>k. k \<noteq> h \<longrightarrow> sent k es = [])"

lemma local_refusal_run:
  assumes "andthen (write_error_and_shutdown E h code why text) (\<lambda>_. ret x) w = (r, w1, es)"
  shows "stays_local h es \<and> (\<forall>y. r = Done y \<longrightarrow> y = x \<and> plainly_answered h code why text es)"
proof
  have "emits (shuts h) (\<lambda>_. True) (andthen (write_error_and_shutdown E h code why text) (\<lambda>_. ret x))"
    by (intro calls_andthen calls_ret local_answer_calls)
  from emitsD [OF this assms] show "stays_local h es"
    using shuts_quiet [of h es] by (simp add: stays_local_def)
  show "\<forall>y. r = Done y \<longrightarrow> y = x \<and> plainly_answered h code why text es"
  proof (intro allI impI)
    fix y assume r: "r = Done y"
    from assms [unfolded r] show "y = x \<and> plainly_answered h code why text es"
    proof (cases rule: andthen_runs)
      case (ran u w2 es1 es2)
      from plain_then_close_run [OF ran(1) [unfolded write_error_and_shutdown_def write_plain_error_def] shutdown_closes] ran(2,3)
      show ?thesis
        by (simp add: ret_def)
    qed simp_all
  qed
qed

text \<open>How a local request that was not read is refused.\<close>

definition refusal_of :: "(HttpRequestError, 'a) outcome \<Rightarrow> nat \<times> rstring \<times> rstring" where
  "refusal_of got =
    (case got of
       Fail err \<Rightarrow> (status (error_response err), reason (error_response err), body (error_response err))
     | _ \<Rightarrow> (408, ascii ''Request Timeout'', ascii ''request timeout''))"

definition refused_with :: "'h \<Rightarrow> nat \<times> rstring \<times> rstring \<Rightarrow> 'h event list \<Rightarrow> bool" where
  "refused_with h refusal es \<longleftrightarrow> (case refusal of (code, why, text) \<Rightarrow> plainly_answered h code why text es)"

lemma plainly_answered_quiet:
  "sent h es = [] \<Longrightarrow> plainly_answered h code why text fs \<Longrightarrow> plainly_answered h code why text (es @ fs)"
  by (simp add: plainly_answered_def)

lemma read_local_run:
  assumes "read_local_openai_request L E local_read lw t w = (r, w1, es)"
    and "read_one_local_http_request L E local_read (op_deadline E (Some t) w) = (got, w2, es2)"
  shows "opens es = [] \<and> dials es = [] \<and> (\<forall>k. k \<noteq> local_read \<longrightarrow> received k es = []) \<and>
    (\<forall>k. k \<noteq> lw \<longrightarrow> sent k es = []) \<and>
    (case got of
       Done raw \<Rightarrow> r = Done (Some raw) \<and> sent lw es = []
     | _ \<Rightarrow> \<forall>y. r = Done y \<longrightarrow> y = None \<and> refused_with lw (refusal_of got) es)"
proof -
  have "list_all (request_reads local_read) es2"
    using emitsD [OF read_one_local_calls assms(2)] by simp
  note reads = opens_reads [OF this] request_reads_quiet [OF this, unfolded quiet_def]
  from assms(1) [unfolded read_local_openai_request_def] obtain fs where
    es: "es = (Deadline_ev (Some t) # es2 @ [Deadline_ev None]) @ fs"
    and rest: "(case (case got of Done x \<Rightarrow> Completed (Inr x) | Fail e \<Rightarrow> Completed (Inl e) | Hang \<Rightarrow> Elapsed) of
        Completed (Inr request) \<Rightarrow> ret (Some request)
      | Completed (Inl err) \<Rightarrow>
          (let response = error_response err in
          andthen (write_error_and_shutdown E lw (status response) (reason response) (body response)) (\<lambda>_. ret None))
      | Elapsed \<Rightarrow>
          andthen (write_error_and_shutdown E lw 408 (ascii ''Request Timeout'') (ascii ''request timeout'')) (\<lambda>_.
          ret None)) (op_deadline E None w2) = (r, w1, fs)"
    by (rule timeout_then_runs) (use assms(2) in auto)
  show ?thesis
  proof (cases got)
    case (Done raw)
    then show ?thesis
      using rest reads by (simp add: es ret_def)
  next
    case (Fail err)
    then have "andthen (write_error_and_shutdown E lw (status (error_response err)) (reason (error_response err))
        (body (error_response err))) (\<lambda>_. ret None) (op_deadline E None w2) = (r, w1, fs)"
      using rest by (simp add: Let_def)
    from local_refusal_run [OF this] reads Fail show ?thesis
      by (auto simp: es stays_local_def refused_with_def refusal_of_def plainly_answered_def)
  next
    case Hang
    then have "andthen (write_error_and_shutdown E lw 408 (ascii ''Request Timeout'') (ascii ''request timeout''))
        (\<lambda>_. ret None) (op_deadline E None w2) = (r, w1, fs)"
      using rest by simp
    from local_refusal_run [OF this] reads Hang show ?thesis
      by (auto simp: es stays_local_def refused_with_def refusal_of_def plainly_answered_def)
  qed
qed

abbreviation timed_out_locally :: "'h \<Rightarrow> 'h event list \<Rightarrow> bool" where
  "timed_out_locally lw es \<equiv> plainly_answered lw 504 (ascii ''Gateway Timeout'') (ascii ''gateway timeout'') es"

lemma open_openai_stream_run:
  assumes "open_openai_stream E lw d n t w = (r, w1, es)"
  shows "(\<forall>k. received k es = []) \<and> (\<forall>k. k \<noteq> lw \<longrightarrow> sent k es = []) \<and> length (opens es) \<le> n + 1 \<and>
    (\<forall>y. r = Done y \<longrightarrow>
      (case y of
         Some streams \<Rightarrow> sent lw es = [] \<and> (\<exists>before conn. opens es = before @ [(conn, Done streams)])
       | None \<Rightarrow> timed_out_locally lw es))"
proof -
  obtain got w2 es1 where run: "open_bi_with_reconnect E d n t w = (got, w2, es1)"
    by (rule act_run)
  have "list_all connects_only es1"
    using emitsD [OF open_bi_calls run] by simp
  note quiet1 = connects_only_quiet [OF this]
  note attempts = open_bi_run [OF run, unfolded attempts_of_def]
  show ?thesis
  proof (cases got)
    case (Done streams)
    then have "r = Done (Some streams)" "es = es1"
      using assms run by (simp_all add: open_openai_stream_def andthen_def attempt_def ret_def)
    with Done quiet1 attempts show ?thesis
      by auto
  next
    case (Fail err)
    then obtain fs where es: "es = es1 @ fs"
      and rest: "andthen (gateway_timeout E lw) (\<lambda>_. ret None) w2 = (r, w1, fs)"
      using assms run
      by (auto simp: open_openai_stream_def andthen_def [of "attempt m" for m] attempt_def split: prod.splits)
    from local_refusal_run [OF rest] quiet1 attempts Fail show ?thesis
      by (auto simp: es stays_local_def plainly_answered_def)
  next
    case Hang
    then have "r = Hang" "es = es1"
      using assms run by (simp_all add: open_openai_stream_def andthen_def attempt_def)
    with Hang quiet1 attempts show ?thesis
      by simp
  qed
qed

lemma send_request_run:
  assumes "send_request_to_tunnel E send lw raw t w = (r, w1, es)"
  shows "opens es = [] \<and> (\<forall>k. received k es = []) \<and>
    (\<forall>y. r = Done y \<longrightarrow>
      (if y then sent send es = raw \<and> list_ex (closes send) es \<and> (lw \<noteq> send \<longrightarrow> sent lw es = [])
       else timed_out_locally lw es))"
proof -
  from assms [unfolded send_request_to_tunnel_def] obtain got w2 es1 fs where
    wr: "write_all E send raw (op_deadline E (Some t) w) = (got, w2, es1)"
    and rest: "(case (case got of Done x \<Rightarrow> Completed (Inr x) | Fail e \<Rightarrow> Completed (Inl e) | Hang \<Rightarrow> Elapsed) of
        Completed (Inr _) \<Rightarrow> andthen (map_err IoErr (finish E send)) (\<lambda>_. ret True)
      | Completed (Inl err) \<Rightarrow> raise (IoErr err)
      | Elapsed \<Rightarrow>
          andthen (ignore (finish E send)) (\<lambda>_. andthen (gateway_timeout E lw) (\<lambda>_. ret False)))
      (op_deadline E None w2) = (r, w1, fs)"
    and es: "es = (Deadline_ev (Some t) # es1 @ [Deadline_ev None]) @ fs"
    by (rule timeout_then_runs)
  have es1: "es1 = [Write_all_ev send raw got]"
    using wr by (auto simp: write_all_def call_def split: prod.splits)
  show ?thesis
  proof (cases got)
    case (Done u)
    with rest show ?thesis
      by (auto simp: es es1 andthen_def map_err_def finish_def call_def ret_def split: prod.splits outcome.splits)
  next
    case (Fail err)
    with rest show ?thesis
      by (auto simp: es es1 raise_def)
  next
    case Hang
    with rest have "andthen (ignore (finish E send)) (\<lambda>_. andthen (gateway_timeout E lw) (\<lambda>_. ret False))
        (op_deadline E None w2) = (r, w1, fs)"
      by simp
    then show ?thesis
    proof (cases rule: andthen_runs)
      case (ran x w3 es3 es4)
      have "\<exists>res. es3 = [Finish_ev send res]"
        using ran(1)
        by (auto simp: ignore_def attempt_def andthen_def finish_def call_def ret_def split: prod.splits outcome.splits)
      with local_refusal_run [OF ran(2)] Hang show ?thesis
        by (auto simp: es es1 ran(3) stays_local_def plainly_answered_def)
    qed (use Hang in \<open>auto simp: es es1 ignore_def attempt_def andthen_def finish_def call_def ret_def
        split: prod.splits outcome.splits\<close>)
  qed
qed

fun copies_to :: "'h \<Rightarrow> 'h event \<Rightarrow> bool" where
  "copies_to h (Write_all_ev h' bs r) \<longleftrightarrow> h' = h"
| "copies_to h (Read_ev h' r) \<longleftrightarrow> True"
| "copies_to h (Deadline_ev d) \<longleftrightarrow> True"
| "copies_to h (Shutdown_ev h' r) \<longleftrightarrow> True"
| "copies_to h _ \<longleftrightarrow> False"

lemma copies_to_quiet: "list_all (copies_to h) es \<Longrightarrow> opens es = [] \<and> (k \<noteq> h \<longrightarrow> sent k es = [])"
proof (induction es)
  case (Cons e es)
  then show ?case by (cases e) (auto simp: sent_by_write split: outcome.split)
qed simp

lemma copy_response_calls: "emits (copies_to h) (\<lambda>_. True) (copy_response_loop fuel E recv h d state)"
proof (induction fuel arbitrary: state)
  case (Suc fuel)
  have "emits (copies_to h) (\<lambda>_. True) (read_tunnel_response_chunk E recv d state)"
    unfolding read_tunnel_response_chunk_def
    by (auto intro!: calls_rules split: timed.split sum.split)
  moreover have "emits (copies_to h) (\<lambda>_. True) (write_plain_error E h code why message)" for code why message
    unfolding write_plain_error_def write_plain_response_def by (auto intro!: calls_rules)
  ultimately show ?case
    using Suc.IH by (auto intro!: calls_rules split: TunnelResponseReadOutcome.split)
qed (auto intro!: calls_rules)

text \<open>The copy of the response and the end of the session.\<close>

lemma response_run:
  assumes "andthen (copy_tunnel_response_with_idle_timeout fuel E recv lw d) (\<lambda>_.
      andthen (map_err IoErr (shutdown E lw)) (\<lambda>_. ret ())) w = (r, w1, es)"
  shows "opens es = [] \<and> (\<forall>k. k \<noteq> lw \<longrightarrow> sent k es = []) \<and>
    (\<forall>y. r = Done y \<longrightarrow> list_ex (closes lw) es \<and> (sent lw es = received recv es \<or>
      received recv es = [] \<and> timed_out_locally lw es))"
proof (intro conjI)
  have "emits (copies_to lw) (\<lambda>_. True) (andthen (copy_tunnel_response_with_idle_timeout fuel E recv lw d) (\<lambda>_.
      andthen (map_err IoErr (shutdown E lw)) (\<lambda>_. ret ())))"
    unfolding copy_tunnel_response_with_idle_timeout_def by (auto intro!: calls_rules copy_response_calls)
  from emitsD [OF this assms] have "list_all (copies_to lw) es"
    by simp
  from copies_to_quiet [OF this] show "opens es = []" "\<forall>k. k \<noteq> lw \<longrightarrow> sent k es = []"
    by simp_all
  show "\<forall>y. r = Done y \<longrightarrow> list_ex (closes lw) es \<and> (sent lw es = received recv es \<or>
      received recv es = [] \<and> timed_out_locally lw es)"
  proof (intro allI impI)
    fix y assume r: "r = Done y"
    from assms [unfolded r] show "list_ex (closes lw) es \<and> (sent lw es = received recv es \<or>
      received recv es = [] \<and> timed_out_locally lw es)"
    proof (cases rule: andthen_runs)
      case (ran x w2 es1 es2)
      have es2: "sent lw es2 = [] \<and> received recv es2 = [] \<and> list_ex (closes lw) es2"
        using ran(2) by (auto elim!: andthen_runs map_err_runs simp: shutdown_def call_def ret_def Done_map_outcome split: prod.splits)
      have "copied recv lw WaitingForFirstByte es1"
        by (rule copy_response_run [of fuel E recv lw d _ w w2]) (use ran(1) in \<open>simp add: copy_tunnel_response_with_idle_timeout_def\<close>)
      with es2 show ?thesis
        by (auto simp: copied_def ran(3) plainly_answered_def)
    qed simp_all
  qed
qed

definition session_forwarded :: "'h \<Rightarrow> 'h \<Rightarrow> u8 list \<Rightarrow> 'h \<times> 'h \<Rightarrow> 'h event list \<Rightarrow> bool" where
  "session_forwarded local_read lw raw streams es \<longleftrightarrow>
    (case streams of (send, recv) \<Rightarrow>
      send \<noteq> lw \<and> recv \<noteq> lw \<and> recv \<noteq> local_read \<longrightarrow>
        sent send es = raw \<and> list_ex (closes send) es \<and> sent lw es = received recv es \<and> list_ex (closes lw) es)"

lemma client_session_run:
  assumes "handle_openai_client_stream fuel L E local_read lw config w = (r, w1, es)"
    and "read_one_local_http_request L E local_read (op_deadline E (Some (oc_local_request_timeout config)) w) =
      (got, w2, es2)"
  shows "length (opens es) \<le> oc_reconnect_attempts config + 1 \<and>
    (case got of
       Done raw \<Rightarrow> \<forall>y. r = Done y \<longrightarrow>
         timed_out_locally lw es \<or>
         (\<exists>before conn streams. opens es = before @ [(conn, Done streams)] \<and> session_forwarded local_read lw raw streams es)
     | _ \<Rightarrow> opens es = [] \<and> (\<forall>y. r = Done y \<longrightarrow> refused_with lw (refusal_of got) es))"
proof -
  let ?n = "oc_reconnect_attempts config" and ?t = "oc_tunnel_operation_timeout config"
  obtain r1 u1 es1 where rd: "read_local_openai_request L E local_read lw (oc_local_request_timeout config) w = (r1, u1, es1)"
    by (rule act_run)
  note rd_spec = read_local_run [OF rd assms(2)]
  show ?thesis
  proof (cases "\<exists>raw. got = Done raw")
    case False
    then have "r1 = Done x \<Longrightarrow> x = None" for x
      using rd_spec by (cases got) auto
    then have ends: "es = es1" "r = map_outcome id (\<lambda>_. ()) r1"
      using assms(1) rd
      by (auto simp: handle_openai_client_stream_def andthen_def ret_def split: outcome.splits option.splits)
    with False rd_spec show ?thesis
      by (cases got; cases r1) auto
  next
    case True
    then obtain raw where got: "got = Done raw"
      by blast
    with rd_spec have r1: "r1 = Done (Some raw)" "opens es1 = []" "sent k es1 = []"
        "k \<noteq> local_read \<Longrightarrow> received k es1 = []" for k
      by (cases "k = lw"; simp)+
    obtain r2 u2 es3 where op: "open_openai_stream E lw (oc_connect_timeout config) ?n ?t u1 = (r2, u2, es3)"
      by (rule act_run)
    note op_spec = open_openai_stream_run [OF op]
    show ?thesis
    proof (cases "\<exists>streams. r2 = Done (Some streams)")
      case False
      have "r2 = Done x \<Longrightarrow> x = None" for x
        using False by (cases x) auto
      then have ends: "es = es1 @ es3" "r = map_outcome id (\<lambda>_. ()) r2"
        using assms(1) rd r1(1) op
        by (auto simp: handle_openai_client_stream_def andthen_def ret_def split: outcome.splits option.splits)
      with got op_spec r1 False show ?thesis
        by (cases r2) (auto simp: plainly_answered_def split: option.splits)
    next
      case True
      then obtain send recv where r2: "r2 = Done (Some (send, recv))"
        by auto
      with op_spec obtain before conn where opened: "opens es3 = before @ [(conn, Done (send, recv))]"
        and es3: "sent lw es3 = []" "\<And>k. k \<noteq> lw \<Longrightarrow> sent k es3 = []" "\<And>k. received k es3 = []" "length (opens es3) \<le> ?n + 1"
        by auto
      obtain r3 u3 es4 where sd: "send_request_to_tunnel E send lw raw ?t u2 = (r3, u3, es4)"
        by (rule act_run)
      note sd_spec = send_request_run [OF sd]
      show ?thesis
      proof (cases "r3 = Done True")
        case False
        then have "r3 = Done x \<Longrightarrow> \<not> x" for x
          by (cases x) auto
        then have ends: "es = es1 @ es3 @ es4" "r = map_outcome id (\<lambda>_. ()) r3"
          using assms(1) rd r1(1) op r2 sd
          by (auto simp: handle_openai_client_stream_def andthen_def ret_def split: outcome.splits if_splits)
        with got sd_spec r1 es3 False show ?thesis
          by (cases r3) (auto simp: plainly_answered_def)
      next
        case True
        obtain r4 u4 es5 where cp: "andthen (copy_tunnel_response_with_idle_timeout fuel E recv lw ?t) (\<lambda>_.
            andthen (map_err IoErr (shutdown E lw)) (\<lambda>_. ret ())) u3 = (r4, u4, es5)"
          by (rule act_run)
        note cp_spec = response_run [OF cp]
        have ends: "r = r4" "es = es1 @ es3 @ es4 @ es5"
          using assms(1) rd op sd cp r1(1) r2 True
          by (auto simp: handle_openai_client_stream_def
              andthen_def [of "read_local_openai_request a b c d e" for a b c d e]
              andthen_def [of "open_openai_stream a b c d e" for a b c d e]
              andthen_def [of "send_request_to_tunnel a b c d e" for a b c d e])
        have opens: "opens es = before @ [(conn, Done (send, recv))]"
          using sd_spec cp_spec r1 opened by (simp add: ends)
        show ?thesis
        proof (cases "\<exists>y. r4 = Done y")
          case ended: True
          consider "sent lw es5 = received recv es5" | "received recv es5 = []" "timed_out_locally lw es5"
            using cp_spec ended by blast
          then show ?thesis
          proof cases
            case 1
            have "session_forwarded local_read lw raw (send, recv) es"
              using 1 cp_spec sd_spec True ended r1 es3 by (auto simp: session_forwarded_def ends)
            with opens es3(4) opened got show ?thesis
              by auto
          next
            case 2
            show ?thesis
            proof (cases "send = lw")
              case True
              then have "session_forwarded local_read lw raw (send, recv) es"
                by (simp add: session_forwarded_def)
              with opens es3(4) opened got show ?thesis
                by auto
            next
              case False
              with 2 sd_spec True r1 es3 have "timed_out_locally lw es"
                by (auto simp: plainly_answered_def ends)
              with opens es3(4) opened got show ?thesis
                by auto
            qed
          qed
        qed (use opens es3(4) opened got ends in auto)
      qed
    qed
  qed
qed

section \<open>The copy ends\<close>

text \<open>
  A tunnel stream with finitely many bytes to come, each read of which delivers some of them, the end, or
  nothing for as long as the timeout, and a local connection that accepts what is written.
\<close>

lemma completes_map_err: "completes P Q (map_err g m) \<longleftrightarrow> completes P Q m"
proof -
  have "(\<exists>x w1 es. map_err g m w = (Done x, w1, es) \<and> Q w1) \<longleftrightarrow> (\<exists>x w1 es. m w = (Done x, w1, es) \<and> Q w1)" for w
    by (cases "m w") (auto simp: map_err_def)
  then show ?thesis
    by (simp add: completes_def)
qed

locale finite_stream =
  fixes E :: "('w, 'h, 'z) env_scheme"
    and recv :: 'h
    and out :: 'h
    and ready :: "'w \<Rightarrow> bool"
    and to_come :: "'w \<Rightarrow> nat"
  assumes reads:
      "\<And>w r w1. \<lbrakk> ready w; op_read E recv w = (r, w1) \<rbrakk> \<Longrightarrow> ready w1 \<and>
        (case r of Done bs \<Rightarrow> bs = [] \<or> to_come w1 < to_come w | Fail e \<Rightarrow> False | Hang \<Rightarrow> True)"
    and accepts:
      "\<And>w bs r w1. \<lbrakk> ready w; op_write_all E out bs w = (r, w1) \<rbrakk> \<Longrightarrow> r = Done () \<and> ready w1 \<and> to_come w1 = to_come w"
    and deadlines: "\<And>w d. ready w \<Longrightarrow> ready (op_deadline E d w) \<and> to_come (op_deadline E d w) = to_come w"
begin

lemma write_completes: "completes ready ready (map_err IoErr (write_all E out bs))"
  unfolding completes_def
proof (intro allI impI)
  fix w assume "ready w"
  then show "\<exists>x w1 es. map_err IoErr (write_all E out bs) w = (Done x, w1, es) \<and> ready w1"
    using accepts [of w bs] by (auto simp: map_err_def write_all_def call_def split: prod.splits)
qed

lemma plain_completes: "completes ready ready (map_err IoErr (write_plain_error E out code why text))"
proof -
  have wr: "completes ready ready (write_all E out bs)" for bs
    by (rule write_completes [unfolded completes_map_err])
  have "completes ready ready (write_plain_error E out code why text)"
    unfolding write_plain_error_def write_plain_response_def by (rule wr completes_andthen completes_ret)+
  then show ?thesis
    unfolding completes_map_err .
qed

text \<open>One read leaves less to come, or ends the loop.\<close>

lemma read_chunk_completes:
  assumes "ready w"
  shows "\<exists>outcome w1 es. read_tunnel_response_chunk E recv d state w = (Done outcome, w1, es) \<and> ready w1 \<and>
    (case outcome of Chunk bs \<Rightarrow> to_come w1 < to_come w | _ \<Rightarrow> True)"
proof -
  let ?w = "op_deadline E (Some d) w"
  obtain r w1 where read: "op_read E recv ?w = (r, w1)"
    by fastforce
  have ready: "ready ?w" "to_come ?w = to_come w"
    using deadlines [OF assms, of "Some d"] by simp_all
  note next_read = reads [OF ready(1) read]
  then have after: "ready (op_deadline E None w1)" "to_come (op_deadline E None w1) = to_come w1"
    using deadlines [of w1 None] by simp_all
  have run: "read_tunnel_response_chunk E recv d state w =
      (case (case r of Done bs \<Rightarrow> if bs = [] then Done Complete else Done (Chunk bs) | Fail e \<Rightarrow> Fail (IoErr e)
          | Hang \<Rightarrow> if state = WaitingForFirstByte then Done TimeoutBeforeFirstByte else Done Complete) of
        result \<Rightarrow> (result, op_deadline E None w1, [Deadline_ev (Some d), Read_ev recv r, Deadline_ev None]))"
    by (cases r) (simp_all add: read_tunnel_response_chunk_def andthen_def timeout_def read_some_def call_def read ret_def raise_def)
  show ?thesis
    using next_read after ready(2) by (cases r) (auto simp: run)
qed

lemma copy_completes:
  "\<lbrakk> ready w; to_come w < fuel \<rbrakk> \<Longrightarrow>
    \<exists>w1 es. copy_response_loop fuel E recv out d state w = (Done (), w1, es) \<and> ready w1"
proof (induction fuel arbitrary: state w)
  case (Suc fuel)
  let ?rest = "\<lambda>outcome. case outcome of
      Chunk bytes \<Rightarrow>
        andthen (map_err IoErr (write_all E out bytes)) (\<lambda>_. copy_response_loop fuel E recv out d Streaming)
    | TimeoutBeforeFirstByte \<Rightarrow>
        andthen (map_err IoErr (write_plain_error E out 504 (ascii ''Gateway Timeout'') (ascii ''gateway timeout''))) (\<lambda>_. ret ())
    | Complete \<Rightarrow> ret ()"
  from read_chunk_completes [OF Suc.prems(1)] obtain outcome w1 es where
    read: "read_tunnel_response_chunk E recv d state w = (Done outcome, w1, es)" "ready w1"
      "case outcome of Chunk bs \<Rightarrow> to_come w1 < to_come w | _ \<Rightarrow> True"
    by blast
  have "\<exists>w2 fs. ?rest outcome w1 = (Done (), w2, fs) \<and> ready w2"
  proof (cases outcome)
    case (Chunk bs)
    obtain res w2 where op: "op_write_all E out bs w1 = (res, w2)"
      by fastforce
    with accepts [OF read(2) op] have wr: "write_all E out bs w1 = (Done (), w2, [Write_all_ev out bs res])" "ready w2"
        "to_come w2 = to_come w1"
      by (simp_all add: write_all_def call_def)
    have "to_come w2 < fuel"
      using Suc.prems(2) read(3) Chunk wr(3) by simp
    from Suc.IH [OF wr(2) this, of Streaming] wr(1) Chunk show ?thesis
      by (auto simp: andthen_def map_err_def)
  next
    case TimeoutBeforeFirstByte
    have "completes ready ready
        (andthen (map_err IoErr (write_plain_error E out 504 (ascii ''Gateway Timeout'') (ascii ''gateway timeout''))) (\<lambda>_. ret ()))"
      by (rule completes_andthen [OF plain_completes completes_ret])
    with read(2) TimeoutBeforeFirstByte show ?thesis
      by (simp add: completes_def)
  qed (use read(2) in \<open>simp add: ret_def\<close>)
  then obtain w2 fs where "?rest outcome w1 = (Done (), w2, fs)" "ready w2"
    by blast
  with read(1) show ?case
    by (auto simp: andthen_def [of "read_tunnel_response_chunk a b c d" for a b c d])
qed simp

end

interpretation loop_stream: finite_stream manager_loop_env recv out
  "\<lambda>w. \<not> finished w out \<and> 0 < chunk_size w" "\<lambda>w. length (inbox w recv)" for recv out
proof unfold_locales
  fix r and w w1 :: loop_world
  assume ready: "\<not> finished w out \<and> 0 < chunk_size w" and read: "op_read manager_loop_env recv w = (r, w1)"
  have "length (inbox w recv) - chunk_size w < length (inbox w recv)" if "inbox w recv \<noteq> []"
    using that ready by simp
  with ready read show "(\<not> finished w1 out \<and> 0 < chunk_size w1) \<and>
      (case r of Done bs \<Rightarrow> bs = [] \<or> length (inbox w1 recv) < length (inbox w recv) | Fail e \<Rightarrow> False | Hang \<Rightarrow> True)"
    by (cases "inbox w recv = []") (auto simp: manager_loop_sel loop_read_def take_inbox_def split: if_splits)
qed (auto simp: manager_loop_sel loop_write_all_def split: if_splits)

section \<open>The theorems\<close>

text \<open>An instance: the application sends a request, the tunnel answers and then stalls.\<close>

definition example_client_world :: loop_world where
  "example_client_world = empty_world
    \<lparr>inbox := (\<lambda>h. if h = 1 then example_head @ ascii ''hi'' else if h = 4 then ascii ''HTTP/1.1 200 OK'' else []),
     stream_end := (\<lambda>_. Stalled), new_connections := [Done 7], new_streams := [Done (3, 4)]\<rparr>"

lemma example_client_read:
  "\<exists>w2 es2. read_one_local_http_request (example_lib [example_length_header]) manager_loop_env 1
      (op_deadline manager_loop_env (Some (oc_local_request_timeout openai_client_config_default)) example_client_world) =
    (Done (example_head @ ascii ''hi''), w2, es2)"
proof -
  let ?w = "op_deadline manager_loop_env (Some (oc_local_request_timeout openai_client_config_default)) example_client_world"
  obtain p where p: "parse_http_head (example_lib [example_length_header]) example_head = Inr p" "wanted p = 2"
    "\<not> has_chunked_body p"
    using example_parsed by blast
  have "op_buffer manager_loop_env 1 v = []" if "inbox v 1 = []" for v
    using that by (simp add: manager_loop_sel loop_buffer_def)
  moreover have "inbox ?w 1 = example_head @ ascii ''hi''"
    by (simp add: manager_loop_sel example_client_world_def)
  ultimately show ?thesis
    using buffered_source.read_one_local_complete [OF manager_source.buffered_source_axioms, of 1 ?w example_head "ascii ''hi''"] p example_head_framed
    by simp
qed

text \<open>C26: a response is copied as it comes. When the copy of a tunnel response completes, everything received from
  the tunnel was written to the application, in order, and nothing else; only when nothing was received
  before the timeout is there an answer of the proxy's own, 504. The copy does complete on a
  stream with finitely many bytes to come, with fuel for one read more than there are bytes. An idle timeout
  after the first byte completes it as well: a response that stalls is cut off there, with no sign of it.\<close>

theorem response_copy_faithful:
  assumes "finite_stream E recv out ready to_come" and "ready w" and "to_come w < fuel"
  shows "\<exists>w1 es. copy_tunnel_response_with_idle_timeout fuel E recv out d w = (Done (), w1, es) \<and>
    (sent out es = received recv es \<or>
     received recv es = [] \<and>
       sent out es = plain_response_bytes 504 (ascii ''Gateway Timeout'') (ascii ''gateway timeout''))"
proof -
  from finite_stream.copy_completes [OF assms] obtain w1 es where
    run: "copy_response_loop fuel E recv out d WaitingForFirstByte w = (Done (), w1, es)"
    by blast
  from copy_response_run [OF run] run show ?thesis
    by (auto simp: copied_def copy_tunnel_response_with_idle_timeout_def)
qed

theorem response_copy_faithful_witness:
  "\<exists>w1 es. copy_tunnel_response_with_idle_timeout 20 manager_loop_env 4 2 10 example_client_world = (Done (), w1, es) \<and>
    (sent 2 es = received 4 es \<or> received 4 es = [] \<and>
      sent 2 es = plain_response_bytes 504 (ascii ''Gateway Timeout'') (ascii ''gateway timeout''))"
  using response_copy_faithful [OF loop_stream.finite_stream_axioms [of 4 2], of example_client_world 20 10]
  by (simp add: example_client_world_def empty_world_def)

text \<open>C10: the outcome of a session at the OpenAI proxy client. A request that cannot be read is refused with its
  own status, a late one with 408, and neither opens a stream. For a request that was read, at most one stream
  more than the reconnects is opened; a completed session either has answered 504, because no stream could be
  opened, the request could not be sent in time or no byte came back in time, or it has sent
  exactly the request on the last stream opened and ended it, and has copied to the application exactly
  what that stream delivered. In every case the application's connection is shut down.\<close>

theorem openai_client_outcome:
  assumes "handle_openai_client_stream fuel L E local_read lw config w = (r, w1, es)"
    and "read_one_local_http_request L E local_read (op_deadline E (Some (oc_local_request_timeout config)) w) =
      (got, w2, es2)"
  shows "length (opens es) \<le> oc_reconnect_attempts config + 1 \<and>
    (case got of
       Done raw \<Rightarrow> \<forall>y. r = Done y \<longrightarrow>
         timed_out_locally lw es \<or>
         (\<exists>before conn streams. opens es = before @ [(conn, Done streams)] \<and> session_forwarded local_read lw raw streams es)
     | _ \<Rightarrow> opens es = [] \<and> (\<forall>y. r = Done y \<longrightarrow> refused_with lw (refusal_of got) es))"
  by (rule client_session_run [OF assms])

theorem openai_client_outcome_witness:
  "\<exists>r w1 es. handle_openai_client_stream 20 (example_lib [example_length_header]) manager_loop_env 1 2
      openai_client_config_default example_client_world = (r, w1, es) \<and>
    length (opens es) \<le> 2 \<and>
    (\<forall>y. r = Done y \<longrightarrow> timed_out_locally 2 es \<or>
      (\<exists>before conn streams. opens es = before @ [(conn, Done streams)] \<and>
        session_forwarded 1 2 (example_head @ ascii ''hi'') streams es))"
proof -
  obtain r w1 es where run: "handle_openai_client_stream 20 (example_lib [example_length_header]) manager_loop_env 1 2
      openai_client_config_default example_client_world = (r, w1, es)"
    by (rule act_run)
  obtain w2 es2 where rd: "read_one_local_http_request (example_lib [example_length_header]) manager_loop_env 1
      (op_deadline manager_loop_env (Some (oc_local_request_timeout openai_client_config_default)) example_client_world) =
    (Done (example_head @ ascii ''hi''), w2, es2)"
    using example_client_read by blast
  from openai_client_outcome [OF run rd] run show ?thesis
    by (simp add: openai_client_config_default_def DEFAULT_RECONNECT_ATTEMPTS_def)
qed

end
