(* ===== verification/Admission.thy ===== *)
theory Admission
  imports SocksClient OpenAiServer OpenAiClient
begin

text \<open>
  How many at a time: the accept loops of \<open>src/server.rs\<close>, \<open>src/client.rs\<close>, \<open>src/openai/server_handler.rs\<close> and
  \<open>src/openai/client_handler.rs\<close>. All of them let a newcomer in with a permit of a semaphore and turn it
  away when there is none, and the task of the newcomer holds the permit to its end. tokio's semaphore is a
  parameter, with its laws as the locale \<open>semaphore\<close>. The loops run with the tasks they spawn, so they are
  functions from an input, what the network or a task does next, to the next state and the actions taken.
\<close>

section \<open>Semaphores\<close>

record 's sem_lib =
  sem_new :: "nat \<Rightarrow> 's"
  sem_try_acquire :: "'s \<Rightarrow> 's option"
  sem_release :: "'s \<Rightarrow> 's"

locale semaphore =
  fixes S :: "'s sem_lib" and permits :: "'s \<Rightarrow> nat"
  assumes permits_new: "permits (sem_new S n) = n"
    and try_acquire_None: "sem_try_acquire S l = None \<longleftrightarrow> permits l = 0"
    and try_acquire_Some: "sem_try_acquire S l = Some l1 \<Longrightarrow> permits l = Suc (permits l1)"
    and permits_release: "permits (sem_release S l) = Suc (permits l)"

definition counter :: "nat sem_lib" where
  "counter = \<lparr> sem_new = id, sem_try_acquire = (\<lambda>n. if n = 0 then None else Some (n - 1)), sem_release = Suc \<rparr>"

interpretation counter: semaphore counter id
  by unfold_locales (auto simp: counter_def split: if_splits)

section \<open>A gate\<close>

text \<open>
  A semaphore and the tasks that came to it, by their arrival. \<open>enter\<close> is an arrival, with
  \<open>try_acquire_owned\<close>; \<open>leave\<close> is the end of a task, where its permit is dropped, whichever way it ends.
\<close>

datatype admitted_task = Turned_away | Working | Ended

record 's gate =
  gate_limit :: 's
  gate_tasks :: "admitted_task list"

definition new_gate :: "'s sem_lib \<Rightarrow> nat \<Rightarrow> 's gate" where
  "new_gate S n = \<lparr> gate_limit = sem_new S n, gate_tasks = [] \<rparr>"

definition enter :: "'s sem_lib \<Rightarrow> 's gate \<Rightarrow> bool \<times> 's gate" where
  "enter S g =
    (case sem_try_acquire S (gate_limit g) of
       Some l \<Rightarrow> (True, g\<lparr>gate_limit := l, gate_tasks := gate_tasks g @ [Working]\<rparr>)
     | None \<Rightarrow> (False, g\<lparr>gate_tasks := gate_tasks g @ [Turned_away]\<rparr>))"

definition working :: "nat \<Rightarrow> 's gate \<Rightarrow> bool" where
  "working i g \<longleftrightarrow> i < length (gate_tasks g) \<and> gate_tasks g ! i = Working"

definition leave :: "'s sem_lib \<Rightarrow> nat \<Rightarrow> 's gate \<Rightarrow> 's gate" where
  "leave S i g =
    (if working i g then g\<lparr>gate_limit := sem_release S (gate_limit g), gate_tasks := (gate_tasks g)[i := Ended]\<rparr> else g)"

definition running :: "'s gate \<Rightarrow> nat" where
  "running g = count_list (gate_tasks g) Working"

definition gate_ok :: "('s \<Rightarrow> nat) \<Rightarrow> nat \<Rightarrow> 's gate \<Rightarrow> bool" where
  "gate_ok permits n g \<longleftrightarrow> permits (gate_limit g) + running g = n"

lemma count_list_update:
  "i < length xs \<Longrightarrow> count_list (xs[i := y]) x + (if xs ! i = x then 1 else 0) = count_list xs x + (if y = x then 1 else 0)"
proof (induction xs arbitrary: i)
  case (Cons z zs)
  show ?case
  proof (cases i)
    case (Suc j)
    with Cons.IH [of j] Cons.prems show ?thesis
      by (auto split: if_splits)
  qed auto
qed simp

lemma working_leave: "working j (leave S i g) \<longleftrightarrow> working j g \<and> j \<noteq> i"
  by (auto simp: working_def leave_def nth_list_update)

lemma length_leave: "length (gate_tasks (leave S i g)) = length (gate_tasks g)"
  by (simp add: leave_def)

lemma working_enter:
  assumes "enter S g = (admitted, g1)"
  shows "working j g1 \<longleftrightarrow> working j g \<or> admitted \<and> j = length (gate_tasks g)"
    and "length (gate_tasks g1) = Suc (length (gate_tasks g))"
  using assms by (auto simp: enter_def working_def nth_append split: option.splits if_splits)

context semaphore
begin

lemma gate_new: "gate_ok permits n (new_gate S n)"
  by (simp add: gate_ok_def new_gate_def running_def permits_new)

lemma gate_enter:
  assumes "gate_ok permits n g" and "enter S g = (admitted, g1)"
  shows "gate_ok permits n g1" and "admitted \<longleftrightarrow> running g < n"
  using assms try_acquire_None [of "gate_limit g"] try_acquire_Some [of "gate_limit g"]
  by (auto simp: gate_ok_def enter_def running_def split: option.splits)

lemma gate_leave: "gate_ok permits n g \<Longrightarrow> gate_ok permits n (leave S i g)"
  using count_list_update [of i "gate_tasks g" Ended Working]
  by (auto simp: gate_ok_def leave_def running_def working_def permits_release)

lemma gate_bound: "gate_ok permits n g \<Longrightarrow> running g \<le> n"
  by (simp add: gate_ok_def)

end

section \<open>Servers\<close>

text \<open>
  A connection that was let in has a task of its own. Once the handshake is over and the peer allowed, the
  task becomes the handler's loop over the streams of the connection, with a semaphore of its own. That loop ends
  when the connection does; the tasks of its streams go on, and hold on to their semaphore.
\<close>

record ('s, 'p) connection_state =
  cn_peer :: 'p
  cn_streams :: "'s gate"
  cn_looping :: bool

record ('s, 'p) server_state =
  sv_accepting :: bool
  sv_connections :: "'s gate"
  sv_established :: "nat \<Rightarrow> ('s, 'p) connection_state option"

text \<open>
  The inputs: a connection arrives; the endpoint is closed and \<open>accept\<close> gives \<open>None\<close>; the future of
  connection \<open>i\<close>, or its timeout, gives a result; a stream arrives on a connection; the task of a stream ends;
  a connection is lost and \<open>accept_bi\<close> fails.
\<close>

datatype 'r server_input =
    Incoming
  | Endpoint_closed
  | Handshaken nat 'r
  | Stream_arrived nat
  | Stream_over nat nat
  | Connection_lost nat

datatype 'p server_action =
    Drop_incoming nat
  | Close_refused nat 'p
  | Serve nat 'p
  | Handle_stream nat nat
  | Reject_stream nat nat

datatype 'p admission = Failed | Refused 'p | Admitted 'p

definition exit_admission :: "'p ServerConfig \<Rightarrow> io_error + 'p \<Rightarrow> 'p admission" where
  "exit_admission config incoming =
    (case incoming of
       Inr remote \<Rightarrow> if \<not> peer_allowed remote (allow_peers config) then Refused remote else Admitted remote
     | Inl err \<Rightarrow> Failed)"

definition openai_admission :: "('u, 'p) OpenAiServerConfig \<Rightarrow> (io_error, 'p) timed \<Rightarrow> 'p admission" where
  "openai_admission config incoming =
    (case incoming of
       Completed (Inr remote) \<Rightarrow>
         if \<not> peer_allowed remote (os_allow_peers config) then Refused remote else Admitted remote
     | Completed (Inl err) \<Rightarrow> Failed
     | Elapsed \<Rightarrow> Failed)"

definition accept_incoming ::
  "'s sem_lib \<Rightarrow> ('s, 'p) server_state \<Rightarrow> ('s, 'p) server_state \<times> 'p server_action list" where
  "accept_incoming S s =
    (if \<not> sv_accepting s then (s, [])
     else case enter S (sv_connections s) of (admitted, g) \<Rightarrow>
       (s\<lparr>sv_connections := g\<rparr>, if admitted then [] else [Drop_incoming (length (gate_tasks (sv_connections s)))]))"

text \<open>The rest of a connection's task up to its handler. It ends at once if there is nobody to serve.\<close>

definition finish_handshake ::
  "'s sem_lib \<Rightarrow> nat \<Rightarrow> nat \<Rightarrow> 'p admission \<Rightarrow> ('s, 'p) server_state \<Rightarrow> ('s, 'p) server_state \<times> 'p server_action list" where
  "finish_handshake S max_streams i admission s =
    (if \<not> working i (sv_connections s) \<or> sv_established s i \<noteq> None then (s, [])
     else case admission of
       Failed \<Rightarrow> (s\<lparr>sv_connections := leave S i (sv_connections s)\<rparr>, [])
     | Refused remote \<Rightarrow> (s\<lparr>sv_connections := leave S i (sv_connections s)\<rparr>, [Close_refused i remote])
     | Admitted remote \<Rightarrow>
         (s\<lparr>sv_established := (sv_established s)(i \<mapsto>
            \<lparr>cn_peer = remote, cn_streams = new_gate S max_streams, cn_looping = True\<rparr>)\<rparr>,
          [Serve i remote]))"

definition accept_stream ::
  "'s sem_lib \<Rightarrow> nat \<Rightarrow> ('s, 'p) connection_state \<Rightarrow> ('s, 'p) connection_state \<times> 'p server_action list" where
  "accept_stream S i c =
    (if \<not> cn_looping c then (c, [])
     else case enter S (cn_streams c) of (admitted, g) \<Rightarrow>
       let j = length (gate_tasks (cn_streams c))
       in (c\<lparr>cn_streams := g\<rparr>, [if admitted then Handle_stream i j else Reject_stream i j]))"

definition with_connection ::
  "nat \<Rightarrow> (('s, 'p) connection_state \<Rightarrow> ('s, 'p) connection_state \<times> 'p server_action list) \<Rightarrow>
    ('s, 'p) server_state \<Rightarrow> ('s, 'p) server_state \<times> 'p server_action list" where
  "with_connection i f s =
    (case sv_established s i of
       None \<Rightarrow> (s, [])
     | Some c \<Rightarrow> (case f c of (c1, acts) \<Rightarrow> (s\<lparr>sv_established := (sv_established s)(i \<mapsto> c1)\<rparr>, acts)))"

definition lose_connection ::
  "'s sem_lib \<Rightarrow> nat \<Rightarrow> ('s, 'p) server_state \<Rightarrow> ('s, 'p) server_state \<times> 'p server_action list" where
  "lose_connection S i s =
    (case sv_established s i of
       None \<Rightarrow> (s, [])
     | Some c \<Rightarrow>
         (s\<lparr>sv_connections := leave S i (sv_connections s),
            sv_established := (sv_established s)(i \<mapsto> c\<lparr>cn_looping := False\<rparr>)\<rparr>, []))"

fun server_step ::
  "'s sem_lib \<Rightarrow> nat \<Rightarrow> ('r \<Rightarrow> 'p admission) \<Rightarrow> 'r server_input \<Rightarrow> ('s, 'p) server_state \<Rightarrow>
    ('s, 'p) server_state \<times> 'p server_action list" where
  "server_step S max_streams admit Incoming s = accept_incoming S s"
| "server_step S max_streams admit Endpoint_closed s = (s\<lparr>sv_accepting := False\<rparr>, [])"
| "server_step S max_streams admit (Handshaken i r) s = finish_handshake S max_streams i (admit r) s"
| "server_step S max_streams admit (Stream_arrived i) s = with_connection i (accept_stream S i) s"
| "server_step S max_streams admit (Stream_over i j) s =
    with_connection i (\<lambda>c. (c\<lparr>cn_streams := leave S j (cn_streams c)\<rparr>, [])) s"
| "server_step S max_streams admit (Connection_lost i) s = lose_connection S i s"

definition server_start :: "'s sem_lib \<Rightarrow> nat \<Rightarrow> ('s, 'p) server_state" where
  "server_start S n =
    \<lparr>sv_accepting = True, sv_connections = new_gate S n, sv_established = (\<lambda>_. None)\<rparr>"

definition spawn_accept_loop ::
  "'s sem_lib \<Rightarrow> 'p ServerConfig \<Rightarrow> (io_error + 'p) server_input list \<Rightarrow> ('s, 'p) server_state \<times> 'p server_action list" where
  "spawn_accept_loop S config inputs =
    run_inputs (server_step S (max_streams_per_connection config) (exit_admission config)) inputs
      (server_start S (max_connections config))"

definition spawn_openai_accept_loop ::
  "'s sem_lib \<Rightarrow> ('u, 'p) OpenAiServerConfig \<Rightarrow> (io_error, 'p) timed server_input list \<Rightarrow>
    ('s, 'p) server_state \<times> 'p server_action list" where
  "spawn_openai_accept_loop S config inputs =
    run_inputs (server_step S (os_max_streams_per_connection config) (openai_admission config)) inputs
      (server_start S (os_max_connections config))"

section \<open>The invariant of a server\<close>

definition connection_ok :: "('s \<Rightarrow> nat) \<Rightarrow> nat \<Rightarrow> ('p \<Rightarrow> bool) \<Rightarrow> ('s, 'p) server_state \<Rightarrow> nat \<Rightarrow> ('s, 'p) connection_state \<Rightarrow> bool" where
  "connection_ok permits max_streams allowed s i c \<longleftrightarrow>
    gate_ok permits max_streams (cn_streams c) \<and> allowed (cn_peer c) \<and> i < length (gate_tasks (sv_connections s)) \<and>
    (cn_looping c \<longleftrightarrow> working i (sv_connections s))"

definition server_ok :: "('s \<Rightarrow> nat) \<Rightarrow> nat \<Rightarrow> nat \<Rightarrow> ('p \<Rightarrow> bool) \<Rightarrow> ('s, 'p) server_state \<Rightarrow> bool" where
  "server_ok permits n max_streams allowed s \<longleftrightarrow>
    gate_ok permits n (sv_connections s) \<and>
    (\<forall>i c. sv_established s i = Some c \<longrightarrow> connection_ok permits max_streams allowed s i c)"

definition admits_only :: "('r \<Rightarrow> 'p admission) \<Rightarrow> ('p \<Rightarrow> bool) \<Rightarrow> bool" where
  "admits_only admit allowed \<longleftrightarrow> (\<forall>r remote. admit r = Admitted remote \<longrightarrow> allowed remote)"

lemma exit_admits_only: "admits_only (exit_admission config) (\<lambda>p. peer_allowed p (allow_peers config))"
  by (auto simp: admits_only_def exit_admission_def split: sum.splits if_splits)

lemma openai_admits_only: "admits_only (openai_admission config) (\<lambda>p. peer_allowed p (os_allow_peers config))"
  by (auto simp: admits_only_def openai_admission_def split: timed.splits sum.splits if_splits)

context semaphore
begin

lemma server_ok_start: "server_ok permits n m allowed (server_start S n)"
  by (simp add: server_ok_def server_start_def gate_new)

lemma server_okI:
  assumes "gate_ok permits n (sv_connections s)"
    and "\<And>i c. sv_established s i = Some c \<Longrightarrow> connection_ok permits m allowed s i c"
  shows "server_ok permits n m allowed s"
  using assms by (simp add: server_ok_def)

lemma server_okD:
  assumes "server_ok permits n m allowed s"
  shows "gate_ok permits n (sv_connections s)"
    and "sv_established s i = Some c \<Longrightarrow> connection_ok permits m allowed s i c"
  using assms by (auto simp: server_ok_def)

lemma server_ok_incoming:
  assumes "server_ok permits n m allowed s" and "accept_incoming S s = (t, acts)"
  shows "server_ok permits n m allowed t"
proof (cases "sv_accepting s")
  case True
  obtain admitted g where entered: "enter S (sv_connections s) = (admitted, g)"
    by fastforce
  with assms(2) True have t: "t = s\<lparr>sv_connections := g\<rparr>"
    by (simp add: accept_incoming_def)
  show ?thesis
  proof (rule server_okI)
    show "gate_ok permits n (sv_connections t)"
      using gate_enter(1) [OF server_okD(1) [OF assms(1)] entered] by (simp add: t)
    show "connection_ok permits m allowed t i c" if "sv_established t i = Some c" for i c
      using server_okD(2) [OF assms(1), of i c] that by (auto simp: connection_ok_def t working_enter [OF entered])
  qed
qed (use assms in \<open>simp add: accept_incoming_def\<close>)

lemma server_ok_leave:
  assumes "server_ok permits n m allowed s"
    and "\<And>k c. sv_established t k = Some c \<Longrightarrow>
      (\<exists>d. sv_established s k = Some d \<and> cn_streams c = cn_streams d \<and> cn_peer c = cn_peer d \<and>
        (cn_looping c \<longleftrightarrow> cn_looping d \<and> k \<noteq> i))"
    and "sv_connections t = leave S i (sv_connections s)"
  shows "server_ok permits n m allowed t"
proof (rule server_okI)
  show "gate_ok permits n (sv_connections t)"
    using server_okD(1) [OF assms(1)] by (simp add: assms(3) gate_leave)
  fix k c
  assume "sv_established t k = Some c"
  from assms(2) [OF this] obtain d where d: "sv_established s k = Some d" "cn_streams c = cn_streams d"
      "cn_peer c = cn_peer d" "cn_looping c \<longleftrightarrow> cn_looping d \<and> k \<noteq> i"
    by blast
  from server_okD(2) [OF assms(1) d(1)] d show "connection_ok permits m allowed t k c"
    by (auto simp: connection_ok_def assms(3) working_leave length_leave)
qed

lemma server_ok_handshake:
  assumes ok: "server_ok permits n m allowed s" and run: "finish_handshake S m i admission s = (t, acts)"
    and allowed: "\<And>remote. admission = Admitted remote \<Longrightarrow> allowed remote"
  shows "server_ok permits n m allowed t"
proof (cases "\<not> working i (sv_connections s) \<or> sv_established s i \<noteq> None")
  case True
  with ok run show ?thesis
    by (auto simp: finish_handshake_def)
next
  case False
  then have shaking: "working i (sv_connections s)" "sv_established s i = None"
    by auto
  have "server_ok permits n m allowed (s\<lparr>sv_connections := leave S i (sv_connections s)\<rparr>)"
    by (rule server_ok_leave [OF ok, where i = i]) (use shaking in auto)
  moreover have "server_ok permits n m allowed (s\<lparr>sv_established := (sv_established s)(i \<mapsto>
      \<lparr>cn_peer = remote, cn_streams = new_gate S m, cn_looping = True\<rparr>)\<rparr>)" if "allowed remote" for remote
  proof (rule server_okI)
    fix k c
    assume "sv_established (s\<lparr>sv_established := (sv_established s)(i \<mapsto>
      \<lparr>cn_peer = remote, cn_streams = new_gate S m, cn_looping = True\<rparr>)\<rparr>) k = Some c"
    then show "connection_ok permits m allowed (s\<lparr>sv_established := (sv_established s)(i \<mapsto>
      \<lparr>cn_peer = remote, cn_streams = new_gate S m, cn_looping = True\<rparr>)\<rparr>) k c"
      using that shaking server_okD(2) [OF ok, of k c]
      by (cases "k = i") (auto simp: connection_ok_def gate_new working_def)
  qed (use server_okD(1) [OF ok] in simp)
  ultimately show ?thesis
    using run shaking allowed by (auto simp: finish_handshake_def split: admission.splits)
qed

lemma server_ok_stream:
  assumes ok: "server_ok permits n m allowed s" and run: "with_connection i f s = (t, acts)"
    and keeps: "\<And>c c1 as. \<lbrakk> f c = (c1, as); gate_ok permits m (cn_streams c) \<rbrakk> \<Longrightarrow>
      gate_ok permits m (cn_streams c1) \<and> cn_peer c1 = cn_peer c \<and> cn_looping c1 = cn_looping c"
  shows "server_ok permits n m allowed t"
proof (cases "sv_established s i")
  case (Some c)
  obtain c1 as where c1: "f c = (c1, as)"
    by fastforce
  have "connection_ok permits m allowed s i c"
    using server_okD(2) [OF ok Some] .
  then have c1_ok: "connection_ok permits m allowed s i c1"
    using keeps [OF c1] by (simp add: connection_ok_def)
  have t: "t = s\<lparr>sv_established := (sv_established s)(i \<mapsto> c1)\<rparr>"
    using run Some c1 by (simp add: with_connection_def)
  show ?thesis
    using server_okD [OF ok] c1_ok
    by (intro server_okI) (auto simp: t connection_ok_def split: if_splits)
qed (use ok run in \<open>simp add: with_connection_def\<close>)

lemma accept_stream_ok:
  assumes "accept_stream S i c = (c1, acts)" and "gate_ok permits m (cn_streams c)"
  shows "gate_ok permits m (cn_streams c1) \<and> cn_peer c1 = cn_peer c \<and> cn_looping c1 = cn_looping c"
  using assms by (auto simp: accept_stream_def Let_def dest: gate_enter split: if_splits prod.splits)

lemma server_ok_lost:
  assumes "server_ok permits n m allowed s" and "lose_connection S i s = (t, acts)"
  shows "server_ok permits n m allowed t"
proof (cases "sv_established s i")
  case (Some c)
  with assms(2) have t: "t = s\<lparr>sv_connections := leave S i (sv_connections s),
      sv_established := (sv_established s)(i \<mapsto> c\<lparr>cn_looping := False\<rparr>)\<rparr>"
    by (simp add: lose_connection_def)
  show ?thesis
    by (rule server_ok_leave [OF assms(1), where i = i]) (auto simp: t Some split: if_splits)
qed (use assms in \<open>simp add: lose_connection_def\<close>)

lemma server_ok_step:
  assumes "admits_only admit allowed" and ok: "server_ok permits n m allowed s"
    and step: "server_step S m admit input s = (t, acts)"
  shows "server_ok permits n m allowed t"
proof (cases input)
  case Incoming
  with server_ok_incoming [OF ok] step show ?thesis
    by simp
next
  case Endpoint_closed
  with ok step show ?thesis
    by (auto simp: server_ok_def connection_ok_def)
next
  case (Handshaken i r)
  with server_ok_handshake [OF ok, of i "admit r"] step assms(1) show ?thesis
    by (simp add: admits_only_def)
next
  case (Stream_arrived i)
  with step have "with_connection i (accept_stream S i) s = (t, acts)"
    by simp
  from server_ok_stream [OF ok this accept_stream_ok] show ?thesis .
next
  case (Stream_over i j)
  with step have "with_connection i (\<lambda>c. (c\<lparr>cn_streams := leave S j (cn_streams c)\<rparr>, [])) s = (t, acts)"
    by simp
  from server_ok_stream [OF ok this] show ?thesis
    by (auto simp: gate_leave)
next
  case (Connection_lost i)
  with server_ok_lost [OF ok] step show ?thesis
    by simp
qed

lemma server_invariant:
  assumes "admits_only admit allowed"
  shows "invariant_of (\<lambda>s. s = server_start S n) (reacts (server_step S m admit)) (server_ok permits n m allowed)"
proof
  show "server_ok permits n m allowed s" if "s = server_start S n" for s
    using that server_ok_start by simp
  show "server_ok permits n m allowed t"
    if "server_ok permits n m allowed s" and "reacts (server_step S m admit) s t" for s t
    using that server_ok_step [OF assms] by (auto simp: reacts_def) (metis prod.collapse)
qed

lemma server_run_ok:
  assumes "admits_only admit allowed"
    and "run_inputs (server_step S m admit) inputs (server_start S n) = (s, acts)"
  shows "server_ok permits n m allowed s"
  using invariant_of.holds [OF server_invariant [OF assms(1)] run_inputs_reachable [OF reach_start]] assms(2)
  by (metis fst_conv)

end

section \<open>Sessions of the clients\<close>

text \<open>
  The loop over a local listener, in both clients: a connection arrives, \<open>accept\<close> fails, or the task of
  a session ends. A failed \<open>accept\<close>, whatever its reason, leaves the loop.
\<close>

record 's listener_state =
  ls_open :: bool
  ls_sessions :: "'s gate"

datatype listener_input = Accepted | Accept_failed | Session_over nat
datatype listener_action = Handle_session nat | Close_session nat

fun listener_step :: "'s sem_lib \<Rightarrow> listener_input \<Rightarrow> 's listener_state \<Rightarrow> 's listener_state \<times> listener_action list" where
  "listener_step S Accepted s =
    (if \<not> ls_open s then (s, [])
     else case enter S (ls_sessions s) of (admitted, g) \<Rightarrow>
       let i = length (gate_tasks (ls_sessions s))
       in (s\<lparr>ls_sessions := g\<rparr>, [if admitted then Handle_session i else Close_session i]))"
| "listener_step S Accept_failed s = (s\<lparr>ls_open := False\<rparr>, [])"
| "listener_step S (Session_over i) s = (s\<lparr>ls_sessions := leave S i (ls_sessions s)\<rparr>, [])"

definition listening :: "'s sem_lib \<Rightarrow> nat \<Rightarrow> 's listener_state" where
  "listening S n = \<lparr>ls_open = True, ls_sessions = new_gate S n\<rparr>"

definition accept_local_loop ::
  "'s sem_lib \<Rightarrow> ClientConfig \<Rightarrow> listener_input list \<Rightarrow> 's listener_state \<times> listener_action list" where
  "accept_local_loop S config inputs = run_inputs (listener_step S) inputs (listening S (max_concurrent_sessions config))"

definition openai_client_accept_loop ::
  "'s sem_lib \<Rightarrow> OpenAiClientConfig \<Rightarrow> listener_input list \<Rightarrow> 's listener_state \<times> listener_action list" where
  "openai_client_accept_loop S config inputs =
    run_inputs (listener_step S) inputs (listening S (oc_max_concurrent_sessions config))"

text \<open>A listener that has left its loop starts no session and closes none; the ones it has may end.\<close>

lemma closed_listener_quiet: "\<not> ls_open s \<Longrightarrow> snd (run_inputs (listener_step S) inputs s) = []"
proof (induction inputs arbitrary: s)
  case (Cons i inputs)
  obtain t where "listener_step S i s = (t, [])" "\<not> ls_open t"
    using Cons.prems by (cases i) auto
  with Cons.IH [of t] show ?case
    by (cases "run_inputs (listener_step S) inputs t") simp
qed simp

context semaphore
begin

lemma listener_invariant:
  "invariant_of (\<lambda>s. s = listening S n) (reacts (listener_step S)) (\<lambda>s. gate_ok permits n (ls_sessions s))"
proof
  show "gate_ok permits n (ls_sessions s)" if "s = listening S n" for s
    using that by (simp add: listening_def gate_new)
  fix s t
  assume "gate_ok permits n (ls_sessions s)" and "reacts (listener_step S) s t"
  then obtain i where ok: "gate_ok permits n (ls_sessions s)" and t: "fst (listener_step S i s) = t"
    by (auto simp: reacts_def)
  from t show "gate_ok permits n (ls_sessions t)"
    using ok gate_leave [OF ok] gate_enter(1) [OF ok] by (cases i) (auto simp: Let_def split: if_splits prod.splits)
qed

lemma listener_run_ok:
  assumes "run_inputs (listener_step S) inputs (listening S n) = (s, acts)"
  shows "gate_ok permits n (ls_sessions s)"
  using invariant_of.holds [OF listener_invariant run_inputs_reachable [OF reach_start]] assms
  by (metis fst_conv)

end

section \<open>What the tasks do\<close>

text \<open>
  The stream of a connection without a permit is answered in the loop itself. The bodies of the tasks:
  an error of the handler is logged and dropped, and the permit is dropped with the task, the input \<open>Stream_over\<close> or
  \<open>Session_over\<close> of the loops above.
\<close>

definition acquire_tunnel_stream_permit ::
  "'s sem_lib \<Rightarrow> ('w, 'h, 'z) env_scheme \<Rightarrow> 's \<Rightarrow> 'h \<Rightarrow> ('w, 'h, 's option) handler" where
  "acquire_tunnel_stream_permit S E stream_limit send =
    (case sem_try_acquire S stream_limit of
       Some permit \<Rightarrow> ret (Some permit)
     | None \<Rightarrow>
         andthen (ignore (write_response E send GeneralFailure)) (\<lambda>_.
         andthen (ignore (finish E send)) (\<lambda>_.
         ret None)))"

definition acquire_stream_permit ::
  "'s sem_lib \<Rightarrow> ('w, 'h, 'z) env_scheme \<Rightarrow> 's \<Rightarrow> 'h \<Rightarrow> ('w, 'h, 's option) handler" where
  "acquire_stream_permit S E stream_limit send =
    (case sem_try_acquire S stream_limit of
       Some permit \<Rightarrow> ret (Some permit)
     | None \<Rightarrow>
         andthen (ignore (write_plain_error E send 503 (ascii ''Service Unavailable'') (ascii ''too many open streams''))) (\<lambda>_.
         andthen (ignore (finish E send)) (\<lambda>_.
         ret None)))"

definition spawn_tunnel_stream_handler ::
  "('w, 'h, 'z) env_scheme \<Rightarrow> bool list \<Rightarrow> 'h \<Rightarrow> 'h \<Rightarrow> 'k ServerConfig \<Rightarrow> ('w, 'h, unit) handler" where
  "spawn_tunnel_stream_handler E sched send recv config = ignore (handle_tunnel_stream E sched send recv config)"

definition spawn_openai_stream_handler ::
  "nat \<Rightarrow> ('u, 'h) openai_lib \<Rightarrow> ('w, 'h, 'z) env_scheme \<Rightarrow> 'h \<Rightarrow> 'h \<Rightarrow> ('u, 'k) OpenAiServerConfig \<Rightarrow>
    ('w, 'h, unit) handler" where
  "spawn_openai_stream_handler fuel L E send recv config = ignore (handle_openai_stream fuel L E send recv config)"

lemma answered_then_finished:
  assumes "sends h bs m"
    and "andthen (ignore m) (\<lambda>_. andthen (ignore (finish E h)) (\<lambda>_. ret x)) w = (r, w1, es)"
  shows "(r = Done x \<or> r = Hang) \<and>
    (\<forall>y w2 fs. m w = (Done y, w2, fs) \<longrightarrow> sent h es = bs \<and> (\<exists>ended. es = fs @ [Finish_ev h ended]))"
proof -
  obtain r1 w2 es1 where m: "m w = (r1, w2, es1)"
    by (rule act_run)
  obtain r2 w3 where finish: "op_finish E h w2 = (r2, w3)"
    by fastforce
  show ?thesis
    using assms(2) sendsD [OF assms(1), of w _ w2 es1]
    by (cases r1; cases r2)
      (auto simp: m finish finish_def call_def andthen_def ignore_def attempt_def ret_def)
qed

section \<open>The order of a server's actions\<close>

text \<open>A stream is handled only on a connection that is served, and so only for a peer that is allowed.\<close>

definition served_before :: "('p \<Rightarrow> bool) \<Rightarrow> 'p server_action list \<Rightarrow> bool" where
  "served_before allowed acts \<longleftrightarrow>
    (\<forall>i p. Serve i p \<in> set acts \<longrightarrow> allowed p) \<and>
    (\<forall>before i j rest. acts = before @ Handle_stream i j # rest \<longrightarrow> (\<exists>p. Serve i p \<in> set before))"

definition records_served :: "('s, 'p) server_state \<Rightarrow> 'p server_action list \<Rightarrow> bool" where
  "records_served s acts \<longleftrightarrow> (\<forall>i c. sv_established s i = Some c \<longrightarrow> Serve i (cn_peer c) \<in> set acts)"

lemma served_before_single:
  assumes "served_before allowed acts"
    and "\<And>i p. a = Serve i p \<Longrightarrow> allowed p" and "\<And>i j. a = Handle_stream i j \<Longrightarrow> \<exists>p. Serve i p \<in> set acts"
  shows "served_before allowed (acts @ [a])"
proof -
  have "\<exists>p. Serve i p \<in> set before" if split: "acts @ [a] = before @ Handle_stream i j # rest" for before i j rest
  proof (cases rest rule: rev_cases)
    case Nil
    with split assms(3) show ?thesis by auto
  next
    case (snoc rest' b)
    with split have "acts = before @ Handle_stream i j # rest'"
      by simp
    with assms(1) show ?thesis
      by (auto simp: served_before_def)
  qed
  with assms(1, 2) show ?thesis
    by (auto simp: served_before_def)
qed

lemma server_step_served:
  assumes "server_step S m admit input s = (t, as)" and "admits_only admit allowed"
    and "served_before allowed acts" and "records_served s acts"
  shows "served_before allowed (acts @ as) \<and> records_served t (acts @ as)"
proof (cases input)
  case Incoming
  with assms show ?thesis
    by (auto simp: accept_incoming_def records_served_def intro!: served_before_single split: prod.splits if_splits)
next
  case Endpoint_closed
  with assms show ?thesis
    by (auto simp: records_served_def)
next
  case (Handshaken i r)
  with assms show ?thesis
    by (auto simp: finish_handshake_def records_served_def admits_only_def intro!: served_before_single
        split: if_splits admission.splits)
next
  case (Stream_arrived i)
  with assms show ?thesis
    by (auto simp: with_connection_def accept_stream_def records_served_def Let_def intro!: served_before_single
        split: if_splits option.splits prod.splits)
next
  case (Stream_over i j)
  with assms show ?thesis
    by (auto simp: with_connection_def records_served_def split: if_splits option.splits)
next
  case (Connection_lost i)
  with assms show ?thesis
    by (auto simp: lose_connection_def records_served_def split: if_splits option.splits)
qed

lemma server_run_served:
  assumes "run_inputs (server_step S m admit) inputs (server_start S n) = (s, acts)" and "admits_only admit allowed"
  shows "served_before allowed acts \<and> records_served s acts"
  using assms(1)
proof (induction inputs arbitrary: s acts rule: rev_induct)
  case Nil
  then show ?case
    by (auto simp: served_before_def records_served_def server_start_def)
next
  case (snoc i inputs)
  obtain u as where u: "run_inputs (server_step S m admit) inputs (server_start S n) = (u, as)"
    by fastforce
  obtain t bs where t: "server_step S m admit i u = (t, bs)"
    by fastforce
  from snoc.prems u t have "s = t" "acts = as @ bs"
    by (auto simp: run_inputs_append)
  with server_step_served [OF t assms(2)] snoc.IH [OF u] show ?case
    by simp
qed

section \<open>Limits\<close>

text \<open>
  What a server keeps: the tasks at work and the permits left make up the limit, and a newcomer is let in
  exactly if fewer tasks than the limit are at work.
\<close>

definition limits_kept :: "'s sem_lib \<Rightarrow> ('s \<Rightarrow> nat) \<Rightarrow> nat \<Rightarrow> nat \<Rightarrow> ('s, 'p) server_state \<Rightarrow> bool" where
  "limits_kept S permits n m s \<longleftrightarrow>
    permits (gate_limit (sv_connections s)) + running (sv_connections s) = n \<and>
    (sv_accepting s \<longrightarrow>
      (snd (accept_incoming S s) = ([] :: 'p server_action list) \<longleftrightarrow> running (sv_connections s) < n)) \<and>
    (\<forall>i c. sv_established s i = Some c \<longrightarrow>
      permits (gate_limit (cn_streams c)) + running (cn_streams c) = m \<and>
      (cn_looping c \<longleftrightarrow> working i (sv_connections s)) \<and>
      (cn_looping c \<longrightarrow>
        (let j = length (gate_tasks (cn_streams c))
         in snd (accept_stream S i c) =
          ([if running (cn_streams c) < m then Handle_stream i j else Reject_stream i j] :: 'p server_action list))))"

context semaphore
begin

lemma server_limits:
  assumes "server_ok permits n m allowed s"
  shows "limits_kept S permits n m s"
proof -
  obtain admitted g where entered: "enter S (sv_connections s) = (admitted, g)"
    by fastforce
  note ok = server_okD [OF assms]
  have "snd (accept_incoming S s) = [] \<longleftrightarrow> running (sv_connections s) < n" if "sv_accepting s"
    using that gate_enter(2) [OF ok(1) entered] entered by (simp add: accept_incoming_def)
  moreover have "snd (accept_stream S i c) =
      [if running (cn_streams c) < m then Handle_stream i (length (gate_tasks (cn_streams c)))
       else Reject_stream i (length (gate_tasks (cn_streams c)))]"
    if "sv_established s i = Some c" and "cn_looping c" for i c
  proof -
    obtain admitted g where entered: "enter S (cn_streams c) = (admitted, g)"
      by fastforce
    have "gate_ok permits m (cn_streams c)"
      using ok(2) [OF that(1)] by (simp add: connection_ok_def)
    from gate_enter(2) [OF this entered] that(2) entered show ?thesis
      by (simp add: accept_stream_def Let_def)
  qed
  ultimately show ?thesis
    using ok by (auto simp: limits_kept_def gate_ok_def connection_ok_def Let_def)
qed

text \<open>One connection that opens a stream and is lost, while the task of the stream goes on.\<close>

lemma abandoned_stream:
  assumes "sv_accepting s" and "gate_ok permits n (sv_connections s)" and "running (sv_connections s) = 0"
    and "length (gate_tasks (sv_connections s)) = i" and "sv_established s i = None"
    and "0 < n" and "0 < m" and "admit r = Admitted p"
  shows "\<exists>t c acts. run_inputs (server_step S m admit) [Incoming, Handshaken i r, Stream_arrived i, Connection_lost i] s = (t, acts) \<and>
    sv_accepting t \<and> gate_ok permits n (sv_connections t) \<and> running (sv_connections t) = 0 \<and>
    length (gate_tasks (sv_connections t)) = Suc i \<and> sv_established t = (sv_established s)(i \<mapsto> c) \<and>
    running (cn_streams c) = 1"
proof -
  obtain admitted g where entered: "enter S (sv_connections s) = (admitted, g)"
    by fastforce
  then have g: "admitted" "gate_ok permits n g"
    using gate_enter [OF assms(2) entered] assms(3, 6) by auto
  have work: "working i g" "length (gate_tasks g) = Suc i" "gate_tasks g = gate_tasks (sv_connections s) @ [Working]"
    using entered g(1) assms(4) by (auto simp: working_def enter_def split: option.splits)
  obtain opened h where h: "enter S (new_gate S m) = (opened, h)"
    by fastforce
  then have "opened"
    using gate_enter(2) [OF gate_new h] assms(7) by (simp add: running_def new_gate_def)
  with h have "running h = 1"
    by (auto simp: running_def enter_def new_gate_def split: option.splits)
  moreover have "running (leave S i g) = 0"
    using work assms(3, 4) by (auto simp: leave_def running_def list_update_append)
  moreover have "gate_ok permits n (leave S i g)"
    using g(2) by (rule gate_leave)
  ultimately show ?thesis
    using assms entered g work h \<open>opened\<close>
    by (simp add: accept_incoming_def finish_handshake_def with_connection_def accept_stream_def
        lose_connection_def Let_def length_leave fun_upd_upd)
      (rule exI, rule conjI, rule refl, simp)
qed

lemma abandoned_streams:
  assumes "0 < n" and "0 < m" and "admit r = Admitted p"
  shows "\<exists>inputs s acts. run_inputs (server_step S m admit) inputs (server_start S n) = (s, acts) \<and>
    sv_accepting s \<and> gate_ok permits n (sv_connections s) \<and> running (sv_connections s) = 0 \<and>
    length (gate_tasks (sv_connections s)) = k \<and> (\<forall>i \<ge> k. sv_established s i = None) \<and>
    (\<forall>i < k. \<exists>c. sv_established s i = Some c \<and> running (cn_streams c) = 1)"
proof (induction k)
  case 0
  have "running (new_gate S n) = 0" "gate_tasks (new_gate S n) = []"
    by (simp_all add: running_def new_gate_def)
  then show ?case
    by (intro exI [of _ "[]"]) (simp add: server_start_def gate_new)
next
  case (Suc k)
  then obtain inputs s acts where run: "run_inputs (server_step S m admit) inputs (server_start S n) = (s, acts)"
    and s: "sv_accepting s" "gate_ok permits n (sv_connections s)" "running (sv_connections s) = 0"
      "length (gate_tasks (sv_connections s)) = k" "\<forall>i \<ge> k. sv_established s i = None"
      "\<forall>i < k. \<exists>c. sv_established s i = Some c \<and> running (cn_streams c) = 1"
    by blast
  from s(5) have "sv_established s k = None"
    by simp
  from abandoned_stream [where admit = admit and r = r, OF s(1-4) this assms] obtain t c more
    where t: "run_inputs (server_step S m admit) [Incoming, Handshaken k r, Stream_arrived k, Connection_lost k] s = (t, more)"
      "sv_accepting t" "gate_ok permits n (sv_connections t)" "running (sv_connections t) = 0"
      "length (gate_tasks (sv_connections t)) = Suc k" "sv_established t = (sv_established s)(k \<mapsto> c)"
      "running (cn_streams c) = 1"
    by blast
  have "run_inputs (server_step S m admit) (inputs @ [Incoming, Handshaken k r, Stream_arrived k, Connection_lost k])
      (server_start S n) = (t, acts @ more)"
    by (simp only: run_inputs_append run prod.case t(1))
  with t(2-7) s(5, 6) show ?case
    by (intro exI conjI) (assumption | auto simp: less_Suc_eq)+
qed

end

definition sessions_kept :: "'s sem_lib \<Rightarrow> ('s \<Rightarrow> nat) \<Rightarrow> nat \<Rightarrow> 's listener_state \<Rightarrow> bool" where
  "sessions_kept S permits n s \<longleftrightarrow>
    permits (gate_limit (ls_sessions s)) + running (ls_sessions s) = n \<and>
    (ls_open s \<longrightarrow> (let i = length (gate_tasks (ls_sessions s))
      in snd (listener_step S Accepted s) = [if running (ls_sessions s) < n then Handle_session i else Close_session i]))"

lemma listener_failed:
  assumes "run_inputs (listener_step S) inputs s = (t, acts)"
  shows "snd (run_inputs (listener_step S) (inputs @ Accept_failed # later) s) = acts"
  using closed_listener_quiet [of "t\<lparr>ls_open := False\<rparr>" S later] assms
  by (auto simp: run_inputs_append split: prod.split)

context semaphore
begin

lemma listener_run_kept:
  assumes "run_inputs (listener_step S) inputs (listening S n) = (s, acts)"
  shows "sessions_kept S permits n s"
proof -
  note ok = listener_run_ok [OF assms]
  obtain admitted g where entered: "enter S (ls_sessions s) = (admitted, g)"
    by fastforce
  from gate_enter(2) [OF ok entered] ok entered show ?thesis
    by (simp add: sessions_kept_def gate_ok_def Let_def)
qed

end

section \<open>Properties\<close>

definition example_exit_config :: "nat ServerConfig" where
  "example_exit_config = (server_config_new False [7])\<lparr>max_connections := 1, max_streams_per_connection := 1\<rparr>"

definition example_inputs :: "(io_error + nat) server_input list" where
  "example_inputs =
    [Incoming, Incoming, Handshaken 0 (Inr 8), Incoming, Handshaken 2 (Inr 7), Stream_arrived 2, Stream_arrived 2,
     Stream_over 2 0, Stream_arrived 2]"

lemma example_exit_run:
  "\<exists>s. spawn_accept_loop counter example_exit_config example_inputs =
     (s, [Drop_incoming 1, Close_refused 0 8, Serve 2 7, Handle_stream 2 0, Reject_stream 2 1, Handle_stream 2 2]) \<and>
     running (sv_connections s) = 1"
  by (simp add: spawn_accept_loop_def example_exit_config_def example_inputs_def server_config_new_def server_start_def
      accept_incoming_def new_gate_def enter_def counter_def finish_handshake_def exit_admission_def peer_allowed_def
      with_connection_def accept_stream_def Let_def leave_def working_def running_def)

text \<open>C8: the limits of the servers. Whatever connects, is refused, opens streams or goes away, in whatever order:
  the connections at work and the permits left make up the connection limit, and so do the streams at work
  and the permits left on each connection; no permit is lost or made. A connection is turned away only if as many as
  the limit are at work, a stream is handled exactly if fewer than its connection's limit are, and
  a connection holds its permit exactly as long as its handler loops.\<close>

theorem server_limits_kept:
  assumes "semaphore S permits"
    and "spawn_accept_loop S exit_config exit_inputs = (s, acts)"
    and "spawn_openai_accept_loop S openai_config openai_inputs = (t, others)"
  shows "limits_kept S permits (max_connections exit_config) (max_streams_per_connection exit_config) s \<and>
    limits_kept S permits (os_max_connections openai_config) (os_max_streams_per_connection openai_config) t"
  using semaphore.server_limits [OF assms(1) semaphore.server_run_ok [OF assms(1) exit_admits_only]]
    semaphore.server_limits [OF assms(1) semaphore.server_run_ok [OF assms(1) openai_admits_only]] assms(2, 3)
  unfolding spawn_accept_loop_def spawn_openai_accept_loop_def by blast

definition example_openai_inputs :: "(io_error, nat) timed server_input list" where
  "example_openai_inputs = [Incoming, Incoming, Handshaken 0 (Completed (Inr 7)), Handshaken 1 Elapsed, Stream_arrived 0]"

lemma example_openai_run:
  "\<exists>t. spawn_openai_accept_loop counter example_openai_config example_openai_inputs = (t, [Serve 0 7, Handle_stream 0 0]) \<and>
     running (sv_connections t) = 1"
  by (simp add: spawn_openai_accept_loop_def example_openai_config_def example_openai_inputs_def server_start_def
      accept_incoming_def new_gate_def enter_def counter_def finish_handshake_def openai_admission_def peer_allowed_def
      with_connection_def accept_stream_def Let_def leave_def working_def running_def
      DEFAULT_MAX_CONNECTIONS_def DEFAULT_MAX_STREAMS_PER_CONNECTION_def)

theorem server_limits_kept_witness:
  "\<exists>s acts t others. spawn_accept_loop counter example_exit_config example_inputs = (s, acts) \<and>
    spawn_openai_accept_loop counter example_openai_config example_openai_inputs = (t, others) \<and>
    limits_kept counter id 1 1 s \<and> running (sv_connections s) = 1 \<and>
    limits_kept counter id (os_max_connections example_openai_config) (os_max_streams_per_connection example_openai_config) t"
proof -
  have limits: "max_connections example_exit_config = 1" "max_streams_per_connection example_exit_config = 1"
    by (simp_all add: example_exit_config_def)
  obtain s acts t others where runs: "spawn_accept_loop counter example_exit_config example_inputs = (s, acts)"
      "running (sv_connections s) = 1"
      "spawn_openai_accept_loop counter example_openai_config example_openai_inputs = (t, others)"
    using example_exit_run example_openai_run by blast
  from server_limits_kept [OF counter.semaphore_axioms runs(1, 3)] runs limits show ?thesis
    by auto
qed

text \<open>C17: who is served. A server serves only peers that its configuration allows, and handles a stream only on a
  connection that it serves already.\<close>

theorem only_allowed_peers_served:
  assumes "spawn_accept_loop S exit_config exit_inputs = (s, acts)"
    and "spawn_openai_accept_loop S openai_config openai_inputs = (t, others)"
  shows "served_before (\<lambda>p. peer_allowed p (allow_peers exit_config)) acts \<and>
    served_before (\<lambda>p. peer_allowed p (os_allow_peers openai_config)) others"
  using server_run_served [OF _ exit_admits_only] server_run_served [OF _ openai_admits_only] assms
  unfolding spawn_accept_loop_def spawn_openai_accept_loop_def by blast

theorem only_allowed_peers_served_witness:
  "served_before (\<lambda>p. peer_allowed p [7 :: nat])
      [Drop_incoming 1, Close_refused 0 8, Serve 2 7, Handle_stream 2 0, Reject_stream 2 1, Handle_stream 2 (2 :: nat)] \<and>
    served_before (\<lambda>p. True) [Serve 0 (7 :: nat), Handle_stream 0 0]"
proof -
  have peers: "allow_peers example_exit_config = [7]" "os_allow_peers example_openai_config = []"
    by (simp_all add: example_exit_config_def server_config_new_def example_openai_config_def)
  obtain s t where "spawn_accept_loop counter example_exit_config example_inputs =
      (s, [Drop_incoming 1, Close_refused 0 8, Serve 2 7, Handle_stream 2 0, Reject_stream 2 1, Handle_stream 2 2])"
      "spawn_openai_accept_loop counter example_openai_config example_openai_inputs = (t, [Serve 0 7, Handle_stream 0 0])"
    using example_exit_run example_openai_run by blast
  from only_allowed_peers_served [OF this] peers show ?thesis
    by (simp add: peer_allowed_def)
qed

text \<open>C34: the stream limit is one per connection, not one of the server. With a limit of at least one connection and one
  stream, any number of streams can be at work while no connection is: the permit of a connection is given
  back when the connection is lost, the tasks of its streams go on.\<close>

theorem streams_outlive_connections:
  assumes "semaphore S permits" and "0 < max_connections config" and "0 < max_streams_per_connection config"
    and "peer_allowed p (allow_peers config)"
  shows "\<exists>inputs s acts. spawn_accept_loop S config inputs = (s, acts) \<and> running (sv_connections s) = 0 \<and>
    (\<forall>i < k. \<exists>c. sv_established s i = Some c \<and> running (cn_streams c) = 1)"
proof -
  have "exit_admission config (Inr p) = Admitted p"
    using assms(4) by (simp add: exit_admission_def)
  from semaphore.abandoned_streams [where admit = "exit_admission config" and r = "Inr p", OF assms(1-3) this, of k] show ?thesis
    unfolding spawn_accept_loop_def by blast
qed

theorem streams_outlive_connections_witness:
  "\<exists>inputs s acts. spawn_accept_loop counter example_exit_config inputs = (s, acts) \<and> running (sv_connections s) = 0 \<and>
    (\<forall>i < 1000. \<exists>c. sv_established s i = Some c \<and> running (cn_streams c) = 1)"
  by (rule streams_outlive_connections [OF counter.semaphore_axioms, where p = 7])
    (simp_all add: example_exit_config_def server_config_new_def peer_allowed_def)

text \<open>C32: the limits of the clients. In both clients the sessions at work and the permits left make up the limit; a
  connection is handled exactly if fewer sessions than that are at work. A failed \<open>accept\<close> ends the loop
  for good: whatever arrives later is neither handled nor closed.\<close>

theorem client_limits_kept:
  assumes "semaphore S permits"
    and "accept_local_loop S socks_config socks_inputs = (s, acts)"
    and "openai_client_accept_loop S openai_config openai_inputs = (t, others)"
  shows "sessions_kept S permits (max_concurrent_sessions socks_config) s \<and>
    sessions_kept S permits (oc_max_concurrent_sessions openai_config) t \<and>
    snd (accept_local_loop S socks_config (socks_inputs @ Accept_failed # later)) = acts \<and>
    snd (openai_client_accept_loop S openai_config (openai_inputs @ Accept_failed # later)) = others"
  using assms(2, 3) listener_failed [where S = S] semaphore.listener_run_kept [OF assms(1)]
  unfolding accept_local_loop_def openai_client_accept_loop_def by blast

theorem client_limits_kept_witness:
  "\<exists>s acts t others. accept_local_loop counter client_config_default [Accepted, Session_over 0, Accepted] = (s, acts) \<and>
    openai_client_accept_loop counter openai_client_config_default [Accepted] = (t, others) \<and>
    sessions_kept counter id 128 s \<and>
    snd (accept_local_loop counter client_config_default
      ([Accepted, Session_over 0, Accepted] @ Accept_failed # [Accepted, Accepted])) = acts \<and>
    acts = [Handle_session 0, Handle_session 1]"
proof -
  obtain s acts where s: "accept_local_loop counter client_config_default [Accepted, Session_over 0, Accepted] = (s, acts)"
    by fastforce
  obtain t others where t: "openai_client_accept_loop counter openai_client_config_default [Accepted] = (t, others)"
    by fastforce
  have "acts = [Handle_session 0, Handle_session 1]"
    using s by (auto simp: accept_local_loop_def listening_def new_gate_def enter_def counter_def leave_def working_def
        Let_def client_config_default_def DEFAULT_MAX_CONCURRENT_SESSIONS_def)
  moreover have "max_concurrent_sessions client_config_default = 128"
    by (simp add: client_config_default_def DEFAULT_MAX_CONCURRENT_SESSIONS_def)
  ultimately show ?thesis
    using s t client_limits_kept [OF counter.semaphore_axioms s t, of "[Accepted, Accepted]"] by auto
qed

text \<open>C33: nobody is turned away without a word on a stream that was opened. With a permit left a stream costs nothing and gets it;
  without one the peer is told, if the write completes: the exit server answers with the general failure
  code, the OpenAI proxy with status 503, and both then finish the stream. Neither server stops over it.\<close>

theorem overload_answered:
  assumes "semaphore S permits"
    and "acquire_tunnel_stream_permit S E limit send w = (r, w1, es)"
    and "acquire_stream_permit S E limit send w = (q, v1, fs)"
  shows "(if permits limit > 0 then (\<exists>l. sem_try_acquire S limit = Some l \<and> r = Done (Some l) \<and> q = r \<and> es = [] \<and> fs = [])
     else (r = Done None \<or> r = Hang) \<and> (q = Done None \<or> q = Hang) \<and>
       (\<forall>w2 gs. write_response E send GeneralFailure w = (Done (), w2, gs) \<longrightarrow>
         sent send es = tunnel_response_bytes GeneralFailure \<and> (\<exists>ended. es = gs @ [Finish_ev send ended])) \<and>
       (\<forall>w2 gs. write_plain_error E send 503 (ascii ''Service Unavailable'') (ascii ''too many open streams'') w = (Done (), w2, gs) \<longrightarrow>
         sent send fs = plain_response_bytes 503 (ascii ''Service Unavailable'') (ascii ''too many open streams'') \<and>
         (\<exists>ended. fs = gs @ [Finish_ev send ended])))"
proof (cases "sem_try_acquire S limit")
  case (Some l)
  with semaphore.try_acquire_Some [OF assms(1) Some] assms(2, 3) show ?thesis
    by (simp add: acquire_tunnel_stream_permit_def acquire_stream_permit_def ret_def)
next
  case None
  then have "permits limit = 0"
    using semaphore.try_acquire_None [OF assms(1)] by blast
  moreover have "sends send (plain_response_bytes 503 (ascii ''Service Unavailable'') (ascii ''too many open streams''))
      (write_plain_error E send 503 (ascii ''Service Unavailable'') (ascii ''too many open streams''))"
    unfolding write_plain_error_def by (rule write_plain_response_sends)
  note answered_then_finished [OF write_response_sends assms(2) [unfolded acquire_tunnel_stream_permit_def None option.case]]
    answered_then_finished [OF this assms(3) [unfolded acquire_stream_permit_def None option.case]]
  ultimately show ?thesis
    by auto
qed

theorem overload_answered_witness:
  "\<exists>r w1 es q v1 fs. acquire_tunnel_stream_permit counter loop_env 0 1 empty_world = (r, w1, es) \<and>
    acquire_stream_permit counter loop_env 0 1 empty_world = (q, v1, fs) \<and>
    sent 1 es = tunnel_response_bytes GeneralFailure \<and>
    sent 1 fs = plain_response_bytes 503 (ascii ''Service Unavailable'') (ascii ''too many open streams'')"
proof -
  obtain r w1 es where tunnel: "acquire_tunnel_stream_permit counter loop_env 0 1 empty_world = (r, w1, es)"
    by (rule act_run)
  obtain q v1 fs where openai: "acquire_stream_permit counter loop_env 0 1 empty_world = (q, v1, fs)"
    by (rule act_run)
  obtain w2 gs where "write_response loop_env 1 GeneralFailure empty_world = (Done (), w2, gs)"
    by (simp add: write_response_def act_defs loop_defs)
  moreover obtain w3 hs where "write_plain_error loop_env 1 503 (ascii ''Service Unavailable'') (ascii ''too many open streams'')
      empty_world = (Done (), w3, hs)"
    by (simp add: write_plain_error_def write_plain_response_def loop_eval)
  ultimately show ?thesis
    using overload_answered [OF counter.semaphore_axioms tunnel openai] tunnel openai by auto
qed

end
