(* ===== verification/Identity.thy ===== *)
theory Identity
  imports Tunnel
begin

text \<open>
  The persistent identity of \<open>src/iroh_endpoint.rs\<close>: a secret key as a line of text, and a file that is
  loaded, or created by writing a temporary file and renaming it. The key type and its conversion from and
  to 32 bytes are the iroh library's, a parameter; so are the file operations, whose laws are the locale
  \<open>file_system\<close>. The files of a world are known by their contents.
\<close>

section \<open>The text of a key\<close>

record 'k key_lib =
  key_from_bytes :: "u8 list \<Rightarrow> 'k"
  key_to_bytes :: "'k \<Rightarrow> u8 list"

definition SECRET_KEY_PREFIX :: rstring where
  "SECRET_KEY_PREFIX = ascii ''iroh-secret-key-v1:''"

definition SECRET_KEY_HEX_LEN :: nat where
  "SECRET_KEY_HEX_LEN = 64"

text \<open>\<open>unreachable!\<close> for a nibble above 15 is not reached: the only calls mask to four bits.\<close>

definition hex_char :: "u8 \<Rightarrow> u8" where
  "hex_char nibble = (if nibble \<le> 9 then 0x30 + nibble else 0x61 + (nibble - 10))"

definition decode_hex_nibble :: "u8 \<Rightarrow> anyhow_error + u8" where
  "decode_hex_nibble byte =
    (if 0x30 \<le> byte \<and> byte \<le> 0x39 then Inr (byte - 0x30)
     else if 0x61 \<le> byte \<and> byte \<le> 0x66 then Inr (byte - 0x61 + 10)
     else Inl (Message ''invalid iroh identity secret hex''))"

definition hex_of :: "u8 list \<Rightarrow> rstring" where
  "hex_of bytes = concat (map (\<lambda>byte. [hex_char (high_nibble byte), hex_char (low_nibble byte)]) bytes)"

definition encode_secret_key :: "'k key_lib \<Rightarrow> 'k \<Rightarrow> rstring" where
  "encode_secret_key K secret_key = SECRET_KEY_PREFIX @ hex_of (key_to_bytes K secret_key) @ [0x0a]"

fun strip_prefix :: "rstring \<Rightarrow> rstring \<Rightarrow> rstring option" where
  "strip_prefix s [] = Some s"
| "strip_prefix [] (p # ps) = None"
| "strip_prefix (b # bs) (p # ps) = (if b = p then strip_prefix bs ps else None)"

text \<open>The loop over \<open>chunks_exact(2)\<close>: a last odd byte would be left out.\<close>

fun decode_pairs :: "u8 list \<Rightarrow> anyhow_error + u8 list" where
  "decode_pairs (h # l # rest) =
    res_then (decode_hex_nibble h) (\<lambda>high.
    res_then (decode_hex_nibble l) (\<lambda>low.
    res_then (decode_pairs rest) (\<lambda>bytes.
    Inr (join_nibbles high low # bytes))))"
| "decode_pairs _ = Inr []"

definition decode_secret_key :: "'k key_lib \<Rightarrow> rstring \<Rightarrow> anyhow_error + 'k" where
  "decode_secret_key K contents =
    (case strip_prefix (trim contents) SECRET_KEY_PREFIX of
       None \<Rightarrow> Inl (Message ''invalid iroh identity secret prefix'')
     | Some hex \<Rightarrow>
         if length hex \<noteq> SECRET_KEY_HEX_LEN then Inl (Message ''invalid iroh identity secret length'')
         else res_then (decode_pairs hex) (\<lambda>bytes. Inr (key_from_bytes K bytes)))"

section \<open>It is a codec\<close>

lemma below_16: "(m :: nat) < 16 \<Longrightarrow> m \<in> {0, 1, 2, 3, 4, 5, 6, 7, 8, 9, 10, 11, 12, 13, 14, 15}"
  by (simp, arith)

lemma hex_codes:
  "\<lbrakk> 48 \<le> (m :: nat); m \<le> 57 \<rbrakk> \<Longrightarrow> m \<in> {48, 49, 50, 51, 52, 53, 54, 55, 56, 57}"
  "\<lbrakk> 97 \<le> (m :: nat); m \<le> 102 \<rbrakk> \<Longrightarrow> m \<in> {97, 98, 99, 100, 101, 102}"
  by (simp, arith)+

lemma nibble_cases:
  assumes "(n :: u8) < 16"
  shows "n \<in> {0, 1, 2, 3, 4, 5, 6, 7, 8, 9, 10, 11, 12, 13, 14, 15}"
proof -
  have "unat n < 16"
    using assms by (simp add: word_less_nat_alt)
  from below_16 [OF this] show ?thesis
    by (simp add: word_unat_eq_iff)
qed

lemma decode_hex_char: "n < 16 \<Longrightarrow> decode_hex_nibble (hex_char n) = Inr n"
  by (drule nibble_cases) (auto simp: decode_hex_nibble_def hex_char_def)

lemma hex_char_ascii: "n < 16 \<Longrightarrow> 0x30 \<le> hex_char n \<and> hex_char n < 0x80"
  by (drule nibble_cases) (auto simp: hex_char_def)

lemma decode_hex_nibble_Inr:
  assumes "decode_hex_nibble b = Inr n"
  shows "n < 16 \<and> hex_char n = b"
proof -
  have "48 \<le> unat b \<and> unat b \<le> 57 \<or> 97 \<le> unat b \<and> unat b \<le> 102"
    using assms by (auto simp: decode_hex_nibble_def word_le_nat_alt split: if_splits)
  then have "b \<in> {48, 49, 50, 51, 52, 53, 54, 55, 56, 57, 97, 98, 99, 100, 101, 102}"
    using hex_codes [of "unat b"] by (simp add: word_unat_eq_iff) blast
  with assms show ?thesis
    by (auto simp: decode_hex_nibble_def hex_char_def)
qed

lemma length_hex_of: "length (hex_of bytes) = 2 * length bytes"
  by (induction bytes) (simp_all add: hex_of_def)

lemma hex_of_simps: "hex_of [] = []" "hex_of (b # bs) = hex_char (high_nibble b) # hex_char (low_nibble b) # hex_of bs"
  by (simp_all add: hex_of_def)

lemma decode_pairs_hex_of: "decode_pairs (hex_of bytes) = Inr bytes"
  by (induction bytes) (simp_all add: hex_of_simps decode_hex_char high_nibble_less low_nibble_less)

lemma join_nibbles_parts:
  assumes "h < 16" "l < 16"
  shows "high_nibble (join_nibbles h l) = h" "low_nibble (join_nibbles h l) = l"
  using nibble_cases [OF assms(1)] nibble_cases [OF assms(2)]
  by (auto simp: high_nibble_def low_nibble_def join_nibbles_def)

lemma decode_pairs_Inr: "\<lbrakk> decode_pairs hex = Inr bytes; even (length hex) \<rbrakk> \<Longrightarrow> hex = hex_of bytes"
proof (induction hex arbitrary: bytes rule: decode_pairs.induct)
  case (1 h l rest)
  then obtain high low more where parts: "decode_hex_nibble h = Inr high" "decode_hex_nibble l = Inr low"
      "decode_pairs rest = Inr more" "bytes = join_nibbles high low # more"
    by (auto simp: res_then_Inr)
  with "1.IH" [OF parts(3)] "1.prems" decode_hex_nibble_Inr [OF parts(1)] decode_hex_nibble_Inr [OF parts(2)]
  show ?case
    by (simp add: hex_of_simps join_nibbles_parts)
qed (simp_all add: hex_of_simps)

lemma strip_prefix_Some: "strip_prefix s p = Some r \<longleftrightarrow> s = p @ r"
  by (induction s p rule: strip_prefix.induct) auto

text \<open>Trimming leaves alone what begins and ends with printable ASCII, and drops a line feed at the end.\<close>

lemma ascii_not_space:
  assumes "0x20 < a" "a < (0x80 :: u8)"
  shows "\<not> a \<le> 0x0D" "a \<noteq> 0x20" "\<not> 0x80 \<le> a" "a \<noteq> 0xC2" "a \<noteq> 0xE1" "a \<noteq> 0xE2" "a \<noteq> 0xE3"
    "a \<noteq> 0x85" "a \<noteq> 0xA0" "a \<noteq> 0x80" "a \<noteq> 0xA8" "a \<noteq> 0xA9" "a \<noteq> 0xAF" "a \<noteq> 0x9F"
  using assms by (auto simp: word_less_nat_alt word_le_nat_alt)

lemma trim_start_ascii: "0x20 < a \<Longrightarrow> a < 0x80 \<Longrightarrow> trim_start (a # bs) = a # bs"
  by (subst trim_start.simps) (simp add: ascii_not_space split: list.split)

lemma trim_start_rev_ascii: "0x20 < a \<Longrightarrow> a < 0x80 \<Longrightarrow> trim_start_rev (a # bs) = a # bs"
  by (subst trim_start_rev.simps) (simp add: ascii_not_space split: list.split)

lemma secret_prefix_bytes: "\<exists>ps. SECRET_KEY_PREFIX = 0x69 # ps"
  by (simp add: SECRET_KEY_PREFIX_def)

lemma trim_encoded:
  assumes "bytes \<noteq> []"
  shows "trim (SECRET_KEY_PREFIX @ hex_of bytes @ [0x0a]) = SECRET_KEY_PREFIX @ hex_of bytes"
proof -
  obtain bs b where bytes: "bytes = bs @ [b]"
    using assms by (cases bytes rule: rev_cases) simp_all
  obtain ps where ps: "SECRET_KEY_PREFIX = 0x69 # ps"
    using secret_prefix_bytes by blast
  have hex: "hex_of bytes = hex_of bs @ [hex_char (high_nibble b), hex_char (low_nibble b)]"
    by (simp add: bytes hex_of_def)
  have visible: "0x20 < hex_char (low_nibble b)" "hex_char (low_nibble b) < 0x80"
    using hex_char_ascii [OF low_nibble_less, of b] by (auto simp: word_less_nat_alt word_le_nat_alt)
  have "trim_start (SECRET_KEY_PREFIX @ hex_of bytes @ [0x0a]) = SECRET_KEY_PREFIX @ hex_of bytes @ [0x0a]"
    using trim_start_ascii [of "0x69"] by (simp add: ps)
  then show ?thesis
    using trim_start_rev_ascii [OF visible] by (simp add: trim_def hex trim_start_rev.simps(1) [of "0xA"])
qed

lemma decode_secret_key_Inr:
  "decode_secret_key K contents = Inr k \<longleftrightarrow>
   (\<exists>bytes. length bytes = 32 \<and> trim contents = SECRET_KEY_PREFIX @ hex_of bytes \<and> k = key_from_bytes K bytes)"
  (is "_ \<longleftrightarrow> ?written")
proof
  assume "decode_secret_key K contents = Inr k"
  then obtain hex bytes where hex: "trim contents = SECRET_KEY_PREFIX @ hex" "length hex = 64"
      and bytes: "decode_pairs hex = Inr bytes" "k = key_from_bytes K bytes"
    by (auto simp: decode_secret_key_def strip_prefix_Some SECRET_KEY_HEX_LEN_def res_then_Inr
        split: option.splits if_splits)
  with decode_pairs_Inr [OF bytes(1)] have "hex = hex_of bytes"
    by simp
  with hex bytes show ?written
    by (auto simp: length_hex_of)
next
  assume ?written
  then obtain bytes where bytes: "length bytes = 32" "trim contents = SECRET_KEY_PREFIX @ hex_of bytes"
      "k = key_from_bytes K bytes"
    by blast
  have "strip_prefix (trim contents) SECRET_KEY_PREFIX = Some (hex_of bytes)"
    by (simp add: strip_prefix_Some bytes)
  then show "decode_secret_key K contents = Inr k"
    by (simp add: decode_secret_key_def SECRET_KEY_HEX_LEN_def length_hex_of bytes decode_pairs_hex_of res_then_def)
qed

definition lawful_key :: "'k key_lib \<Rightarrow> 'k \<Rightarrow> bool" where
  "lawful_key K k \<longleftrightarrow> length (key_to_bytes K k) = 32 \<and> key_from_bytes K (key_to_bytes K k) = k"

lemma decode_encode: "lawful_key K k \<Longrightarrow> decode_secret_key K (encode_secret_key K k) = Inr k"
proof -
  assume k: "lawful_key K k"
  then have "key_to_bytes K k \<noteq> []"
    by (auto simp: lawful_key_def)
  from trim_encoded [OF this] k show ?thesis
    by (auto simp: decode_secret_key_Inr encode_secret_key_def lawful_key_def)
qed

section \<open>Paths\<close>

text \<open>
  A path is the list of its components; an absolute one begins with the component \<open>/\<close>. These are the
  functions of \<open>std::path::Path\<close> that the program calls.
\<close>

type_synonym path = "rstring list"

definition root_component :: rstring where
  "root_component = ascii ''/''"

definition parent :: "path \<Rightarrow> path option" where
  "parent p = (if p = [] \<or> last p = root_component then None else Some (butlast p))"

definition file_name :: "path \<Rightarrow> rstring option" where
  "file_name p = (if p = [] \<or> last p = root_component \<or> last p = ascii ''..'' then None else Some (last p))"

text \<open>A dot at the very beginning of a name does not start an extension.\<close>

definition file_stem_of :: "rstring \<Rightarrow> rstring" where
  "file_stem_of name =
    (case rposition (\<lambda>b. b = 0x2e) name of
       Some (Suc i) \<Rightarrow> take (Suc i) name
     | _ \<Rightarrow> name)"

definition with_extension :: "path \<Rightarrow> rstring \<Rightarrow> path" where
  "with_extension p ext =
    (case file_name p of
       None \<Rightarrow> p
     | Some name \<Rightarrow> butlast p @ [file_stem_of name @ 0x2e # ext])"

section \<open>File operations\<close>

text \<open>
  The calls of \<open>std::fs\<close>, over a world of files and with open files \<open>'f\<close>. A program over them, a
  \<open>fs_act\<close>, gives its result, the next world, and all the worlds between: a process that is killed
  leaves one of those behind.
\<close>

record ('w, 'f) fs_lib =
  fs_exists :: "path \<Rightarrow> 'w \<Rightarrow> bool"
  fs_read_to_string :: "path \<Rightarrow> 'w \<Rightarrow> (io_error + rstring) \<times> 'w"
  fs_create_dir_all :: "path \<Rightarrow> 'w \<Rightarrow> (io_error + unit) \<times> 'w"
  fs_open_new :: "path \<Rightarrow> nat \<Rightarrow> 'w \<Rightarrow> (io_error + 'f) \<times> 'w"
  fs_write_all :: "'f \<Rightarrow> rstring \<Rightarrow> 'w \<Rightarrow> (io_error + unit) \<times> 'w"
  fs_flush :: "'f \<Rightarrow> 'w \<Rightarrow> (io_error + unit) \<times> 'w"
  fs_sync_all :: "'f \<Rightarrow> 'w \<Rightarrow> (io_error + unit) \<times> 'w"
  fs_remove_file :: "path \<Rightarrow> 'w \<Rightarrow> (io_error + unit) \<times> 'w"
  fs_rename :: "path \<Rightarrow> path \<Rightarrow> 'w \<Rightarrow> (io_error + unit) \<times> 'w"

type_synonym ('w, 'a) fs_act = "'w \<Rightarrow> (anyhow_error + 'a) \<times> 'w \<times> 'w list"

definition fs_ret :: "anyhow_error + 'a \<Rightarrow> ('w, 'a) fs_act" where
  "fs_ret r w = (r, w, [])"

definition fs_call :: "('w \<Rightarrow> (io_error + 'a) \<times> 'w) \<Rightarrow> ('w, 'a) fs_act" where
  "fs_call f w = (case f w of (r, w1) \<Rightarrow> (map_sum IoErr id r, w1, [w1]))"

definition fs_then :: "('w, 'a) fs_act \<Rightarrow> (anyhow_error + 'a \<Rightarrow> ('w, 'b) fs_act) \<Rightarrow> ('w, 'b) fs_act" where
  "fs_then m g w = (case m w of (r, w1, vs) \<Rightarrow> (case g r w1 of (r2, w2, us) \<Rightarrow> (r2, w2, vs @ us)))"

text \<open>\<open>?\<close> on a call.\<close>

definition fs_try :: "('w, 'a) fs_act \<Rightarrow> ('a \<Rightarrow> ('w, 'b) fs_act) \<Rightarrow> ('w, 'b) fs_act" where
  "fs_try m g = fs_then m (\<lambda>r. case r of Inl e \<Rightarrow> fs_ret (Inl e) | Inr x \<Rightarrow> g x)"

section \<open>Loading or creating the identity\<close>

text \<open>
  \<open>fresh\<close> is the key that \<open>SecretKey::generate\<close> gives. Errors carry the message of their context in the
  program, which only the caller's report shows; here they are the error of the call. One start is modelled:
  two that run at the same time with the same path are not.
\<close>

definition create_parent :: "('w, 'f) fs_lib \<Rightarrow> path \<Rightarrow> ('w, unit) fs_act" where
  "create_parent F path =
    (case parent path of
       Some dir \<Rightarrow> if dir = [] then fs_ret (Inr ()) else fs_call (fs_create_dir_all F dir)
     | None \<Rightarrow> fs_ret (Inr ()))"

definition write_new_file :: "('w, 'f) fs_lib \<Rightarrow> path \<Rightarrow> rstring \<Rightarrow> ('w, unit) fs_act" where
  "write_new_file F temp_path encoded =
    fs_try (fs_call (fs_open_new F temp_path 384)) (\<lambda>file.
    fs_try (fs_call (fs_write_all F file encoded)) (\<lambda>_.
    fs_try (fs_call (fs_flush F file)) (\<lambda>_.
    fs_call (fs_sync_all F file))))"

definition load_or_create_secret_key ::
  "('w, 'f) fs_lib \<Rightarrow> 'k key_lib \<Rightarrow> 'k \<Rightarrow> path \<Rightarrow> ('w, 'k) fs_act" where
  "load_or_create_secret_key F K fresh path w =
    (if fs_exists F path w then
       fs_try (fs_call (fs_read_to_string F path)) (\<lambda>contents. fs_ret (decode_secret_key K contents)) w
     else
       (let temp_path = with_extension path (ascii ''tmp'') in
        fs_try (create_parent F path) (\<lambda>_.
        fs_then (write_new_file F temp_path (encode_secret_key K fresh)) (\<lambda>write_result.
          case write_result of
            Inl error \<Rightarrow> fs_then (fs_call (fs_remove_file F temp_path)) (\<lambda>_. fs_ret (Inl error))
          | Inr _ \<Rightarrow>
              fs_try (fs_call (fs_rename F temp_path path)) (\<lambda>_.
              fs_ret (Inr fresh)))) w))"

section \<open>What a file system promises\<close>

text \<open>
  \<open>files\<close> is the content of the regular files of a world, \<open>at\<close> the path of an open file. A failed call
  changes nothing, except that a failed write may have written a part. A rename replaces its target
  at once, and one of a file to itself changes nothing. There is no law for \<open>exists\<close>: it is documented to
  answer false also when the metadata of the path cannot be read. The laws are about calls of this process; nobody
  else writes these files meanwhile.
\<close>

lemma map_sum_IoErr: "map_sum IoErr id r = Inl e \<Longrightarrow> \<exists>io. e = IoErr io"
  by (cases r) auto

locale file_system =
  fixes F :: "('w, 'f) fs_lib"
    and files :: "'w \<Rightarrow> path \<Rightarrow> rstring option"
    and at :: "'f \<Rightarrow> path"
  assumes read_law: "fs_read_to_string F p w = (got, w1) \<Longrightarrow> files w1 = files w \<and> (\<forall>s. got = Inr s \<longrightarrow> files w p = Some s)"
    and mkdir_law: "fs_create_dir_all F p w = (r, w1) \<Longrightarrow> files w1 = files w"
    and open_failed: "fs_open_new F p mode w = (Inl e, w1) \<Longrightarrow> files w1 = files w"
    and open_new: "fs_open_new F p mode w = (Inr f, w1) \<Longrightarrow> at f = p \<and> files w p = None \<and> files w1 = (files w)(p \<mapsto> [])"
    and write_law: "\<lbrakk> fs_write_all F f s w = (r, w1); files w (at f) = Some c \<rbrakk> \<Longrightarrow>
      (\<exists>c1. files w1 = (files w)(at f \<mapsto> c1) \<and> (r = Inr () \<longrightarrow> c1 = c @ s))"
    and flush_law: "fs_flush F f w = (r, w1) \<Longrightarrow> files w1 = files w"
    and sync_law: "fs_sync_all F f w = (r, w1) \<Longrightarrow> files w1 = files w"
    and remove_law: "fs_remove_file F p w = (r, w1) \<Longrightarrow> files w1 = (case r of Inl _ \<Rightarrow> files w | Inr _ \<Rightarrow> (files w)(p := None))"
    and rename_law: "\<lbrakk> fs_rename F p q w = (r, w1); p \<noteq> q \<rbrakk> \<Longrightarrow>
      files w1 = (case r of Inl _ \<Rightarrow> files w | Inr _ \<Rightarrow> (files w)(q := files w p, p := None))"
    and rename_same: "fs_rename F p p w = (r, w1) \<Longrightarrow> files w1 = files w"
begin

text \<open>Writing a new file concerns that file alone, and a write that succeeds has made it new and complete.\<close>

lemma write_new_file_files:
  assumes "write_new_file F temp enc w = (r, w1, vs)"
  shows "(\<forall>v \<in> set (w1 # vs). \<forall>q. q \<noteq> temp \<longrightarrow> files v q = files w q) \<and>
    (case r of
       Inr _ \<Rightarrow> files w temp = None \<and> files w1 temp = Some enc \<and> (\<exists>v \<in> set vs. files v temp = Some [])
     | Inl e \<Rightarrow> (\<exists>io. e = IoErr io) \<and> (files w temp \<noteq> None \<longrightarrow> files w1 = files w))"
proof -
  obtain opened w2 where opened: "fs_open_new F temp 384 w = (opened, w2)"
    by fastforce
  show ?thesis
  proof (cases opened)
    case (Inl e)
    with assms opened open_failed [of temp 384 w e w2] show ?thesis
      by (auto simp: write_new_file_def fs_try_def fs_then_def fs_call_def fs_ret_def)
  next
    case (Inr f)
    obtain written w3 where written: "fs_write_all F f enc w2 = (written, w3)"
      by fastforce
    obtain flushed w4 where flushed: "fs_flush F f w3 = (flushed, w4)"
      by fastforce
    obtain synced w5 where synced: "fs_sync_all F f w4 = (synced, w5)"
      by fastforce
    have new: "at f = temp" "files w temp = None" "files w2 = (files w)(temp \<mapsto> [])"
      using open_new [of temp 384 w f w2] opened Inr by auto
    then obtain c where c: "files w3 = (files w)(temp \<mapsto> c)" "written = Inr () \<longrightarrow> c = enc"
      using write_law [OF written, of "[]"] by auto
    show ?thesis
      using assms new c flush_law [OF flushed] sync_law [OF synced]
      by (cases written; cases flushed; cases synced)
        (auto simp: write_new_file_def fs_try_def fs_then_def fs_call_def fs_ret_def
          opened Inr written flushed synced)
  qed
qed

lemma create_parent_files:
  assumes "create_parent F path w = (r, w1, vs)"
  shows "(\<forall>v \<in> set (w1 # vs). files v = files w) \<and> (\<forall>e. r = Inl e \<longrightarrow> (\<exists>io. e = IoErr io))"
  using assms
  by (auto simp: create_parent_def fs_ret_def fs_call_def dest: mkdir_law map_sum_IoErr split: option.splits if_splits prod.splits)

lemma load_existing:
  assumes "load_or_create_secret_key F K fresh path w = (r, w1, vs)" and "fs_exists F path w"
  shows "(\<forall>v \<in> set (w1 # vs). files v = files w) \<and>
    (\<forall>k. r = Inr k \<longrightarrow> (\<exists>s. files w path = Some s \<and> decode_secret_key K s = Inr k))" (is "_ \<and> ?loaded")
    and "(\<exists>e. r = Inl (IoErr e)) \<or> (\<exists>s. files w path = Some s \<and> r = decode_secret_key K s)"
proof -
  obtain contents w2 where contents: "fs_read_to_string F path w = (contents, w2)"
    by fastforce
  from assms contents read_law [OF contents]
  show "(\<forall>v \<in> set (w1 # vs). files v = files w) \<and> ?loaded"
      "(\<exists>e. r = Inl (IoErr e)) \<or> (\<exists>s. files w path = Some s \<and> r = decode_secret_key K s)"
    by (cases contents;
      auto simp: load_or_create_secret_key_def fs_try_def fs_then_def fs_call_def fs_ret_def)+
qed

text \<open>What a start that finds no file does: its steps, and what each of them leaves in the files.\<close>

lemma create_fresh:
  assumes run: "load_or_create_secret_key F K fresh path w = (r, w1, vs)" and absent: "\<not> fs_exists F path w"
    and temp: "with_extension path (ascii ''tmp'') = temp" "temp \<noteq> path"
  defines "enc \<equiv> encode_secret_key K fresh"
  shows "(\<forall>v \<in> set (w1 # vs). (files v path = files w path \<or> files v path = Some enc) \<and>
      (\<forall>q. q \<noteq> path \<and> q \<noteq> temp \<longrightarrow> files v q = files w q)) \<and>
    (case r of
       Inr k \<Rightarrow> k = fresh \<and> files w temp = None \<and> files w1 path = Some enc \<and> files w1 temp = None
     | Inl e \<Rightarrow> (\<exists>io. e = IoErr io) \<and> files w1 path = files w path)"
proof -
  obtain made w2 us where made: "create_parent F path w = (made, w2, us)"
    by (metis prod_cases3)
  note parent = create_parent_files [OF made]
  obtain written w3 ys where written: "write_new_file F temp enc w2 = (written, w3, ys)"
    by (metis prod_cases3)
  note new = write_new_file_files [OF written]
  obtain removed w4 where removed: "fs_remove_file F temp w3 = (removed, w4)"
    by fastforce
  obtain renamed w5 where renamed: "fs_rename F temp path w3 = (renamed, w5)"
    by fastforce
  note laws = remove_law [OF removed] rename_law [OF renamed temp(2)]
  show ?thesis
  proof (cases made)
    case (Inl e)
    with run absent made parent show ?thesis
      by (auto simp: load_or_create_secret_key_def fs_try_def fs_then_def fs_ret_def Let_def)
  next
    case (Inr _)
    then show ?thesis
      using run absent made parent written new removed renamed laws temp
      by (cases written; cases removed; cases renamed)
        (auto simp: load_or_create_secret_key_def fs_try_def fs_then_def fs_ret_def fs_call_def enc_def Let_def)
  qed
qed

text \<open>The same for a path that is its own temporary path: a success has passed through the empty file, and a
  failure may have removed what was there.\<close>

lemma create_in_place:
  assumes run: "load_or_create_secret_key F K fresh path w = (r, w1, vs)" and absent: "\<not> fs_exists F path w"
    and temp: "with_extension path (ascii ''tmp'') = path"
  shows "(\<forall>v \<in> set (w1 # vs). \<forall>q. q \<noteq> path \<longrightarrow> files v q = files w q) \<and>
    (case r of
       Inr k \<Rightarrow> k = fresh \<and> files w path = None \<and> files w1 path = Some (encode_secret_key K fresh) \<and>
         (\<exists>v \<in> set vs. files v path = Some [])
     | Inl e \<Rightarrow> (\<exists>io. e = IoErr io) \<and>
         (files w path \<noteq> None \<longrightarrow> files w1 path = files w path \<or> files w1 path = None))"
proof -
  define enc where "enc = encode_secret_key K fresh"
  obtain made w2 us where made: "create_parent F path w = (made, w2, us)"
    by (metis prod_cases3)
  note parent = create_parent_files [OF made]
  obtain written w3 ys where written: "write_new_file F path enc w2 = (written, w3, ys)"
    by (metis prod_cases3)
  note new = write_new_file_files [OF written]
  obtain removed w4 where removed: "fs_remove_file F path w3 = (removed, w4)"
    by fastforce
  obtain renamed w5 where renamed: "fs_rename F path path w3 = (renamed, w5)"
    by fastforce
  note laws = remove_law [OF removed] rename_same [OF renamed]
  show ?thesis
  proof (cases made)
    case (Inl e)
    with run absent made parent show ?thesis
      by (auto simp: load_or_create_secret_key_def fs_try_def fs_then_def fs_ret_def Let_def)
  next
    case (Inr _)
    then show ?thesis
      using run absent made parent written new removed renamed laws temp
      by (cases written; cases removed; cases renamed)
        (auto simp: load_or_create_secret_key_def fs_try_def fs_then_def fs_ret_def fs_call_def enc_def Let_def)
  qed
qed

text \<open>Either way, a start that returns a key has it in its file.\<close>

lemma key_in_file:
  assumes "load_or_create_secret_key F K fresh path w = (Inr k, w1, vs)" and "lawful_key K fresh"
  shows "\<exists>s. files w1 path = Some s \<and> decode_secret_key K s = Inr k"
proof (cases "fs_exists F path w")
  case True
  with load_existing(1) [OF assms(1) True] show ?thesis
    by auto
next
  case False
  with create_fresh [OF assms(1) False refl] create_in_place [OF assms(1) False] decode_encode [OF assms(2)]
  show ?thesis
    by (cases "with_extension path (ascii ''tmp'') = path") auto
qed

end

section \<open>Files in memory\<close>

text \<open>
  A world with the files as a map, a list that says which of the next calls fail, and whether the metadata of
  files cannot be read. A write that fails leaves nothing in the file. \<open>exists\<close> asks for files only, and a
  directory is always there.
\<close>

record memory =
  mem_files :: "path \<Rightarrow> rstring option"
  mem_faults :: "bool list"
  mem_blind :: bool

definition mem_call ::
  "(memory \<Rightarrow> (io_error + 'a) \<times> (path \<Rightarrow> rstring option)) \<Rightarrow> memory \<Rightarrow> (io_error + 'a) \<times> memory" where
  "mem_call f w =
    (case mem_faults w of
       True # later \<Rightarrow> (Inl (OtherKind 5), w\<lparr>mem_faults := later\<rparr>)
     | faults \<Rightarrow> (case f w of (r, fs) \<Rightarrow> (r, w\<lparr>mem_files := fs, mem_faults := tl faults\<rparr>)))"

definition memory_fs :: "(memory, path) fs_lib" where
  "memory_fs = \<lparr>
     fs_exists = (\<lambda>p w. \<not> mem_blind w \<and> mem_files w p \<noteq> None),
     fs_read_to_string = (\<lambda>p. mem_call (\<lambda>w.
       (case mem_files w p of None \<Rightarrow> Inl NotFound | Some s \<Rightarrow> Inr s, mem_files w))),
     fs_create_dir_all = (\<lambda>p. mem_call (\<lambda>w. (Inr (), mem_files w))),
     fs_open_new = (\<lambda>p mode. mem_call (\<lambda>w.
       (case mem_files w p of
          None \<Rightarrow> (Inr p, (mem_files w)(p \<mapsto> []))
        | Some _ \<Rightarrow> (Inl AlreadyExists, mem_files w)))),
     fs_write_all = (\<lambda>p s. mem_call (\<lambda>w.
       (Inr (), (mem_files w)(p := map_option (\<lambda>c. c @ s) (mem_files w p))))),
     fs_flush = (\<lambda>p. mem_call (\<lambda>w. (Inr (), mem_files w))),
     fs_sync_all = (\<lambda>p. mem_call (\<lambda>w. (Inr (), mem_files w))),
     fs_remove_file = (\<lambda>p. mem_call (\<lambda>w.
       (case mem_files w p of
          None \<Rightarrow> (Inl NotFound, mem_files w)
        | Some _ \<Rightarrow> (Inr (), (mem_files w)(p := None))))),
     fs_rename = (\<lambda>p q. mem_call (\<lambda>w.
       (case mem_files w p of
          None \<Rightarrow> (Inl NotFound, mem_files w)
        | Some c \<Rightarrow> (Inr (), if p = q then mem_files w else (mem_files w)(q := Some c, p := None))))) \<rparr>"

interpretation memory: file_system memory_fs mem_files "\<lambda>p. p"
proof
  fix w w1 :: memory and p q f :: path and s c :: rstring
  fix r :: "io_error + unit" and got :: "io_error + rstring" and e mode
  show "fs_read_to_string memory_fs p w = (got, w1) \<Longrightarrow>
      mem_files w1 = mem_files w \<and> (\<forall>s. got = Inr s \<longrightarrow> mem_files w p = Some s)"
    by (auto simp: memory_fs_def mem_call_def split: list.splits bool.splits option.splits)
  show "fs_create_dir_all memory_fs p w = (r, w1) \<Longrightarrow> mem_files w1 = mem_files w"
    by (auto simp: memory_fs_def mem_call_def split: list.splits bool.splits)
  show "fs_open_new memory_fs p mode w = (Inl e, w1) \<Longrightarrow> mem_files w1 = mem_files w"
    by (auto simp: memory_fs_def mem_call_def split: list.splits bool.splits option.splits)
  show "fs_open_new memory_fs p mode w = (Inr f, w1) \<Longrightarrow>
      f = p \<and> mem_files w p = None \<and> mem_files w1 = (mem_files w)(p \<mapsto> [])"
    by (auto simp: memory_fs_def mem_call_def split: list.splits bool.splits option.splits)
  show "\<lbrakk> fs_write_all memory_fs f s w = (r, w1); mem_files w f = Some c \<rbrakk> \<Longrightarrow>
      (\<exists>c1. mem_files w1 = (mem_files w)(f \<mapsto> c1) \<and> (r = Inr () \<longrightarrow> c1 = c @ s))"
    by (auto simp: memory_fs_def mem_call_def split: list.splits bool.splits) (metis fun_upd_triv)+
  show "fs_flush memory_fs f w = (r, w1) \<Longrightarrow> mem_files w1 = mem_files w"
    by (auto simp: memory_fs_def mem_call_def split: list.splits bool.splits)
  show "fs_sync_all memory_fs f w = (r, w1) \<Longrightarrow> mem_files w1 = mem_files w"
    by (auto simp: memory_fs_def mem_call_def split: list.splits bool.splits)
  show "fs_remove_file memory_fs p w = (r, w1) \<Longrightarrow>
      mem_files w1 = (case r of Inl _ \<Rightarrow> mem_files w | Inr _ \<Rightarrow> (mem_files w)(p := None))"
    by (auto simp: memory_fs_def mem_call_def split: list.splits bool.splits option.splits)
  show "\<lbrakk> fs_rename memory_fs p q w = (r, w1); p \<noteq> q \<rbrakk> \<Longrightarrow>
      mem_files w1 = (case r of Inl _ \<Rightarrow> mem_files w | Inr _ \<Rightarrow> (mem_files w)(q := mem_files w p, p := None))"
    by (auto simp: memory_fs_def mem_call_def split: list.splits bool.splits option.splits)
  show "fs_rename memory_fs p p w = (r, w1) \<Longrightarrow> mem_files w1 = mem_files w"
    by (auto simp: memory_fs_def mem_call_def split: list.splits bool.splits option.splits)
qed

definition example_keys :: "u8 list key_lib" where
  "example_keys = \<lparr> key_from_bytes = (\<lambda>bytes. bytes), key_to_bytes = (\<lambda>key. key) \<rparr>"

definition example_key :: "u8 list" where
  "example_key = replicate 32 0xa7"

definition example_path :: path where
  "example_path = [ascii ''server.key'']"

definition no_files :: memory where
  "no_files = \<lparr> mem_files = Map.empty, mem_faults = [], mem_blind = False \<rparr>"

lemma example_temp: "with_extension example_path (ascii ''tmp'') = [ascii ''server.tmp'']"
  by code_simp

lemma example_lawful: "lawful_key example_keys example_key"
  by (simp add: lawful_key_def example_keys_def example_key_def)

lemma memory_creation:
  assumes "\<not> fs_exists memory_fs example_path w" and "mem_faults w = []" and "mem_files w [ascii ''server.tmp''] = None"
  shows "\<exists>w1 vs. load_or_create_secret_key memory_fs K key example_path w = (Inr key, w1, vs) \<and>
    mem_files w1 = (mem_files w)(example_path \<mapsto> encode_secret_key K key) \<and> mem_faults w1 = [] \<and>
    mem_blind w1 = mem_blind w"
proof -
  have parent: "parent example_path = Some []"
    by code_simp
  define temp where "temp = [ascii ''server.tmp'']"
  have temp: "with_extension example_path (ascii ''tmp'') = temp" "temp \<noteq> example_path" "mem_files w temp = None"
    using assms(3) by (simp_all only: example_temp temp_def) code_simp
  show ?thesis
    unfolding load_or_create_secret_key_def temp(1)
    using assms(1,2) temp(2,3) by (auto simp: parent memory_fs_def mem_call_def
        fs_try_def fs_then_def fs_call_def fs_ret_def create_parent_def write_new_file_def Let_def fun_eq_iff)
qed

lemma example_creation:
  "\<exists>w1 vs. load_or_create_secret_key memory_fs example_keys example_key example_path no_files = (Inr example_key, w1, vs) \<and>
    mem_files w1 = Map.empty(example_path \<mapsto> encode_secret_key example_keys example_key) \<and> mem_faults w1 = [] \<and>
    \<not> mem_blind w1"
  using memory_creation [of no_files example_keys example_key] by (simp add: no_files_def memory_fs_def)

section \<open>Properties\<close>

text \<open>C31: the text of a key. What is written for a key is read back as that key. A text is read as a key exactly
  if, without white space around it, it is the prefix and then 64 lower-case hexadecimal digits; the key is
  the one of the 32 bytes they spell.\<close>

theorem secret_key_codec:
  "(lawful_key K k \<longrightarrow> decode_secret_key K (encode_secret_key K k) = Inr k) \<and>
   (decode_secret_key K contents = Inr k \<longleftrightarrow>
     (\<exists>bytes. length bytes = 32 \<and> trim contents = SECRET_KEY_PREFIX @ hex_of bytes \<and> k = key_from_bytes K bytes))"
  using decode_encode [of K k] decode_secret_key_Inr [of K contents k] by blast

theorem secret_key_codec_witness:
  "decode_secret_key example_keys (encode_secret_key example_keys example_key) = Inr example_key"
  using secret_key_codec [of example_keys example_key] example_lawful by blast

text \<open>C24: an identity is created whole or not at all, when it is not written in place. In every world that a
  start passes through, and so wherever it may be killed, the identity file is as it was before, or it is complete with
  the new key; the latter only if \<open>exists\<close> answered that there is no file, which it does also when it
  cannot read the metadata of one that is there. Files other than it and its temporary file are left alone. A start
  that returns a key has it in the file, and the temporary file is gone; one that fails leaves the identity file as
  it was. A temporary file that an earlier start left behind makes the creation fail. All this is for a path that
  is not its own temporary path: one with the extension \<open>tmp\<close> is written in place, and a start that creates it
  passes through a world where it is there and empty.\<close>

theorem identity_created_whole:
  assumes "file_system F files at" and "load_or_create_secret_key F K fresh path w = (r, w1, vs)"
    and "with_extension path (ascii ''tmp'') = temp"
  shows "(if temp \<noteq> path then
      (\<forall>v \<in> set (w1 # vs).
        (files v path = files w path \<or> \<not> fs_exists F path w \<and> files v path = Some (encode_secret_key K fresh)) \<and>
        (\<forall>q. q \<noteq> path \<and> q \<noteq> temp \<longrightarrow> files v q = files w q)) \<and>
      (case r of
         Inl _ \<Rightarrow> files w1 path = files w path
       | Inr k \<Rightarrow>
           if fs_exists F path w then \<exists>s. files w1 path = Some s \<and> decode_secret_key K s = Inr k
           else k = fresh \<and> files w1 path = Some (encode_secret_key K fresh) \<and> files w temp = None \<and> files w1 temp = None)
    else
      (\<forall>k. r = Inr k \<and> \<not> fs_exists F path w \<longrightarrow> (\<exists>v \<in> set vs. files v path = Some [])))"
proof (cases "fs_exists F path w")
  case True
  with file_system.load_existing(1) [OF assms(1, 2)] show ?thesis
    by (auto split: sum.split)
next
  case False
  show ?thesis
  proof (cases "temp = path")
    case True
    with file_system.create_in_place [OF assms(1, 2) False] assms(3) show ?thesis
      by (auto split: sum.splits)
  next
    case distinct: False
    with file_system.create_fresh [OF assms(1, 2) False assms(3) distinct] False show ?thesis
      by (auto split: sum.split)
  qed
qed

definition example_tmp_path :: path where
  "example_tmp_path = [ascii ''server.tmp'']"

lemma example_in_place:
  "\<exists>w1 vs. load_or_create_secret_key memory_fs example_keys example_key example_tmp_path no_files = (Inr example_key, w1, vs)"
proof -
  have "parent example_tmp_path = Some []" "with_extension example_tmp_path (ascii ''tmp'') = example_tmp_path"
    by code_simp+
  then show ?thesis
    by (auto simp: load_or_create_secret_key_def no_files_def memory_fs_def mem_call_def
        fs_try_def fs_then_def fs_call_def fs_ret_def create_parent_def write_new_file_def Let_def)
qed

text \<open>Both kinds of path: \<open>server.key\<close> is never there in part, \<open>server.tmp\<close> is.\<close>

theorem identity_created_whole_witness:
  "(\<exists>w1 vs. load_or_create_secret_key memory_fs example_keys example_key example_path no_files = (Inr example_key, w1, vs) \<and>
      (\<forall>v \<in> set (w1 # vs). mem_files v example_path = None \<or>
         mem_files v example_path = Some (encode_secret_key example_keys example_key)) \<and>
      mem_files w1 example_path = Some (encode_secret_key example_keys example_key)) \<and>
    (\<exists>w1 vs. load_or_create_secret_key memory_fs example_keys example_key example_tmp_path no_files = (Inr example_key, w1, vs) \<and>
      (\<exists>v \<in> set vs. mem_files v example_tmp_path = Some []))"
proof
  have temp: "[ascii ''server.tmp''] \<noteq> example_path"
    by code_simp
  have in_place: "with_extension example_tmp_path (ascii ''tmp'') = example_tmp_path"
    by code_simp
  have start: "mem_files no_files = Map.empty" "\<not> fs_exists memory_fs p no_files" for p
    by (simp_all add: no_files_def memory_fs_def)
  obtain w1 vs where run: "load_or_create_secret_key memory_fs example_keys example_key example_path no_files = (Inr example_key, w1, vs)"
    using example_creation by blast
  from identity_created_whole [OF memory.file_system_axioms run example_temp] temp start run
  show "\<exists>w1 vs. load_or_create_secret_key memory_fs example_keys example_key example_path no_files = (Inr example_key, w1, vs) \<and>
      (\<forall>v \<in> set (w1 # vs). mem_files v example_path = None \<or>
         mem_files v example_path = Some (encode_secret_key example_keys example_key)) \<and>
      mem_files w1 example_path = Some (encode_secret_key example_keys example_key)"
    by (simp only: if_True simp_thms sum.case if_False) fastforce
  obtain w1 vs where run: "load_or_create_secret_key memory_fs example_keys example_key example_tmp_path no_files = (Inr example_key, w1, vs)"
    using example_in_place by blast
  from identity_created_whole [OF memory.file_system_axioms run in_place] start run
  show "\<exists>w1 vs. load_or_create_secret_key memory_fs example_keys example_key example_tmp_path no_files = (Inr example_key, w1, vs) \<and>
      (\<exists>v \<in> set vs. mem_files v example_tmp_path = Some [])"
    by fastforce
qed

text \<open>C25: an identity survives a restart, as long as its file can be seen. Take a start with the same identity
  file as an earlier start that returned a key. If \<open>exists\<close> finds the file, the start returns that key again,
  whatever new key it could generate, or fails because the file cannot be read, and leaves the file alone. If
  \<open>exists\<close> answers that the file is not there, as it does when its metadata cannot be read, the start either
  fails or replaces the identity by a new one; a failure leaves the old file, except that a file with the
  extension \<open>tmp\<close> may be deleted.\<close>

theorem identity_survives_restart:
  assumes "file_system F files at" and "lawful_key K fresh"
    and "load_or_create_secret_key F K fresh path w = (Inr k, w1, vs)"
    and "files w2 path = files w1 path" and "load_or_create_secret_key F K another path w2 = (r, w3, us)"
  shows "if fs_exists F path w2 then (r = Inr k \<or> (\<exists>e. r = Inl (IoErr e))) \<and> files w3 path = files w2 path
    else r = Inr another \<and> files w3 path = Some (encode_secret_key K another) \<or>
      (\<exists>e. r = Inl (IoErr e)) \<and>
        (files w3 path = files w2 path \<or> with_extension path (ascii ''tmp'') = path \<and> files w3 path = None)"
proof -
  obtain s where s: "files w2 path = Some s" "decode_secret_key K s = Inr k"
    using file_system.key_in_file [OF assms(1,3,2)] assms(4) by auto
  show ?thesis
  proof (cases "fs_exists F path w2")
    case True
    with file_system.load_existing [OF assms(1, 5) True] s show ?thesis
      by auto
  next
    case False
    with file_system.create_fresh [OF assms(1, 5) False refl] file_system.create_in_place [OF assms(1, 5) False] s
    show ?thesis
      by (cases "with_extension path (ascii ''tmp'') = path") (auto split: sum.splits)
  qed
qed

definition other_key :: "u8 list" where
  "other_key = replicate 32 0x11"

text \<open>A restart that sees the file has the key again; one that is blind to it has replaced it.\<close>

theorem identity_survives_restart_witness:
  "\<exists>w1 vs. load_or_create_secret_key memory_fs example_keys example_key example_path no_files = (Inr example_key, w1, vs) \<and>
    (\<exists>w3 us. load_or_create_secret_key memory_fs example_keys other_key example_path w1 = (Inr example_key, w3, us)) \<and>
    (\<exists>w3 us. load_or_create_secret_key memory_fs example_keys other_key example_path (w1\<lparr>mem_blind := True\<rparr>) =
        (Inr other_key, w3, us) \<and>
      mem_files w3 example_path = Some (encode_secret_key example_keys other_key))"
proof -
  have temp: "[ascii ''server.tmp''] \<noteq> example_path"
    by code_simp
  obtain w1 vs where first: "load_or_create_secret_key memory_fs example_keys example_key example_path no_files = (Inr example_key, w1, vs)"
      and w1: "mem_files w1 = Map.empty(example_path \<mapsto> encode_secret_key example_keys example_key)"
        "mem_faults w1 = []" "\<not> mem_blind w1"
    using example_creation by blast
  obtain r w3 us where seen: "load_or_create_secret_key memory_fs example_keys other_key example_path w1 = (r, w3, us)"
    by (metis prod_cases3)
  have "fs_exists memory_fs example_path w1" "\<forall>e. r \<noteq> Inl (IoErr e)"
    using seen w1 by (auto simp: load_or_create_secret_key_def memory_fs_def mem_call_def fs_try_def fs_then_def
        fs_call_def fs_ret_def decode_encode example_lawful)
  with identity_survives_restart [OF memory.file_system_axioms example_lawful first refl seen] have "r = Inr example_key"
    by auto
  have "\<not> fs_exists memory_fs example_path (w1\<lparr>mem_blind := True\<rparr>)"
    by (simp add: memory_fs_def)
  moreover from this obtain w4 ys where
    blind: "load_or_create_secret_key memory_fs example_keys other_key example_path (w1\<lparr>mem_blind := True\<rparr>) =
      (Inr other_key, w4, ys)"
    using memory_creation [of "w1\<lparr>mem_blind := True\<rparr>" example_keys other_key] w1 temp by auto
  ultimately have "mem_files w4 example_path = Some (encode_secret_key example_keys other_key)"
    using identity_survives_restart [OF memory.file_system_axioms example_lawful first _ blind] by auto
  with first seen blind \<open>r = Inr example_key\<close> show ?thesis
    by blast
qed

end
