(* ===== verification/Startup.thy ===== *)
theory Startup
  imports Admission Identity "HOL-Library.Sublist"
begin

text \<open>
  How the four programs start and end: \<open>src/main.rs\<close>, the rest of \<open>src/iroh_endpoint.rs\<close>, and the functions
  \<open>start_*\<close>, \<open>run*\<close> and \<open>shutdown\<close> of \<open>src/server.rs\<close>, \<open>src/client.rs\<close>, \<open>src/openai/server.rs\<close> and
  \<open>src/openai/client.rs\<close>. Endpoints, tickets, listeners, tasks and the interrupt are parameters. What is printed and
  logged is left out.
\<close>

section \<open>Life-cycle actions\<close>

text \<open>
  An endpoint is set up with the address it binds, the protocols it accepts and its identity; a client's has
  iroh's defaults for the first two. A spawned task is one of the loops modelled elsewhere, with what it is given:
  an endpoint or a listener, a configuration and the number of permits of its semaphore.
\<close>

record 'k endpoint_setup =
  es_bind_addr :: "SocketAddr option"
  es_alpns :: "rstring list"
  es_secret_key :: "'k option"

datatype ('h, 'p, 'u) task_kind =
    Exit_accept_loop 'h "'p ServerConfig"
  | Socks_accept_loop 'h 'h ClientConfig nat
  | Openai_accept_loop 'h "('u, 'p) OpenAiServerConfig" 'h
  | Openai_local_loop 'h OpenAiClientConfig nat
  | Health_check_loop duration duration nat
  | Path_event_logger string 'h

datatype ('h, 'k, 'p, 'u) life_event =
    Io "'h event"
  | Bind_endpoint "'k endpoint_setup" "(anyhow_error, 'h) outcome"
  | Bind_listener SocketAddr "(anyhow_error, 'h) outcome"
  | Spawn 'h "('h, 'p, 'u) task_kind"
  | Interrupt "(anyhow_error, unit) outcome"
  | Close_endpoint 'h "(anyhow_error, unit) outcome"
  | Abort_task 'h
  | Join_task 'h "(anyhow_error, unit) outcome"

type_synonym ('w, 'h, 'k, 'p, 'u, 'a) life =
  "'w \<Rightarrow> (anyhow_error, 'a) outcome \<times> 'w \<times> ('h, 'k, 'p, 'u) life_event list"

definition life_ret :: "'a \<Rightarrow> ('w, 'h, 'k, 'p, 'u, 'a) life" where
  "life_ret x w = (Done x, w, [])"

definition life_fail :: "anyhow_error \<Rightarrow> ('w, 'h, 'k, 'p, 'u, 'a) life" where
  "life_fail e w = (Fail e, w, [])"

definition life_then ::
  "('w, 'h, 'k, 'p, 'u, 'a) life \<Rightarrow> ('a \<Rightarrow> ('w, 'h, 'k, 'p, 'u, 'b) life) \<Rightarrow> ('w, 'h, 'k, 'p, 'u, 'b) life" where
  "life_then m f w =
    (case m w of
       (Done x, w1, es) \<Rightarrow> (case f x w1 of (r, w2, fs) \<Rightarrow> (r, w2, es @ fs))
     | (Fail e, w1, es) \<Rightarrow> (Fail e, w1, es)
     | (Hang, w1, es) \<Rightarrow> (Hang, w1, es))"

definition life_result :: "anyhow_error + 'a \<Rightarrow> ('w, 'h, 'k, 'p, 'u, 'a) life" where
  "life_result r = (case r of Inl e \<Rightarrow> life_fail e | Inr x \<Rightarrow> life_ret x)"

definition life_call ::
  "((anyhow_error, 'a) outcome \<Rightarrow> ('h, 'k, 'p, 'u) life_event) \<Rightarrow> ('w \<Rightarrow> (anyhow_error, 'a) outcome \<times> 'w) \<Rightarrow>
    ('w, 'h, 'k, 'p, 'u, 'a) life" where
  "life_call ev f w = (case f w of (r, w1) \<Rightarrow> (r, w1, [ev r]))"

definition life_io :: "('w, 'h, anyhow_error, 'a) act \<Rightarrow> ('w, 'h, 'k, 'p, 'u, 'a) life" where
  "life_io m w = (case m w of (r, w1, es) \<Rightarrow> (r, w1, map Io es))"

text \<open>
  What the programs are given: tickets and peer ids are parsed by iroh; \<open>sl_net\<close> is the network as seen from an
  endpoint towards a server; \<open>sl_accepts_addr\<close> is the check of the endpoint builder's \<open>bind_addr\<close>; files and keys
  are those of the identity, and \<open>sl_fresh\<close> is the key a world generates next.
\<close>

record ('w, 'h, 'a, 'k, 'p, 'u, 'f) start_lib =
  sl_parse_ticket :: "rstring \<Rightarrow> 'a option"
  sl_parse_peer :: "rstring \<Rightarrow> 'p option"
  sl_urls :: "'u url_lib"
  sl_net :: "'h \<Rightarrow> 'a \<Rightarrow> ('w, 'h) manager_env"
  sl_accepts_addr :: "SocketAddr \<Rightarrow> bool"
  sl_bind_endpoint :: "'k endpoint_setup \<Rightarrow> 'w \<Rightarrow> (anyhow_error, 'h) outcome \<times> 'w"
  sl_ticket :: "'h \<Rightarrow> 'w \<Rightarrow> rstring"
  sl_bind_listener :: "SocketAddr \<Rightarrow> 'w \<Rightarrow> (anyhow_error, 'h) outcome \<times> 'w"
  sl_local_addr :: "'h \<Rightarrow> 'w \<Rightarrow> anyhow_error + SocketAddr"
  sl_http_client :: "duration \<Rightarrow> 'w \<Rightarrow> anyhow_error + 'h"
  sl_spawn :: "('h, 'p, 'u) task_kind \<Rightarrow> 'w \<Rightarrow> 'h \<times> 'w"
  sl_interrupt :: "'w \<Rightarrow> (anyhow_error, unit) outcome \<times> 'w"
  sl_close :: "'h \<Rightarrow> 'w \<Rightarrow> 'w \<times> bool"
  sl_abort :: "'h \<Rightarrow> 'w \<Rightarrow> 'w"
  sl_join :: "'h \<Rightarrow> 'w \<Rightarrow> 'w \<times> bool"
  sl_path :: "rstring \<Rightarrow> path"
  sl_files :: "('w, 'f) fs_lib"
  sl_keys :: "'k key_lib"
  sl_fresh :: "'w \<Rightarrow> 'k"

text \<open>\<open>close\<close> and the join of a task give no error that the program looks at; they may wait for ever: \<open>False\<close>.\<close>

definition waits :: "('w \<times> bool) \<Rightarrow> (anyhow_error, unit) outcome \<times> 'w" where
  "waits p = (if snd p then Done () else Hang, fst p)"

definition bind_listener ::
  "('w, 'h, 'a, 'k, 'p, 'u, 'f) start_lib \<Rightarrow> SocketAddr \<Rightarrow> ('w, 'h, 'k, 'p, 'u, 'h) life" where
  "bind_listener L addr = life_call (Bind_listener addr) (sl_bind_listener L addr)"

definition listener_addr ::
  "('w, 'h, 'a, 'k, 'p, 'u, 'f) start_lib \<Rightarrow> 'h \<Rightarrow> ('w, 'h, 'k, 'p, 'u, SocketAddr) life" where
  "listener_addr L listener w = life_result (sl_local_addr L listener w) w"

definition http_client ::
  "('w, 'h, 'a, 'k, 'p, 'u, 'f) start_lib \<Rightarrow> duration \<Rightarrow> ('w, 'h, 'k, 'p, 'u, 'h) life" where
  "http_client L connect_timeout w = life_result (sl_http_client L connect_timeout w) w"

definition endpoint_ticket_string ::
  "('w, 'h, 'a, 'k, 'p, 'u, 'f) start_lib \<Rightarrow> 'h \<Rightarrow> ('w, 'h, 'k, 'p, 'u, rstring) life" where
  "endpoint_ticket_string L endpoint w = (Done (sl_ticket L endpoint w), w, [])"

definition spawn_task ::
  "('w, 'h, 'a, 'k, 'p, 'u, 'f) start_lib \<Rightarrow> ('h, 'p, 'u) task_kind \<Rightarrow> ('w, 'h, 'k, 'p, 'u, 'h) life" where
  "spawn_task L kind w = (case sl_spawn L kind w of (t, w1) \<Rightarrow> (Done t, w1, [Spawn t kind]))"

definition ctrl_c :: "('w, 'h, 'a, 'k, 'p, 'u, 'f) start_lib \<Rightarrow> ('w, 'h, 'k, 'p, 'u, unit) life" where
  "ctrl_c L = life_call Interrupt (sl_interrupt L)"

definition close_endpoint ::
  "('w, 'h, 'a, 'k, 'p, 'u, 'f) start_lib \<Rightarrow> 'h \<Rightarrow> ('w, 'h, 'k, 'p, 'u, unit) life" where
  "close_endpoint L endpoint = life_call (Close_endpoint endpoint) (\<lambda>w. waits (sl_close L endpoint w))"

definition abort_task ::
  "('w, 'h, 'a, 'k, 'p, 'u, 'f) start_lib \<Rightarrow> 'h \<Rightarrow> ('w, 'h, 'k, 'p, 'u, unit) life" where
  "abort_task L t w = (Done (), sl_abort L t w, [Abort_task t])"

definition join_task ::
  "('w, 'h, 'a, 'k, 'p, 'u, 'f) start_lib \<Rightarrow> 'h \<Rightarrow> ('w, 'h, 'k, 'p, 'u, unit) life" where
  "join_task L t = life_call (Join_task t) (\<lambda>w. waits (sl_join L t w))"

section \<open>Endpoints\<close>

definition ALPN :: rstring where
  "ALPN = ascii ''iroh-socks5-proxy/0''"

definition any_addr :: SocketAddr where
  "any_addr = SocketAddr (V4 (Ipv4 0 0 0 0)) 0"

definition parse_server_ticket ::
  "('w, 'h, 'a, 'k, 'p, 'u, 'f) start_lib \<Rightarrow> rstring \<Rightarrow> ('w, 'h, 'k, 'p, 'u, 'a) life" where
  "parse_server_ticket L ticket =
    (case sl_parse_ticket L ticket of
       None \<Rightarrow> life_fail (Message ''invalid endpoint ticket'')
     | Some addr \<Rightarrow> life_ret addr)"

definition load_identity ::
  "('w, 'h, 'a, 'k, 'p, 'u, 'f) start_lib \<Rightarrow> rstring option \<Rightarrow> ('w, 'h, 'k, 'p, 'u, 'k option) life" where
  "load_identity L identity_path w =
    (case identity_path of
       None \<Rightarrow> (Done None, w, [])
     | Some p \<Rightarrow>
         (case load_or_create_secret_key (sl_files L) (sl_keys L) (sl_fresh L w) (sl_path L p) w of
            (Inr key, w1, _) \<Rightarrow> (Done (Some key), w1, [])
          | (Inl e, w1, _) \<Rightarrow> (Fail e, w1, [])))"

definition start_server_endpoint_with_optional_identity ::
  "('w, 'h, 'a, 'k, 'p, 'u, 'f) start_lib \<Rightarrow> SocketAddr \<Rightarrow> rstring option \<Rightarrow> ('w, 'h, 'k, 'p, 'u, 'h) life" where
  "start_server_endpoint_with_optional_identity L bind_addr identity_path =
    (if \<not> sl_accepts_addr L bind_addr then life_fail (Message ''configure iroh server bind address'')
     else
       life_then (load_identity L identity_path) (\<lambda>key.
       let setup = \<lparr>es_bind_addr = Some bind_addr, es_alpns = [ALPN], es_secret_key = key\<rparr>
       in life_call (Bind_endpoint setup) (sl_bind_endpoint L setup)))"

definition start_server_endpoint_with_bind_addr ::
  "('w, 'h, 'a, 'k, 'p, 'u, 'f) start_lib \<Rightarrow> SocketAddr \<Rightarrow> ('w, 'h, 'k, 'p, 'u, 'h) life" where
  "start_server_endpoint_with_bind_addr L bind_addr = start_server_endpoint_with_optional_identity L bind_addr None"

definition start_server_endpoint ::
  "('w, 'h, 'a, 'k, 'p, 'u, 'f) start_lib \<Rightarrow> ('w, 'h, 'k, 'p, 'u, 'h) life" where
  "start_server_endpoint L = start_server_endpoint_with_bind_addr L any_addr"

definition start_client_endpoint_with_optional_identity ::
  "('w, 'h, 'a, 'k, 'p, 'u, 'f) start_lib \<Rightarrow> rstring option \<Rightarrow> ('w, 'h, 'k, 'p, 'u, 'h) life" where
  "start_client_endpoint_with_optional_identity L identity_path =
    life_then (load_identity L identity_path) (\<lambda>key.
    let setup = \<lparr>es_bind_addr = None, es_alpns = [], es_secret_key = key\<rparr>
    in life_call (Bind_endpoint setup) (sl_bind_endpoint L setup))"

definition start_client_endpoint ::
  "('w, 'h, 'a, 'k, 'p, 'u, 'f) start_lib \<Rightarrow> ('w, 'h, 'k, 'p, 'u, 'h) life" where
  "start_client_endpoint L = start_client_endpoint_with_optional_identity L None"

section \<open>The exit server\<close>

record 'h ServerHandle =
  sh_ticket :: rstring
  sh_endpoint :: 'h
  sh_accept_task :: 'h

definition server_shutdown :: "('w, 'h, 'a, 'k, 'p, 'u, 'f) start_lib \<Rightarrow> 'h ServerHandle \<Rightarrow> ('w, 'h, 'k, 'p, 'u, unit) life" where
  "server_shutdown L handle =
    life_then (close_endpoint L (sh_endpoint handle)) (\<lambda>_.
    life_then (abort_task L (sh_accept_task handle)) (\<lambda>_.
    life_then (join_task L (sh_accept_task handle)) (\<lambda>_.
    life_ret ())))"

record ServerArgs =
  xa_bind_addr :: SocketAddr
  xa_allow_private_targets :: bool
  xa_allow_peers :: "rstring list"

definition allow_peers_of :: "('w, 'h, 'a, 'k, 'p, 'u, 'f) start_lib \<Rightarrow> rstring list \<Rightarrow> anyhow_error + 'p list" where
  "allow_peers_of L values =
    (case parse_allow_peers (sl_parse_peer L) values of
       Inl value \<Rightarrow> Inl (Message ''invalid --allow-peer value'')
     | Inr peers \<Rightarrow> Inr peers)"

definition server_run :: "('w, 'h, 'a, 'k, 'p, 'u, 'f) start_lib \<Rightarrow> ServerArgs \<Rightarrow> ('w, 'h, 'k, 'p, 'u, unit) life" where
  "server_run L args =
    life_then (life_result (allow_peers_of L (xa_allow_peers args))) (\<lambda>allow_peers.
    let config = server_config_new (xa_allow_private_targets args) allow_peers in
    life_then (start_server_endpoint_with_bind_addr L (xa_bind_addr args)) (\<lambda>endpoint.
    life_then (endpoint_ticket_string L endpoint) (\<lambda>ticket.
    life_then (spawn_task L (Exit_accept_loop endpoint config)) (\<lambda>accept_task.
    life_then (ctrl_c L) (\<lambda>_.
    life_then (close_endpoint L endpoint) (\<lambda>_.
    life_then (abort_task L accept_task) (\<lambda>_.
    life_then (join_task L accept_task) (\<lambda>_.
    life_ret ()))))))))"

definition start_server_for_test_with_config :: "('w, 'h, 'a, 'k, 'p, 'u, 'f) start_lib \<Rightarrow> 'p ServerConfig \<Rightarrow> ('w, 'h, 'k, 'p, 'u, 'h ServerHandle) life" where
  "start_server_for_test_with_config L config =
    life_then (start_server_endpoint L) (\<lambda>endpoint.
    life_then (endpoint_ticket_string L endpoint) (\<lambda>ticket.
    life_then (spawn_task L (Exit_accept_loop endpoint config)) (\<lambda>accept_task.
    life_ret \<lparr>sh_ticket = ticket, sh_endpoint = endpoint, sh_accept_task = accept_task\<rparr>)))"

definition start_server_for_test_with_request_timeout :: "('w, 'h, 'a, 'k, 'p, 'u, 'f) start_lib \<Rightarrow> bool \<Rightarrow> duration \<Rightarrow> ('w, 'h, 'k, 'p, 'u, 'h ServerHandle) life" where
  "start_server_for_test_with_request_timeout L allow_private request_timeout =
    start_server_for_test_with_config L
      ((server_config_new allow_private [])\<lparr>tunnel_request_timeout := request_timeout\<rparr>)"

definition start_server_for_test :: "('w, 'h, 'a, 'k, 'p, 'u, 'f) start_lib \<Rightarrow> bool \<Rightarrow> ('w, 'h, 'k, 'p, 'u, 'h ServerHandle) life" where
  "start_server_for_test L allow_private =
    start_server_for_test_with_request_timeout L allow_private (from_secs 10)"

section \<open>The SOCKS client\<close>

record 'h ClientHandle =
  ch_listen_addr :: SocketAddr
  ch_endpoint :: 'h
  ch_listener_task :: 'h

definition client_shutdown :: "('w, 'h, 'a, 'k, 'p, 'u, 'f) start_lib \<Rightarrow> 'h ClientHandle \<Rightarrow> ('w, 'h, 'k, 'p, 'u, unit) life" where
  "client_shutdown L handle =
    life_then (close_endpoint L (ch_endpoint handle)) (\<lambda>_.
    life_then (abort_task L (ch_listener_task handle)) (\<lambda>_.
    life_then (join_task L (ch_listener_task handle)) (\<lambda>_.
    life_ret ())))"

text \<open>The connection is shared by the sessions; the listener's semaphore is made here.\<close>

definition start_client_for_test_with_config ::
  "('w, 'h, 'a, 'k, 'p, 'u, 'f) start_lib \<Rightarrow> rstring \<Rightarrow> SocketAddr \<Rightarrow> ClientConfig \<Rightarrow> ('w, 'h, 'k, 'p, 'u, 'h ClientHandle) life" where
  "start_client_for_test_with_config L server_ticket listen config =
    life_then (parse_server_ticket L server_ticket) (\<lambda>server_addr.
    life_then (start_client_endpoint L) (\<lambda>endpoint.
    life_then (life_io (map_err IoErr (dial (sl_net L endpoint server_addr)))) (\<lambda>connection.
    life_then (spawn_task L (Path_event_logger ''client'' connection)) (\<lambda>_.
    life_then (bind_listener L listen) (\<lambda>listener.
    life_then (listener_addr L listener) (\<lambda>listen_addr.
    life_then (spawn_task L (Socks_accept_loop listener connection config (max_concurrent_sessions config))) (\<lambda>listener_task.
    life_ret \<lparr>ch_listen_addr = listen_addr, ch_endpoint = endpoint, ch_listener_task = listener_task\<rparr>)))))))"

definition start_client_for_test_with_handshake_timeout ::
  "('w, 'h, 'a, 'k, 'p, 'u, 'f) start_lib \<Rightarrow> rstring \<Rightarrow> SocketAddr \<Rightarrow> duration \<Rightarrow> ('w, 'h, 'k, 'p, 'u, 'h ClientHandle) life" where
  "start_client_for_test_with_handshake_timeout L server_ticket listen handshake_timeout =
    start_client_for_test_with_config L server_ticket listen
      (client_config_default\<lparr>socks_handshake_timeout := handshake_timeout\<rparr>)"

definition start_client_for_test :: "('w, 'h, 'a, 'k, 'p, 'u, 'f) start_lib \<Rightarrow> rstring \<Rightarrow> SocketAddr \<Rightarrow> ('w, 'h, 'k, 'p, 'u, 'h ClientHandle) life" where
  "start_client_for_test L server_ticket listen =
    start_client_for_test_with_config L server_ticket listen client_config_default"

record ClientArgs =
  la_server_ticket :: rstring
  la_listen :: SocketAddr

definition client_run :: "('w, 'h, 'a, 'k, 'p, 'u, 'f) start_lib \<Rightarrow> ClientArgs \<Rightarrow> ('w, 'h, 'k, 'p, 'u, unit) life" where
  "client_run L args =
    life_then (start_client_for_test L (la_server_ticket args) (la_listen args)) (\<lambda>handle.
    life_then (ctrl_c L) (\<lambda>_.
    client_shutdown L handle))"

section \<open>The OpenAI proxy server\<close>

record 'h OpenAiServerHandle =
  oh_ticket :: rstring
  oh_endpoint :: 'h
  oh_accept_task :: 'h

definition openai_server_shutdown :: "('w, 'h, 'a, 'k, 'p, 'u, 'f) start_lib \<Rightarrow> 'h OpenAiServerHandle \<Rightarrow> ('w, 'h, 'k, 'p, 'u, unit) life" where
  "openai_server_shutdown L handle =
    life_then (abort_task L (oh_accept_task handle)) (\<lambda>_.
    life_then (join_task L (oh_accept_task handle)) (\<lambda>_.
    life_then (close_endpoint L (oh_endpoint handle)) (\<lambda>_.
    life_ret ())))"

definition start_openai_server_for_test_with_config ::
  "('w, 'h, 'a, 'k, 'p, 'u, 'f) start_lib \<Rightarrow> ('u, 'p) OpenAiServerConfig \<Rightarrow> ('w, 'h, 'k, 'p, 'u, 'h OpenAiServerHandle) life" where
  "start_openai_server_for_test_with_config L config =
    life_then (life_result (validate_server_config (sl_urls L) config)) (\<lambda>_.
    life_then (start_server_endpoint_with_optional_identity L (os_bind_addr config) (os_identity_path config)) (\<lambda>endpoint.
    life_then (endpoint_ticket_string L endpoint) (\<lambda>ticket.
    life_then (http_client L (os_provider_connect_timeout config)) (\<lambda>provider_client.
    life_then (spawn_task L (Openai_accept_loop endpoint config provider_client)) (\<lambda>accept_task.
    life_ret \<lparr>oh_ticket = ticket, oh_endpoint = endpoint, oh_accept_task = accept_task\<rparr>)))))"

definition start_openai_server_with_allow_peers ::
  "('w, 'h, 'a, 'k, 'p, 'u, 'f) start_lib \<Rightarrow> rstring \<Rightarrow> 'p list \<Rightarrow> ('w, 'h, 'k, 'p, 'u, 'h OpenAiServerHandle) life" where
  "start_openai_server_with_allow_peers L provider_base_url peers =
    life_then (life_result (validate_provider_base_url (sl_urls L) provider_base_url)) (\<lambda>url.
    start_openai_server_for_test_with_config L
      \<lparr>os_provider_base_url = url, os_bind_addr = any_addr, os_allow_peers = peers,
       os_request_read_timeout = REQUEST_READ_TIMEOUT, os_provider_connect_timeout = PROVIDER_CONNECT_TIMEOUT,
       os_provider_request_timeout = PROVIDER_REQUEST_TIMEOUT, os_max_connections = DEFAULT_MAX_CONNECTIONS,
       os_max_streams_per_connection = DEFAULT_MAX_STREAMS_PER_CONNECTION, os_identity_path = None\<rparr>)"

definition start_openai_server :: "('w, 'h, 'a, 'k, 'p, 'u, 'f) start_lib \<Rightarrow> rstring \<Rightarrow> ('w, 'h, 'k, 'p, 'u, 'h OpenAiServerHandle) life" where
  "start_openai_server L provider_base_url = start_openai_server_with_allow_peers L provider_base_url []"

definition run_openai_server :: "('w, 'h, 'a, 'k, 'p, 'u, 'f) start_lib \<Rightarrow> OpenAiServerArgs \<Rightarrow> ('w, 'h, 'k, 'p, 'u, unit) life" where
  "run_openai_server L args =
    life_then (life_result (server_config_of_args (sl_urls L) (allow_peers_of L) args)) (\<lambda>config.
    life_then (start_openai_server_for_test_with_config L config) (\<lambda>handle.
    life_then (ctrl_c L) (\<lambda>_.
    openai_server_shutdown L handle)))"

section \<open>The OpenAI proxy client\<close>

text \<open>The manager is part of the world, as in the connection manager's model.\<close>

record 'h OpenAiClientHandle =
  kh_listen_addr :: SocketAddr
  kh_endpoint :: 'h
  kh_listener_task :: 'h
  kh_config :: OpenAiClientConfig
  kh_health_task :: "'h option"

definition openai_client_shutdown :: "('w, 'h, 'a, 'k, 'p, 'u, 'f) start_lib \<Rightarrow> 'h OpenAiClientHandle \<Rightarrow> ('w, 'h, 'k, 'p, 'u, unit) life" where
  "openai_client_shutdown L handle =
    life_then
      (case kh_health_task handle of
         Some health_task \<Rightarrow>
           life_then (abort_task L health_task) (\<lambda>_.
           join_task L health_task)
       | None \<Rightarrow> life_ret ()) (\<lambda>_.
    life_then (close_endpoint L (kh_endpoint handle)) (\<lambda>_.
    life_then (abort_task L (kh_listener_task handle)) (\<lambda>_.
    life_then (join_task L (kh_listener_task handle)) (\<lambda>_.
    life_ret ()))))"

definition start_openai_client_with_optional_identity ::
  "('w, 'h, 'a, 'k, 'p, 'u, 'f) start_lib \<Rightarrow> rstring \<Rightarrow> SocketAddr \<Rightarrow> OpenAiClientConfig \<Rightarrow> rstring option \<Rightarrow> ('w, 'h, 'k, 'p, 'u, 'h OpenAiClientHandle) life" where
  "start_openai_client_with_optional_identity L server_ticket listen config identity_path =
    life_then (life_result (validate_client_config config)) (\<lambda>_.
    life_then (parse_server_ticket L server_ticket) (\<lambda>server_addr.
    life_then (start_client_endpoint_with_optional_identity L identity_path) (\<lambda>endpoint.
    life_then (life_io (manager_connect (sl_net L endpoint server_addr) (oc_connect_timeout config))) (\<lambda>_.
    life_then (bind_listener L listen) (\<lambda>listener.
    life_then (listener_addr L listener) (\<lambda>listen_addr.
    life_then
      (case oc_health_check_interval config of
         Some interval \<Rightarrow>
           life_then (spawn_task L (Health_check_loop interval (oc_tunnel_operation_timeout config)
             (oc_reconnect_attempts config))) (\<lambda>t. life_ret (Some t))
       | None \<Rightarrow> life_ret None) (\<lambda>health_task.
    life_then (spawn_task L (Openai_local_loop listener config (oc_max_concurrent_sessions config))) (\<lambda>listener_task.
    life_ret \<lparr>kh_listen_addr = listen_addr, kh_endpoint = endpoint, kh_listener_task = listener_task,
      kh_config = config, kh_health_task = health_task\<rparr>))))))))"

definition start_openai_client_for_test_with_config ::
  "('w, 'h, 'a, 'k, 'p, 'u, 'f) start_lib \<Rightarrow> rstring \<Rightarrow> SocketAddr \<Rightarrow> OpenAiClientConfig \<Rightarrow> ('w, 'h, 'k, 'p, 'u, 'h OpenAiClientHandle) life" where
  "start_openai_client_for_test_with_config L server_ticket listen config =
    start_openai_client_with_optional_identity L server_ticket listen config None"

definition start_openai_client :: "('w, 'h, 'a, 'k, 'p, 'u, 'f) start_lib \<Rightarrow> rstring \<Rightarrow> SocketAddr \<Rightarrow> ('w, 'h, 'k, 'p, 'u, 'h OpenAiClientHandle) life" where
  "start_openai_client L server_ticket listen =
    start_openai_client_for_test_with_config L server_ticket listen openai_client_config_default"

definition run_openai_client :: "('w, 'h, 'a, 'k, 'p, 'u, 'f) start_lib \<Rightarrow> OpenAiClientArgs \<Rightarrow> ('w, 'h, 'k, 'p, 'u, unit) life" where
  "run_openai_client L args =
    life_then (start_openai_client_with_optional_identity L (ca_server_ticket args) (ca_listen args)
      (client_config_of_args args) (ca_identity_path args)) (\<lambda>handle.
    life_then (ctrl_c L) (\<lambda>_.
    openai_client_shutdown L handle))"

section \<open>The command line\<close>

datatype Command =
    ServerCommand ServerArgs
  | ClientCommand ClientArgs
  | OpenAiServerCommand OpenAiServerArgs
  | OpenAiClientCommand OpenAiClientArgs

fun main :: "('w, 'h, 'a, 'k, 'p, 'u, 'f) start_lib \<Rightarrow> Command \<Rightarrow> ('w, 'h, 'k, 'p, 'u, unit) life" where
  "main L (ServerCommand args) = server_run L args"
| "main L (ClientCommand args) = client_run L args"
| "main L (OpenAiServerCommand args) = run_openai_server L args"
| "main L (OpenAiClientCommand args) = run_openai_client L args"

section \<open>What a run has started and stopped\<close>

text \<open>The loops spawned, with their handles. A path logger is not one of them: nothing aborts it, it ends by
  itself when its connection does.\<close>

fun lasting :: "('h, 'p, 'u) task_kind \<Rightarrow> bool" where
  "lasting (Path_event_logger role conn) \<longleftrightarrow> False"
| "lasting _ \<longleftrightarrow> True"

fun spawned :: "('h, 'k, 'p, 'u) life_event list \<Rightarrow> ('h \<times> ('h, 'p, 'u) task_kind) list" where
  "spawned [] = []"
| "spawned (Spawn t kind # es) = (if lasting kind then [(t, kind)] else []) @ spawned es"
| "spawned (_ # es) = spawned es"

fun endpoints :: "('h, 'k, 'p, 'u) life_event list \<Rightarrow> 'h list" where
  "endpoints [] = []"
| "endpoints (Bind_endpoint setup (Done h) # es) = h # endpoints es"
| "endpoints (_ # es) = endpoints es"

lemma spawned_append [simp]: "spawned (es @ fs) = spawned es @ spawned fs"
  by (induction es rule: spawned.induct) simp_all

lemma endpoints_append [simp]: "endpoints (es @ fs) = endpoints es @ endpoints fs"
  by (induction es rule: endpoints.induct) simp_all

lemma io_projections [simp]: "spawned (map Io es) = []" "endpoints (map Io es) = []"
  by (induction es) simp_all

lemma life_then_runs:
  assumes "life_then m f w = (r, w2, es)"
  obtains (ran) x w1 es1 es2 where "m w = (Done x, w1, es1)" "f x w1 = (r, w2, es2)" "es = es1 @ es2"
    | (failed) e where "m w = (Fail e, w2, es)" "r = Fail e"
    | (hung) "m w = (Hang, w2, es)" "r = Hang"
  using assms by (auto simp: life_then_def split: prod.splits outcome.splits)

text \<open>The steps that start no loop and bind no endpoint.\<close>

definition plain :: "('w, 'h, 'k, 'p, 'u, 'a) life \<Rightarrow> bool" where
  "plain m \<longleftrightarrow> (\<forall>w r w1 es. m w = (r, w1, es) \<longrightarrow> spawned es = [] \<and> endpoints es = [])"

lemma plainD: "plain m \<Longrightarrow> m w = (r, w1, es) \<Longrightarrow> spawned es = [] \<and> endpoints es = []"
  unfolding plain_def by blast

lemma plain_steps:
  "plain (life_ret x)" "plain (life_fail e)" "plain (life_result res)" "plain (life_io m)"
  "plain (bind_listener L addr)" "plain (listener_addr L h)" "plain (http_client L d)" "plain (endpoint_ticket_string L h)"
  "plain (ctrl_c L)" "plain (close_endpoint L h)" "plain (abort_task L t)" "plain (join_task L t)"
  "plain (parse_server_ticket L ticket)" "plain (load_identity L identity_path)"
  by (auto simp: plain_def life_ret_def life_fail_def life_result_def life_io_def bind_listener_def listener_addr_def
      http_client_def endpoint_ticket_string_def ctrl_c_def close_endpoint_def abort_task_def join_task_def life_call_def
      parse_server_ticket_def load_identity_def split: prod.splits sum.splits option.splits)

text \<open>A step that binds an endpoint: it starts no loop, and has bound the endpoint that it gives.\<close>

definition binds :: "('w, 'h, 'k, 'p, 'u, 'h) life \<Rightarrow> bool" where
  "binds m \<longleftrightarrow> (\<forall>w r w1 es. m w = (r, w1, es) \<longrightarrow>
    spawned es = [] \<and> endpoints es = (case r of Done h \<Rightarrow> [h] | _ \<Rightarrow> []))"

lemma bindsD: "binds m \<Longrightarrow> m w = (r, w1, es) \<Longrightarrow>
    spawned es = [] \<and> endpoints es = (case r of Done h \<Rightarrow> [h] | _ \<Rightarrow> [])"
  unfolding binds_def by blast

lemma binds_after: "plain m \<Longrightarrow> (\<And>x. binds (f x)) \<Longrightarrow> binds (life_then m f)"
  by (auto simp: binds_def elim!: life_then_runs dest: plainD split: outcome.splits)

lemma binds_endpoint: "binds (life_call (Bind_endpoint setup) f)"
  by (auto simp: binds_def life_call_def split: prod.splits outcome.splits)

lemma start_endpoint_binds:
  "binds (start_server_endpoint_with_optional_identity L addr identity)"
  "binds (start_client_endpoint_with_optional_identity L identity)"
  unfolding start_server_endpoint_with_optional_identity_def start_client_endpoint_with_optional_identity_def Let_def
  by (auto intro!: binds_after plain_steps binds_endpoint) (simp add: binds_def life_fail_def)

text \<open>
  \<open>starts m Q\<close>: a start that gives a result has bound endpoints and spawned loops as \<open>Q\<close> says; one that
  fails or waits for ever has spawned none.
\<close>

definition starts ::
  "('w, 'h, 'k, 'p, 'u, 'a) life \<Rightarrow> ('a \<Rightarrow> 'h list \<Rightarrow> ('h \<times> ('h, 'p, 'u) task_kind) list \<Rightarrow> bool) \<Rightarrow> bool" where
  "starts m Q \<longleftrightarrow> (\<forall>w r w1 es. m w = (r, w1, es) \<longrightarrow>
    (case r of Done x \<Rightarrow> Q x (endpoints es) (spawned es) | _ \<Rightarrow> spawned es = []))"

lemma startsD:
  "starts m Q \<Longrightarrow> m w = (r, w1, es) \<Longrightarrow> case r of Done x \<Rightarrow> Q x (endpoints es) (spawned es) | _ \<Rightarrow> spawned es = []"
  unfolding starts_def by blast

lemma starts_after_plain:
  assumes "plain m" and "\<And>x w w1 es. m w = (Done x, w1, es) \<Longrightarrow> starts (f x) Q"
  shows "starts (life_then m f) Q"
  unfolding starts_def
proof (intro allI impI)
  fix w r w1 es
  assume "life_then m f w = (r, w1, es)"
  then show "case r of Done x \<Rightarrow> Q x (endpoints es) (spawned es) | _ \<Rightarrow> spawned es = []"
  proof (cases rule: life_then_runs)
    case (ran x w2 es1 es2)
    with startsD [OF assms(2) [OF ran(1)] ran(2)] plainD [OF assms(1) ran(1)] show ?thesis
      by (cases r) auto
  qed (auto dest: plainD [OF assms(1)])
qed

lemma starts_after_binds:
  assumes "binds m" and "\<And>h. starts (f h) (\<lambda>x eps. Q x (h # eps))"
  shows "starts (life_then m f) Q"
  unfolding starts_def
proof (intro allI impI)
  fix w r w1 es
  assume "life_then m f w = (r, w1, es)"
  then show "case r of Done x \<Rightarrow> Q x (endpoints es) (spawned es) | _ \<Rightarrow> spawned es = []"
  proof (cases rule: life_then_runs)
    case (ran h w2 es1 es2)
    with startsD [OF assms(2) ran(2)] bindsD [OF assms(1) ran(1)] show ?thesis
      by (cases r) auto
  qed (auto dest: bindsD [OF assms(1)])
qed

lemma starts_last:
  assumes "\<And>w. \<exists>x w1 es. m w = (Done x, w1, es) \<and> Q x (endpoints es) (spawned es)"
  shows "starts m Q"
  unfolding starts_def
proof (intro allI impI)
  fix w r w1 es
  assume "m w = (r, w1, es)"
  with assms [of w] show "case r of Done x \<Rightarrow> Q x (endpoints es) (spawned es) | _ \<Rightarrow> spawned es = []"
    by auto
qed

lemma logger_plain: "plain (spawn_task L (Path_event_logger role conn))"
  by (auto simp: plain_def spawn_task_def split: prod.splits)

lemma life_result_Done: "life_result res w = (Done x, w1, es) \<Longrightarrow> res = Inr x"
  by (auto simp: life_result_def life_ret_def life_fail_def split: sum.splits)

lemmas start_rules = starts_after_plain starts_after_binds plain_steps logger_plain start_endpoint_binds

text \<open>What each of the four starts has running when it succeeds.\<close>

lemma exit_server_starts:
  "starts (start_server_for_test_with_config L config)
    (\<lambda>handle eps tasks. eps = [sh_endpoint handle] \<and>
      tasks = [(sh_accept_task handle, Exit_accept_loop (sh_endpoint handle) config)])"
  unfolding start_server_for_test_with_config_def start_server_endpoint_def start_server_endpoint_with_bind_addr_def
  by (intro start_rules starts_last) (auto simp: life_then_def life_ret_def spawn_task_def split: prod.split)

lemma socks_client_starts:
  "starts (start_client_for_test_with_config L ticket listen config)
    (\<lambda>handle eps tasks. eps = [ch_endpoint handle] \<and> (\<exists>listener conn.
      tasks = [(ch_listener_task handle, Socks_accept_loop listener conn config (max_concurrent_sessions config))]))"
  unfolding start_client_for_test_with_config_def start_client_endpoint_def
  by (intro start_rules starts_last) (auto simp: life_then_def life_ret_def spawn_task_def split: prod.split)

lemma openai_server_starts:
  "starts (start_openai_server_for_test_with_config L config)
    (\<lambda>handle eps tasks. server_config_ok (sl_urls L) config \<and> eps = [oh_endpoint handle] \<and>
      (\<exists>client. tasks = [(oh_accept_task handle, Openai_accept_loop (oh_endpoint handle) config client)]))"
proof (cases "server_config_ok (sl_urls L) config")
  case True
  then show ?thesis
    unfolding start_openai_server_for_test_with_config_def
    by (intro start_rules starts_last) (auto simp: life_then_def life_ret_def spawn_task_def split: prod.split)
next
  case False
  then show ?thesis
    unfolding start_openai_server_for_test_with_config_def
    by (intro start_rules) (auto dest!: life_result_Done simp: validate_server_iff)
qed

lemma openai_client_starts:
  "starts (start_openai_client_with_optional_identity L ticket listen config identity)
    (\<lambda>handle eps tasks. client_config_ok config \<and> eps = [kh_endpoint handle] \<and> (\<exists>listener.
      tasks =
        (case (kh_health_task handle, oc_health_check_interval config) of
           (Some t, Some interval) \<Rightarrow>
             [(t, Health_check_loop interval (oc_tunnel_operation_timeout config) (oc_reconnect_attempts config))]
         | _ \<Rightarrow> []) @
        [(kh_listener_task handle, Openai_local_loop listener config (oc_max_concurrent_sessions config))] \<and>
      (kh_health_task handle = None \<longleftrightarrow> oc_health_check_interval config = None)))"
proof (cases "client_config_ok config")
  case True
  then show ?thesis
    unfolding start_openai_client_with_optional_identity_def
    by (intro start_rules starts_last)
      (auto simp: life_then_def life_ret_def spawn_task_def split: prod.split option.split)
next
  case False
  then show ?thesis
    unfolding start_openai_client_with_optional_identity_def
    by (intro start_rules) (auto dest!: life_result_Done simp: validate_client_iff)
qed

section \<open>How a run ends\<close>

text \<open>
  A run that ends well was interrupted once everything was running; after that it started nothing more, aborted
  every loop and waited for its end, and closed every endpoint.
\<close>

definition stopped :: "('h, 'k, 'p, 'u) life_event list \<Rightarrow> ('h, 'k, 'p, 'u) life_event list \<Rightarrow> bool" where
  "stopped before after \<longleftrightarrow>
    spawned before \<noteq> [] \<and> endpoints before \<noteq> [] \<and> spawned after = [] \<and> endpoints after = [] \<and>
    (\<forall>(t, kind) \<in> set (spawned before). subseq [Abort_task t, Join_task t (Done ())] after) \<and>
    (\<forall>h \<in> set (endpoints before). Close_endpoint h (Done ()) \<in> set after)"

definition ends_orderly ::
  "(anyhow_error, unit) outcome \<Rightarrow> ('h, 'k, 'p, 'u) life_event list \<Rightarrow> bool" where
  "ends_orderly r es \<longleftrightarrow>
    (case r of
       Done _ \<Rightarrow> \<exists>before after. es = before @ Interrupt (Done ()) # after \<and> stopped before after
     | Fail e \<Rightarrow> spawned es = [] \<or> (\<exists>before. es = before @ [Interrupt (Fail e)])
     | Hang \<Rightarrow> True)"

text \<open>The end of each program, as the calls it makes.\<close>

definition ends_with_calls :: "('w, 'h, 'k, 'p, 'u, unit) life \<Rightarrow> ('h, 'k, 'p, 'u) life_event list \<Rightarrow> bool" where
  "ends_with_calls m es \<longleftrightarrow> (\<forall>w r w1 fs. m w = (r, w1, fs) \<longrightarrow> (\<forall>e. r \<noteq> Fail e) \<and> (r = Done () \<longrightarrow> fs = es))"

lemma ends_ret: "ends_with_calls (life_ret ()) []"
  by (simp add: ends_with_calls_def life_ret_def)

lemma ends_then:
  assumes "ends_with_calls m es" and "ends_with_calls n fs"
  shows "ends_with_calls (life_then m (\<lambda>_. n)) (es @ fs)"
  unfolding ends_with_calls_def
proof (intro allI impI)
  fix w r w1 gs
  assume "life_then m (\<lambda>_. n) w = (r, w1, gs)"
  then show "(\<forall>e. r \<noteq> Fail e) \<and> (r = Done () \<longrightarrow> gs = es @ fs)"
    by (cases rule: life_then_runs) (use assms in \<open>fastforce simp: ends_with_calls_def\<close>)+
qed

lemma ends_close: "ends_with_calls (close_endpoint L h) [Close_endpoint h (Done ())]"
  by (auto simp: ends_with_calls_def close_endpoint_def life_call_def waits_def split: if_splits)

lemma ends_abort: "ends_with_calls (abort_task L t) [Abort_task t]"
  by (simp add: ends_with_calls_def abort_task_def)

lemma ends_join: "ends_with_calls (join_task L t) [Join_task t (Done ())]"
  by (auto simp: ends_with_calls_def join_task_def life_call_def waits_def split: if_splits)

lemmas end_rules = ends_then ends_close ends_abort ends_join ends_ret

lemma ends_eq: "ends_with_calls m es \<Longrightarrow> es = fs \<Longrightarrow> ends_with_calls m fs"
  by simp

lemma shutdowns_end:
  "ends_with_calls (server_shutdown L sh) [Close_endpoint (sh_endpoint sh) (Done ()), Abort_task (sh_accept_task sh),
     Join_task (sh_accept_task sh) (Done ())]"
  "ends_with_calls (client_shutdown L ch) [Close_endpoint (ch_endpoint ch) (Done ()), Abort_task (ch_listener_task ch),
     Join_task (ch_listener_task ch) (Done ())]"
  "ends_with_calls (openai_server_shutdown L oh) [Abort_task (oh_accept_task oh), Join_task (oh_accept_task oh) (Done ()),
     Close_endpoint (oh_endpoint oh) (Done ())]"
  unfolding server_shutdown_def client_shutdown_def openai_server_shutdown_def
  by (rule ends_eq, (rule end_rules)+, simp)+

lemma openai_client_shutdown_ends:
  "ends_with_calls (openai_client_shutdown L kh)
    ((case kh_health_task kh of Some t \<Rightarrow> [Abort_task t, Join_task t (Done ())] | None \<Rightarrow> []) @
     [Close_endpoint (kh_endpoint kh) (Done ()), Abort_task (kh_listener_task kh), Join_task (kh_listener_task kh) (Done ())])"
proof -
  have "ends_with_calls (life_then (abort_task L t) (\<lambda>_. join_task L t)) [Abort_task t, Join_task t (Done ())]" for t
    by (rule ends_eq, (rule end_rules)+, simp)
  then have health: "ends_with_calls
      (case kh_health_task kh of
         Some t \<Rightarrow> life_then (abort_task L t) (\<lambda>_. join_task L t)
       | None \<Rightarrow> life_ret ())
      (case kh_health_task kh of Some t \<Rightarrow> [Abort_task t, Join_task t (Done ())] | None \<Rightarrow> [])"
    by (simp add: ends_ret split: option.split)
  show ?thesis
    unfolding openai_client_shutdown_def by (rule ends_eq, rule ends_then [OF health], (rule end_rules)+, simp)
qed

lemma started_then_interrupted:
  assumes "starts start Q" and "\<And>h. ends_with_calls (shut h) (calls h)"
    and "\<And>h eps tasks before. \<lbrakk> Q h eps tasks; endpoints before = eps; spawned before = tasks \<rbrakk> \<Longrightarrow> stopped before (calls h)"
    and "life_then start (\<lambda>h. life_then (ctrl_c L) (\<lambda>_. shut h)) w = (r, w1, es)"
  shows "ends_orderly r es"
  using assms(4)
proof (cases rule: life_then_runs)
  case (ran h w2 es1 es2)
  then have Q: "Q h (endpoints es1) (spawned es1)"
    using startsD [OF assms(1) ran(1)] by simp
  from ran(2) show ?thesis
  proof (cases rule: life_then_runs)
    case int: (ran u w3 es3 es4)
    then have "es3 = [Interrupt (Done ())]"
      by (auto simp: ctrl_c_def life_call_def split: prod.splits)
    moreover have "(\<forall>e. r \<noteq> Fail e) \<and> (r = Done () \<longrightarrow> es4 = calls h)"
      using assms(2) [of h] int(2) unfolding ends_with_calls_def by blast
    ultimately show ?thesis
      using assms(3) [OF Q refl refl] ran(3) int(3) by (cases r) (auto simp: ends_orderly_def)
  next
    case (failed e)
    then show ?thesis
      using ran(3) by (auto simp: ends_orderly_def ctrl_c_def life_call_def split: prod.splits)
  qed (simp add: ends_orderly_def)
next
  case (failed e)
  with startsD [OF assms(1) failed(1)] show ?thesis
    by (simp add: ends_orderly_def)
qed (simp add: ends_orderly_def)

lemma life_then_assoc: "life_then (life_then m f) g = life_then m (\<lambda>x. life_then (f x) g)"
  by (rule ext) (simp add: life_then_def split: prod.split outcome.split)

lemma life_ret_then: "life_then (life_ret x) f = f x"
  by (rule ext) (simp add: life_then_def life_ret_def split: prod.split)

lemma starts_weaken: "\<lbrakk> starts m Q; \<And>x eps tasks. Q x eps tasks \<Longrightarrow> P x eps tasks \<rbrakk> \<Longrightarrow> starts m P"
  unfolding starts_def by (fastforce split: outcome.splits)

text \<open>The exit server's run has its start written out.\<close>

lemma server_run_split:
  "server_run L args =
    life_then
      (life_then (life_result (allow_peers_of L (xa_allow_peers args))) (\<lambda>peers.
       life_then (start_server_endpoint_with_bind_addr L (xa_bind_addr args)) (\<lambda>endpoint.
       life_then (endpoint_ticket_string L endpoint) (\<lambda>ticket.
       life_then (spawn_task L (Exit_accept_loop endpoint (server_config_new (xa_allow_private_targets args) peers))) (\<lambda>accept_task.
       life_ret \<lparr>sh_ticket = ticket, sh_endpoint = endpoint, sh_accept_task = accept_task\<rparr>)))))
      (\<lambda>handle. life_then (ctrl_c L) (\<lambda>_. server_shutdown L handle))"
  by (simp add: server_run_def server_shutdown_def life_then_assoc life_ret_then Let_def)

lemma server_run_orderly: "server_run L args w = (r, w1, es) \<Longrightarrow> ends_orderly r es"
  unfolding server_run_split
proof (rule started_then_interrupted [where calls = "\<lambda>sh. [Close_endpoint (sh_endpoint sh) (Done ()),
    Abort_task (sh_accept_task sh), Join_task (sh_accept_task sh) (Done ())]"])
  show "starts (life_then (life_result (allow_peers_of L (xa_allow_peers args))) (\<lambda>peers.
       life_then (start_server_endpoint_with_bind_addr L (xa_bind_addr args)) (\<lambda>endpoint.
       life_then (endpoint_ticket_string L endpoint) (\<lambda>ticket.
       life_then (spawn_task L (Exit_accept_loop endpoint (server_config_new (xa_allow_private_targets args) peers))) (\<lambda>accept_task.
       life_ret \<lparr>sh_ticket = ticket, sh_endpoint = endpoint, sh_accept_task = accept_task\<rparr>)))))
    (\<lambda>sh eps tasks. eps = [sh_endpoint sh] \<and> map fst tasks = [sh_accept_task sh])"
    unfolding start_server_endpoint_with_bind_addr_def
    by (intro start_rules starts_last) (auto simp: life_then_def life_ret_def spawn_task_def split: prod.split)
qed (auto simp: stopped_def shutdowns_end)

lemma client_run_orderly: "client_run L args w = (r, w1, es) \<Longrightarrow> ends_orderly r es"
  unfolding client_run_def start_client_for_test_def
  by (rule started_then_interrupted [OF socks_client_starts shutdowns_end(2)]) (auto simp: stopped_def)

lemma run_openai_client_orderly: "run_openai_client L args w = (r, w1, es) \<Longrightarrow> ends_orderly r es"
  unfolding run_openai_client_def
  by (rule started_then_interrupted [OF openai_client_starts openai_client_shutdown_ends])
    (auto simp: stopped_def split: option.splits)

lemma run_openai_server_orderly: "run_openai_server L args w = (r, w1, es) \<Longrightarrow> ends_orderly r es"
proof -
  assume "run_openai_server L args w = (r, w1, es)"
  then have run: "life_then
      (life_then (life_result (server_config_of_args (sl_urls L) (allow_peers_of L) args)) (start_openai_server_for_test_with_config L))
      (\<lambda>handle. life_then (ctrl_c L) (\<lambda>_. openai_server_shutdown L handle)) w = (r, w1, es)"
    by (simp add: run_openai_server_def life_then_assoc)
  have "starts (life_then (life_result (server_config_of_args (sl_urls L) (allow_peers_of L) args))
      (start_openai_server_for_test_with_config L))
    (\<lambda>handle eps tasks. eps = [oh_endpoint handle] \<and> map fst tasks = [oh_accept_task handle])"
    by (intro starts_after_plain plain_steps starts_weaken [OF openai_server_starts]) auto
  from this shutdowns_end(3) _ run show ?thesis
    by (rule started_then_interrupted) (auto simp: stopped_def)
qed

section \<open>Properties\<close>

text \<open>An instance: a network that answers, without files.\<close>

definition no_fs :: "(loop_world, unit) fs_lib" where
  "no_fs = \<lparr> fs_exists = (\<lambda>_ _. False), fs_read_to_string = (\<lambda>_ w. (Inl NotFound, w)),
     fs_create_dir_all = (\<lambda>_ w. (Inr (), w)), fs_open_new = (\<lambda>_ _ w. (Inl NotFound, w)),
     fs_write_all = (\<lambda>_ _ w. (Inl NotFound, w)), fs_flush = (\<lambda>_ w. (Inr (), w)), fs_sync_all = (\<lambda>_ w. (Inr (), w)),
     fs_remove_file = (\<lambda>_ w. (Inl NotFound, w)), fs_rename = (\<lambda>_ _ w. (Inl NotFound, w)) \<rparr>"

definition example_start :: "(loop_world, nat, unit, u8 list, nat, rstring, unit) start_lib" where
  "example_start = \<lparr>
     sl_parse_ticket = (\<lambda>t. if t = [] then None else Some ()), sl_parse_peer = (\<lambda>_. Some 7), sl_urls = example_urls,
     sl_net = (\<lambda>_ _. manager_loop_env), sl_accepts_addr = (\<lambda>_. True), sl_bind_endpoint = (\<lambda>_ w. (Done 1, w)),
     sl_ticket = (\<lambda>_ _. ascii ''ticket''), sl_bind_listener = (\<lambda>_ w. (Done 2, w)),
     sl_local_addr = (\<lambda>_ _. Inr any_addr), sl_http_client = (\<lambda>_ _. Inr 5),
     sl_spawn = (\<lambda>kind w. (case kind of Path_event_logger _ _ \<Rightarrow> 10 | Health_check_loop _ _ _ \<Rightarrow> 11 | _ \<Rightarrow> 12, w)),
     sl_interrupt = (\<lambda>w. (Done (), w)), sl_close = (\<lambda>_ w. (w, True)), sl_abort = (\<lambda>_ w. w), sl_join = (\<lambda>_ w. (w, True)),
     sl_path = (\<lambda>p. [p]), sl_files = no_fs, sl_keys = example_keys, sl_fresh = (\<lambda>_. example_key) \<rparr>"

definition example_client_args :: OpenAiClientArgs where
  "example_client_args = \<lparr> ca_server_ticket = ascii ''ticket'', ca_listen = any_addr, ca_max_concurrent_sessions = 128,
     ca_local_request_timeout_ms = from_secs 10, ca_tunnel_operation_timeout_ms = from_secs 10,
     ca_connect_timeout_ms = from_secs 10, ca_reconnect_attempts = 1, ca_health_check_interval_ms = Some (from_secs 5),
     ca_identity_path = None \<rparr>"

lemmas start_eval =
  life_then_def life_ret_def life_fail_def life_result_def life_call_def life_io_def waits_def bind_listener_def
  listener_addr_def http_client_def endpoint_ticket_string_def spawn_task_def ctrl_c_def close_endpoint_def abort_task_def
  join_task_def parse_server_ticket_def load_identity_def example_start_def

lemma example_client_run:
  "\<exists>w1 es. main example_start (OpenAiClientCommand example_client_args) (empty_world\<lparr>new_connections := [Done 7]\<rparr>) =
    (Done (), w1, es) \<and>
    spawned es = [(11, Health_check_loop (from_secs 5) (from_secs 10) 1),
      (12, Openai_local_loop 2 (client_config_of_args example_client_args) 128)]"
  by (simp add: start_eval run_openai_client_def start_openai_client_with_optional_identity_def
      start_client_endpoint_with_optional_identity_def openai_client_shutdown_def manager_connect_def
      set_manager_def manager_loop_connection new_manager_def manager_loop_sel loop_eval
      client_config_of_args_def example_client_args_def validate_client_config_def bail_if_def from_secs_def)

text \<open>C20: every program starts completely or not at all, and stops what it started. For every command, whatever the
  network, the files and the operating system do: a run that returns without an error was interrupted when its loops
  were running, then started nothing more, aborted every loop and waited for its end, and closed every
  endpoint; a run that returns an error has started no loop, unless waiting for the interrupt itself failed. Loops
  are the accept loops and the health check, not the loggers of a connection's paths.\<close>

theorem programs_end_orderly:
  assumes "main L command w = (r, w1, es)"
  shows "ends_orderly r es"
  using assms
  by (cases command)
    (auto intro: server_run_orderly client_run_orderly run_openai_server_orderly run_openai_client_orderly)

theorem programs_end_orderly_witness:
  "\<exists>w1 es. main example_start (OpenAiClientCommand example_client_args) (empty_world\<lparr>new_connections := [Done 7]\<rparr>) =
      (Done (), w1, es) \<and> length (spawned es) = 2 \<and>
    (\<exists>before after. es = before @ Interrupt (Done ()) # after \<and> stopped before after)"
proof -
  obtain w1 es where run: "main example_start (OpenAiClientCommand example_client_args)
      (empty_world\<lparr>new_connections := [Done 7]\<rparr>) = (Done (), w1, es)" and "length (spawned es) = 2"
    using example_client_run by auto
  with programs_end_orderly [OF run] show ?thesis
    by (simp add: ends_orderly_def)
qed

text \<open>C37: what a start has running. A start of any of the four programs that succeeds has bound one endpoint, the one in its
  handle, and started exactly the loops of its handle, with its configuration and as many permits as the
  configuration says; both OpenAI programs start only with a valid configuration. A start that fails, at whatever step, has
  started no loop.\<close>

theorem starts_all_or_nothing:
  "starts (start_server_for_test_with_config L exit_config)
    (\<lambda>handle eps tasks. eps = [sh_endpoint handle] \<and>
      tasks = [(sh_accept_task handle, Exit_accept_loop (sh_endpoint handle) exit_config)]) \<and>
   starts (start_client_for_test_with_config L ticket listen socks_config)
    (\<lambda>handle eps tasks. eps = [ch_endpoint handle] \<and> (\<exists>listener conn.
      tasks = [(ch_listener_task handle, Socks_accept_loop listener conn socks_config (max_concurrent_sessions socks_config))])) \<and>
   starts (start_openai_server_for_test_with_config L server_config)
    (\<lambda>handle eps tasks. server_config_ok (sl_urls L) server_config \<and> eps = [oh_endpoint handle] \<and>
      (\<exists>client. tasks = [(oh_accept_task handle, Openai_accept_loop (oh_endpoint handle) server_config client)])) \<and>
   starts (start_openai_client_with_optional_identity L ticket listen config identity)
    (\<lambda>handle eps tasks. client_config_ok config \<and> eps = [kh_endpoint handle] \<and> (\<exists>listener.
      tasks =
        (case (kh_health_task handle, oc_health_check_interval config) of
           (Some t, Some interval) \<Rightarrow>
             [(t, Health_check_loop interval (oc_tunnel_operation_timeout config) (oc_reconnect_attempts config))]
         | _ \<Rightarrow> []) @
        [(kh_listener_task handle, Openai_local_loop listener config (oc_max_concurrent_sessions config))] \<and>
      (kh_health_task handle = None \<longleftrightarrow> oc_health_check_interval config = None)))"
  using exit_server_starts socks_client_starts openai_server_starts openai_client_starts by blast

end
