(* ===== verification/RouteLog.thy ===== *)
theory RouteLog
  imports RustStd
begin

text \<open>
  The route log of \<open>src/route_logging.rs\<close>: what the program tells about the network paths of a connection. A log
  function is the list of records it writes, each with its level, its fields in order and its message. What
  iroh reports about a connection, its paths and their addresses is a parameter: records of the answers
  its accessors give, with the texts of its \<open>Debug\<close> formats.
\<close>

section \<open>Path summaries\<close>

datatype PathKind = RelayPath | DirectIp | CustomOrUnknown

fun path_kind_text :: "PathKind \<Rightarrow> rstring" where
  "path_kind_text RelayPath = ascii ''relay''"
| "path_kind_text DirectIp = ascii ''direct_ip''"
| "path_kind_text CustomOrUnknown = ascii ''custom_or_unknown''"

record PathSummary =
  ps_path_id :: rstring
  ps_remote_addr :: rstring
  ps_local_addr :: rstring
  ps_path_kind :: PathKind
  ps_selected :: bool
  ps_rtt_ms :: u64

definition classify_path_kind :: "bool \<Rightarrow> bool \<Rightarrow> PathKind" where
  "classify_path_kind is_relay is_ip =
    (if is_relay then RelayPath else if is_ip then DirectIp else CustomOrUnknown)"

definition selected_path :: "PathSummary list \<Rightarrow> PathSummary option" where
  "selected_path paths = List.find ps_selected paths"

text \<open>\<open>as_millis\<close> is a \<open>u128\<close>; a value that does not fit \<open>u64\<close> becomes its maximum.\<close>

definition duration_millis_u64 :: "duration \<Rightarrow> u64" where
  "duration_millis_u64 d = (let millis = d div 10 ^ 6 in if millis \<le> u64_max then of_nat millis else - 1)"

record iroh_path =
  ip_id :: rstring
  ip_remote :: rstring
  ip_local :: rstring
  ip_is_relay :: bool
  ip_is_ip :: bool
  ip_is_selected :: bool
  ip_rtt :: duration

record iroh_connection =
  ic_remote_id :: rstring
  ic_paths :: "iroh_path list"

definition collect_path_summaries :: "iroh_connection \<Rightarrow> PathSummary list" where
  "collect_path_summaries connection =
    map (\<lambda>path. \<lparr>
      ps_path_id = ip_id path,
      ps_remote_addr = ip_remote path,
      ps_local_addr = ip_local path,
      ps_path_kind = classify_path_kind (ip_is_relay path) (ip_is_ip path),
      ps_selected = ip_is_selected path,
      ps_rtt_ms = duration_millis_u64 (ip_rtt path) \<rparr>) (ic_paths connection)"

section \<open>Log records\<close>

datatype log_level = DebugLevel | InfoLevel | WarnLevel

datatype log_value = Text rstring | Flag bool | Number u64

record log_record =
  log_level :: log_level
  log_fields :: "(string \<times> log_value) list"
  log_message :: string

definition event_name :: "string \<Rightarrow> string \<times> log_value" where
  "event_name name = (''event'', Text (ascii name))"

definition log_path_snapshot :: "rstring \<Rightarrow> iroh_connection \<Rightarrow> log_record list" where
  "log_path_snapshot role connection =
    (let remote = ic_remote_id connection; paths = collect_path_summaries connection in
     if paths = [] then
       [\<lparr>log_level = DebugLevel,
         log_fields = [event_name ''iroh_path_snapshot_empty'', (''role'', Text role), (''iroh_remote'', Text remote)],
         log_message = ''iroh path snapshot has no open paths yet''\<rparr>]
     else
       map (\<lambda>path.
        \<lparr>log_level = InfoLevel,
         log_fields = [event_name ''iroh_path_snapshot'', (''role'', Text role), (''iroh_remote'', Text remote),
           (''path_id'', Text (ps_path_id path)), (''path_remote'', Text (ps_remote_addr path)),
           (''path_local'', Text (ps_local_addr path)), (''path_kind'', Text (path_kind_text (ps_path_kind path))),
           (''selected'', Flag (ps_selected path)), (''rtt_ms'', Number (ps_rtt_ms path))],
         log_message = ''iroh path snapshot''\<rparr>) paths)"

text \<open>The peer of the application and the target are texts already, as the callers format them.\<close>

definition or_unknown :: "rstring option \<Rightarrow> rstring" where
  "or_unknown text = (case text of Some t \<Rightarrow> t | None \<Rightarrow> ascii ''unknown'')"

definition log_connection_route ::
  "rstring \<Rightarrow> iroh_connection \<Rightarrow> rstring option \<Rightarrow> rstring option \<Rightarrow> log_record" where
  "log_connection_route role connection socks_peer target =
    (let common = [event_name ''connection_route'', (''role'', Text role), (''iroh_remote'', Text (ic_remote_id connection)),
       (''socks_peer'', Text (or_unknown socks_peer)), (''target'', Text (or_unknown target))] in
     case selected_path (collect_path_summaries connection) of
       Some path \<Rightarrow>
        \<lparr>log_level = InfoLevel,
         log_fields = common @ [(''selected_path_id'', Text (ps_path_id path)),
           (''selected_path_kind'', Text (path_kind_text (ps_path_kind path))),
           (''selected_path_remote'', Text (ps_remote_addr path)), (''selected_path_local'', Text (ps_local_addr path)),
           (''selected_path_rtt_ms'', Number (ps_rtt_ms path))],
         log_message = ''connection route''\<rparr>
     | None \<Rightarrow>
        \<lparr>log_level = WarnLevel,
         log_fields = common @ [(''selected_path_kind'', Text (ascii ''unknown''))],
         log_message = ''connection route has no selected iroh path yet''\<rparr>)"

section \<open>Path events\<close>

record path_addr =
  pa_text :: rstring
  pa_is_relay :: bool
  pa_is_ip :: bool

record path_stats =
  st_rtt :: duration
  st_tx_datagrams :: u64
  st_tx_bytes :: u64
  st_rx_datagrams :: u64
  st_rx_bytes :: u64

text \<open>The last constructor stands for the events that the library may add: the enum is not exhaustive.\<close>

datatype PathEvent =
    PathOpened rstring path_addr rstring
  | PathSelected rstring path_addr rstring
  | PathClosed rstring path_addr rstring path_stats
  | PathLagged u64
  | OtherPathEvent

definition path_fields :: "rstring \<Rightarrow> path_addr \<Rightarrow> rstring \<Rightarrow> (string \<times> log_value) list" where
  "path_fields i remote_addr local_addr =
    [(''path_id'', Text i), (''path_remote'', Text (pa_text remote_addr)), (''path_local'', Text local_addr),
     (''path_kind'', Text (path_kind_text (classify_path_kind (pa_is_relay remote_addr) (pa_is_ip remote_addr))))]"

fun log_path_event :: "rstring \<Rightarrow> rstring \<Rightarrow> PathEvent \<Rightarrow> log_record" where
  "log_path_event role remote (PathOpened i remote_addr local_addr) =
    \<lparr>log_level = InfoLevel,
     log_fields = [event_name ''iroh_path_opened'', (''role'', Text role), (''iroh_remote'', Text remote)] @
       path_fields i remote_addr local_addr,
     log_message = ''iroh path opened''\<rparr>"
| "log_path_event role remote (PathSelected i remote_addr local_addr) =
    \<lparr>log_level = InfoLevel,
     log_fields = [event_name ''iroh_path_selected'', (''role'', Text role), (''iroh_remote'', Text remote)] @
       path_fields i remote_addr local_addr,
     log_message = ''iroh path selected''\<rparr>"
| "log_path_event role remote (PathClosed i remote_addr local_addr last_stats) =
    \<lparr>log_level = InfoLevel,
     log_fields = [event_name ''iroh_path_closed'', (''role'', Text role), (''iroh_remote'', Text remote)] @
       path_fields i remote_addr local_addr @
       [(''rtt_ms'', Number (duration_millis_u64 (st_rtt last_stats))),
        (''tx_datagrams'', Number (st_tx_datagrams last_stats)), (''tx_bytes'', Number (st_tx_bytes last_stats)),
        (''rx_datagrams'', Number (st_rx_datagrams last_stats)), (''rx_bytes'', Number (st_rx_bytes last_stats))],
     log_message = ''iroh path closed''\<rparr>"
| "log_path_event role remote (PathLagged missed) =
    \<lparr>log_level = WarnLevel,
     log_fields = [event_name ''iroh_path_events_lagged'', (''role'', Text role), (''iroh_remote'', Text remote),
       (''missed'', Number missed)],
     log_message = ''iroh path event logger lagged''\<rparr>"
| "log_path_event role remote OtherPathEvent =
    \<lparr>log_level = DebugLevel,
     log_fields = [event_name ''iroh_path_event_unknown'', (''role'', Text role), (''iroh_remote'', Text remote)],
     log_message = ''unknown iroh path event''\<rparr>"

text \<open>
  The snapshot is logged before the task is spawned; the task then logs what the event stream delivers, and
  its end when it has come to it.
\<close>

definition spawn_path_event_logger :: "rstring \<Rightarrow> iroh_connection \<Rightarrow> PathEvent list \<Rightarrow> bool \<Rightarrow> log_record list" where
  "spawn_path_event_logger role connection delivered ended =
    (let remote = ic_remote_id connection in
     log_path_snapshot role connection @ map (log_path_event role remote) delivered @
     (if ended then
       [\<lparr>log_level = DebugLevel,
         log_fields = [event_name ''iroh_path_events_ended'', (''role'', Text role), (''iroh_remote'', Text remote)],
         log_message = ''iroh path event stream ended''\<rparr>]
      else []))"

section \<open>What the log says\<close>

lemma path_kind_text_inject: "path_kind_text k = path_kind_text l \<longleftrightarrow> k = l"
  by (cases k; cases l) simp_all

text \<open>The kind is the relay's whenever the path is a relay path, whatever else it is.\<close>

lemma classify_path_kind_iff:
  "classify_path_kind is_relay is_ip = RelayPath \<longleftrightarrow> is_relay"
  "classify_path_kind is_relay is_ip = DirectIp \<longleftrightarrow> \<not> is_relay \<and> is_ip"
  by (simp_all add: classify_path_kind_def)

lemma duration_millis_u64_exact: "unat (duration_millis_u64 d) = min (d div 10 ^ 6) u64_max"
proof (cases "d div 10 ^ 6 \<le> u64_max")
  case True
  then have "d div 10 ^ 6 < 2 ^ 64"
    by (simp add: u64_max_def)
  with True show ?thesis
    by (simp add: duration_millis_u64_def Let_def unat_of_nat)
next
  case False
  have "unat (- 1 :: u64) = u64_max"
    by (simp add: u64_max_def unsigned_minus_1_eq_mask mask_eq_exp_minus_1)
  with False show ?thesis
    by (simp add: duration_millis_u64_def Let_def)
qed

lemma selected_path_first:
  "selected_path paths = Some p \<longleftrightarrow>
    (\<exists>i < length paths. p = paths ! i \<and> ps_selected p \<and> (\<forall>j < i. \<not> ps_selected (paths ! j)))"
  by (auto simp: selected_path_def find_Some_iff)

lemma selected_path_None: "selected_path paths = None \<longleftrightarrow> list_all (\<lambda>q. \<not> ps_selected q) paths"
  by (auto simp: selected_path_def find_None_iff list_all_iff)

text \<open>
  The log of a connection: a route is one record, a warning exactly if no path is selected, and it names the
  first selected path with its own kind and round-trip time; a snapshot has one record for each path, in
  their order, and one if there is none.
\<close>

lemma route_level:
  "log_level (log_connection_route role c peer target) =
    (if list_all (\<lambda>path. \<not> ip_is_selected path) (ic_paths c) then WarnLevel else InfoLevel)"
proof (cases "selected_path (collect_path_summaries c)")
  case None
  moreover from None have "list_all (\<lambda>path. \<not> ip_is_selected path) (ic_paths c)"
    by (simp add: selected_path_None collect_path_summaries_def list_all_iff)
  ultimately show ?thesis
    by (simp add: log_connection_route_def Let_def)
next
  case (Some path)
  then have "\<not> list_all (\<lambda>path. \<not> ip_is_selected path) (ic_paths c)"
    using selected_path_None [of "collect_path_summaries c"]
    by (auto simp: collect_path_summaries_def list_all_iff)
  with Some show ?thesis
    by (simp add: log_connection_route_def Let_def)
qed

lemma snapshot_length: "length (log_path_snapshot role c) = max 1 (length (ic_paths c))"
  by (cases "ic_paths c") (auto simp: log_path_snapshot_def collect_path_summaries_def Let_def)

text \<open>Every record of a connection carries its role and its remote id.\<close>

lemma logger_records_tagged:
  "list_all (\<lambda>r. (''role'', Text role) \<in> set (log_fields r) \<and> (''iroh_remote'', Text (ic_remote_id c)) \<in> set (log_fields r))
    (spawn_path_event_logger role c delivered ended)"
proof -
  have "(''role'', Text role) \<in> set (log_fields (log_path_event role remote ev)) \<and>
      (''iroh_remote'', Text remote) \<in> set (log_fields (log_path_event role remote ev))" for remote ev
    by (cases ev) simp_all
  then show ?thesis
    by (auto simp: spawn_path_event_logger_def log_path_snapshot_def Let_def list_all_iff)
qed

end
