(* ===== verification/HealthCheck.thy ===== *)
theory HealthCheck
  imports OpenAiClient OpenAiServer
begin

text \<open>
  The health check from end to end: \<open>run_openai_health_check\<close> of \<open>src/openai/client_handler.rs\<close> against the answer that
  \<open>respond_to_health_check\<close> of \<open>src/openai/server_handler.rs\<close> gives. First what the client's check does with whatever it
  receives, then that the request it sends is one the server answers by itself, and then both together.
\<close>

section \<open>The client's side\<close>

abbreviation unhealthy :: "(anyhow_error, unit) outcome" where
  "unhealthy \<equiv> Fail (Message ''OpenAI proxy health check returned non-200 response'')"

abbreviation status_200 :: "u8 list" where
  "status_200 \<equiv> ascii ''HTTP/1.1 200''"

text \<open>The peer has ended the stream: a read gave no bytes.\<close>

definition saw_end :: "'h \<Rightarrow> 'h event list \<Rightarrow> bool" where
  "saw_end recv es \<longleftrightarrow> Read_ev recv (Done []) \<in> set es"

definition response_taken :: "'h \<Rightarrow> u8 list \<Rightarrow> (anyhow_error, u8 list) outcome \<Rightarrow> 'h event list \<Rightarrow> bool" where
  "response_taken recv acc r es \<longleftrightarrow>
    (\<forall>k. sent k es = []) \<and> opens es = [] \<and>
    (case r of
       Done response \<Rightarrow> response = acc @ received recv es \<and> (saw_end recv es \<or> has_window (CRLF @ CRLF) response)
     | Fail err \<Rightarrow> Fail err \<noteq> unhealthy
     | Hang \<Rightarrow> True)"

lemma read_some_quiet:
  "read_some E recv w = (got, w1, es) \<Longrightarrow>
    sent k es = [] \<and> opens es = [] \<and> es = [Read_ev recv got] \<and>
    received recv es = (case got of Done bytes \<Rightarrow> bytes | _ \<Rightarrow> [])"
  by (auto simp: read_some_def call_def split: prod.splits outcome.splits)

lemma response_loop_run:
  "health_response_loop fuel E recv d acc w = (r, w1, es) \<Longrightarrow> response_taken recv acc r es"
proof (induction fuel arbitrary: acc w es)
  case (Suc fuel)
  from Suc.prems show ?case
    unfolding health_response_loop.simps
  proof (rule timeout_then_runs)
    fix got w2 es1 fs
    assume read: "read_some E recv (op_deadline E (Some d) w) = (got, w2, es1)"
      and rest: "(case (case got of Done x \<Rightarrow> Completed (Inr x) | Fail e \<Rightarrow> Completed (Inl e) | Hang \<Rightarrow> Elapsed) of
          Elapsed \<Rightarrow> raise (Message ''timed out reading OpenAI proxy health check response'')
        | Completed (Inl err) \<Rightarrow> raise (IoErr err)
        | Completed (Inr bytes) \<Rightarrow>
            if bytes = [] then ret acc
            else if has_window (CRLF @ CRLF) (acc @ bytes) then ret (acc @ bytes)
            else health_response_loop fuel E recv d (acc @ bytes)) (op_deadline E None w2) = (r, w1, fs)"
      and es: "es = (Deadline_ev (Some d) # es1 @ [Deadline_ev None]) @ fs"
    note quiet = read_some_quiet [OF read]
    show "response_taken recv acc r es"
    proof (cases got)
      case (Done bytes)
      consider "bytes = []" | "bytes \<noteq> []" "has_window (CRLF @ CRLF) (acc @ bytes)"
        | "bytes \<noteq> []" "\<not> has_window (CRLF @ CRLF) (acc @ bytes)"
        by blast
      then show ?thesis
      proof cases
        case 3
        with rest Done have "health_response_loop fuel E recv d (acc @ bytes) (op_deadline E None w2) = (r, w1, fs)"
          by simp
        from Suc.IH [OF this] quiet Done show ?thesis
          by (auto simp: response_taken_def es saw_end_def split: outcome.splits)
      qed (use rest quiet Done in \<open>auto simp: response_taken_def es ret_def saw_end_def\<close>)
    qed (use rest quiet in \<open>auto simp: response_taken_def es raise_def\<close>)
  qed
qed (auto simp: hang_def response_taken_def)

text \<open>The check after its stream was opened.\<close>

definition checked :: "'h \<Rightarrow> 'h \<Rightarrow> (anyhow_error, unit) outcome \<Rightarrow> 'h event list \<Rightarrow> bool" where
  "checked send recv r es \<longleftrightarrow>
    (sent send es \<noteq> [] \<longrightarrow> sent send es = health_request) \<and>
    (r = Done () \<longrightarrow> sent send es = health_request \<and> starts_with (received recv es) status_200) \<and>
    (r = unhealthy \<longrightarrow> sent send es = health_request \<and> \<not> starts_with (received recv es) status_200 \<and>
      (saw_end recv es \<or> has_window (CRLF @ CRLF) (received recv es)))"

lemma write_all_quiet:
  "write_all E send bs w = (got, w1, es) \<Longrightarrow>
    opens es = [] \<and> received k es = [] \<and> sent send es = (case got of Done u \<Rightarrow> bs | _ \<Rightarrow> [])"
  by (auto simp: write_all_def call_def split: prod.splits outcome.splits)

lemma finish_quiet:
  "map_err IoErr (finish E send) w = (got, w1, es) \<Longrightarrow>
    opens es = [] \<and> received k es = [] \<and> sent h es = [] \<and> (\<forall>m. got \<noteq> Fail (Message m))"
  by (auto simp: map_err_def finish_def call_def split: prod.splits)

lemma saw_end_more: "saw_end recv es \<Longrightarrow> saw_end recv (es0 @ es)"
  by (simp add: saw_end_def)

lemma verdict_run:
  assumes "andthen (health_response_loop fuel E recv d []) (\<lambda>response.
      if starts_with response status_200 then ret ()
      else raise (Message ''OpenAI proxy health check returned non-200 response'')) w = (r, w1, es)"
    and "opens es0 = []" "received recv es0 = []" "sent send es0 = health_request"
  shows "opens (es0 @ es) = [] \<and> checked send recv r (es0 @ es)"
  using assms(1)
proof (cases rule: andthen_runs)
  case (ran response w2 es1 es2)
  from response_loop_run [OF ran(1)] ran(2,3) assms(2-4) show ?thesis
    by (auto simp: checked_def response_taken_def ret_def raise_def saw_end_more split: if_splits)
next
  case (failed err)
  from response_loop_run [OF failed(1)] failed(2) assms(2-4) show ?thesis
    by (auto simp: checked_def response_taken_def)
next
  case hung
  from response_loop_run [OF hung(1)] hung(2) assms(2-4) show ?thesis
    by (auto simp: checked_def response_taken_def)
qed

lemma exchange_run:
  assumes "andthen (timeout E d (write_all E send health_request)) (\<lambda>result.
      case result of
        Elapsed \<Rightarrow> raise (Message ''timed out writing OpenAI proxy health check'')
      | Completed (Inl err) \<Rightarrow> raise (IoErr err)
      | Completed (Inr _) \<Rightarrow>
          andthen (map_err IoErr (finish E send)) (\<lambda>_.
          andthen (health_response_loop fuel E recv d []) (\<lambda>response.
          if starts_with response status_200 then ret ()
          else raise (Message ''OpenAI proxy health check returned non-200 response'')))) w = (r, w1, es)"
  shows "opens es = [] \<and> checked send recv r es"
  using assms
proof (rule timeout_then_runs)
  fix got w2 es1 fs
  assume written: "write_all E send health_request (op_deadline E (Some d) w) = (got, w2, es1)"
    and rest: "(case (case got of Done x \<Rightarrow> Completed (Inr x) | Fail e \<Rightarrow> Completed (Inl e) | Hang \<Rightarrow> Elapsed) of
        Elapsed \<Rightarrow> raise (Message ''timed out writing OpenAI proxy health check'')
      | Completed (Inl err) \<Rightarrow> raise (IoErr err)
      | Completed (Inr _) \<Rightarrow>
          andthen (map_err IoErr (finish E send)) (\<lambda>_.
          andthen (health_response_loop fuel E recv d []) (\<lambda>response.
          if starts_with response status_200 then ret ()
          else raise (Message ''OpenAI proxy health check returned non-200 response'')))) (op_deadline E None w2) = (r, w1, fs)"
    and es: "es = (Deadline_ev (Some d) # es1 @ [Deadline_ev None]) @ fs"
  note wrote = write_all_quiet [OF written, of recv]
  show "opens es = [] \<and> checked send recv r es"
  proof (cases got)
    case (Done u)
    with rest have "andthen (map_err IoErr (finish E send)) (\<lambda>_.
          andthen (health_response_loop fuel E recv d []) (\<lambda>response.
          if starts_with response status_200 then ret ()
          else raise (Message ''OpenAI proxy health check returned non-200 response''))) (op_deadline E None w2) = (r, w1, fs)"
      by simp
    then show ?thesis
    proof (cases rule: andthen_runs)
      case (ran x w3 fs1 fs2)
      have "opens (((Deadline_ev (Some d) # es1 @ [Deadline_ev None]) @ fs1) @ fs2) = [] \<and>
          checked send recv r (((Deadline_ev (Some d) # es1 @ [Deadline_ev None]) @ fs1) @ fs2)"
        using wrote finish_quiet [OF ran(1), of recv send] Done
        by (intro verdict_run [OF ran(2)]) simp_all
      then show ?thesis
        by (simp add: es ran(3))
    next
      case (failed err)
      with wrote finish_quiet [OF failed(1), of recv send] Done show ?thesis
        by (auto simp: checked_def es)
    next
      case hung
      with wrote finish_quiet [OF hung(1), of recv send] Done show ?thesis
        by (auto simp: checked_def es)
    qed
  qed (use rest wrote in \<open>auto simp: checked_def es raise_def\<close>)
qed

text \<open>The whole check. Its last stream is the one it uses, if that one could be opened.\<close>

lemma health_check_run:
  assumes "run_openai_health_check fuel E ct ot n w = (r, w1, es)"
  shows "length (opens es) \<le> n + 1 \<and>
    (r = Done () \<longrightarrow> (\<exists>before conn streams. opens es = before @ [(conn, Done streams)])) \<and>
    (\<forall>before conn send recv. opens es = before @ [(conn, Done (send, recv))] \<longrightarrow>
      checked send recv r es)"
  using assms unfolding run_openai_health_check_def
proof (cases rule: andthen_runs)
  case (ran streams w2 es1 es2)
  obtain send recv where streams: "streams = (send, recv)"
    by (cases streams)
  note opened = open_bi_run [OF ran(1), unfolded attempts_of_def]
  have quiet: "sent k es1 = [] \<and> received k es1 = []" for k
    by (rule connects_only_quiet [OF conjunct1 [OF emitsD [OF open_bi_calls ran(1)]]])
  have rest: "opens es2 = [] \<and> checked send recv r es2"
    by (rule exchange_run [OF ran(2) [unfolded streams prod.case]])
  then have opens: "opens es = opens es1"
    by (simp add: ran(3))
  from rest have "checked send recv r es"
    using quiet by (auto simp: checked_def ran(3) saw_end_more)
  then show ?thesis
    using opened unfolding opens streams by auto
next
  case (failed err)
  from open_bi_run [OF failed(1), unfolded attempts_of_def] failed(2) show ?thesis
    by (auto simp: list_all_iff)
next
  case hung
  from open_bi_run [OF hung(1), unfolded attempts_of_def] hung(2) show ?thesis
    by (auto simp: list_all_iff)
qed

section \<open>The server's side\<close>

text \<open>
  What the HTTP libraries make of the head that the check sends: a GET of the health check's target with one
  header, \<open>Host\<close>.
\<close>

definition reads_health_request :: "http_lib \<Rightarrow> bool" where
  "reads_health_request L \<longleftrightarrow>
    request_parse L MAX_HEADER_COUNT health_request = Inr (Complete_head
      \<lparr>hp_method = Some (ascii ''GET''), hp_path = Some (ascii ''/__tunnelAI/healthz''), hp_version = Some 1,
       hp_headers = [(ascii ''Host'', ascii ''tunnelAI'')]\<rparr>) \<and>
    method_parse L (ascii ''GET'') = Some (ascii ''GET'') \<and>
    header_name_from_bytes L (ascii ''Host'') = Some (ascii ''host'') \<and>
    header_value_from_bytes L (ascii ''tunnelAI'') = Some (ascii ''tunnelAI'')"

definition health_head :: ParsedHttpHead where
  "health_head = \<lparr>parsed_method = ascii ''GET'', parsed_target = ascii ''/__tunnelAI/healthz'',
    parsed_headers = [(ascii ''host'', ascii ''tunnelAI'')], content_length = None, has_chunked_body = False\<rparr>"

lemma health_request_framed: "framed_head health_request"
proof -
  let ?l1 = "ascii ''GET /__tunnelAI/healthz HTTP/1.1'' @ CRLF" and ?l2 = "ascii ''Host: tunnelAI'' @ CRLF"
  have "header_section MAX_HEADER_BYTES (?l2 @ CRLF)"
    unfolding header_section_def
    by (intro exI [of _ "[?l2]"] exI [of _ CRLF]) (simp add: is_line_def ends_head_def MAX_HEADER_BYTES_def CRLF_def)
  moreover have "is_line ?l1" "length ?l1 \<le> MAX_REQUEST_LINE_BYTES"
    by (simp_all add: is_line_def MAX_REQUEST_LINE_BYTES_def CRLF_def)
  moreover have "health_request = ?l1 @ (?l2 @ CRLF)"
    by (simp only: health_request_def append_assoc)
  ultimately show ?thesis
    unfolding framed_head_def by blast
qed

lemma health_head_parsed: "reads_health_request L \<Longrightarrow> parse_http_head L health_request = Inr health_head"
  by (simp add: reads_health_request_def parse_http_head_def health_head_def ok_or_def
      trim_optional_whitespace_def CONTENT_LENGTH_def TRANSFER_ENCODING_def parse_eval)

lemma health_request_read:
  assumes "buffered_source F coming ends" and "reads_health_request L" and "coming v k = health_request @ rest"
    and "read_http_request L F k v = (got, v1, fs)"
  shows "got = Done (request_of health_head [])"
proof -
  note dec = buffered_source.read_http_request_decodes [OF assms(1), of k L]
  have "p_request L (ends k) (coming v k) = Parsed (request_of health_head []) rest"
    unfolding p_request_Parsed using health_request_framed health_head_parsed [OF assms(2)] assms(3)
    by (intro exI [of _ health_request] exI [of _ health_head] exI [of _ "[]"])
      (simp add: health_head_def wanted_def)
  then show ?thesis
    unfolding decodes_result(1) [OF dec assms(4)] by blast
qed

lemma health_answer_run:
  assumes "buffered_source F coming ends" and "reads_health_request (lib_http L)" and "coming v k = health_request @ rest"
    and "handle_openai_stream fuel L F s k config v = (q, v1, fs)"
  shows "provider_sends fs = [] \<and> (q = Done () \<longrightarrow> plainly_answered s 200 (ascii ''OK'') (ascii ''ok'' @ [0x0a]) fs)"
proof -
  let ?v = "op_deadline F (Some (os_request_read_timeout config)) v"
  obtain got v2 fs2 where read: "read_http_request (lib_http L) F k ?v = (got, v2, fs2)"
    by (rule act_run)
  have "coming ?v k = health_request @ rest"
    using byte_source.deadline_keeps [OF buffered_source.axioms(1) [OF assms(1)]] assms(3) by simp
  from health_request_read [OF assms(1, 2) this read]
  have "verdict_of L config got = Answer 200 (ascii ''OK'') (ascii ''ok'' @ [0x0a])"
    by (simp add: verdict_of_def is_health_request_def request_of_def health_head_def)
  with openai_session_run [OF assms(4) read] show ?thesis
    by simp
qed

section \<open>Both together\<close>

lemma answer_200_starts: "plain_response_bytes 200 why text = status_200 @ ascii '' '' @ why @ CRLF @
    ascii ''content-type: text/plain'' @ CRLF @ ascii ''connection: close'' @ CRLF @
    ascii ''content-length: '' @ show_dec (length text) @ CRLF @ CRLF @ text"
  by (simp add: plain_response_bytes_def show_dec.simps [of 200] show_dec.simps [of 20] show_dec.simps [of 2])

lemma window_has_cr: "has_window (CRLF @ CRLF) bs \<Longrightarrow> 0x0d \<in> set bs"
  by (induction bs) (auto simp: CRLF_def)

text \<open>Of a 200 answer that arrives whole, or as far as the first empty line, the status is seen.\<close>

lemma status_seen:
  assumes "status_200 @ after = got @ undelivered" and "undelivered = [] \<or> has_window (CRLF @ CRLF) got"
  shows "starts_with got status_200"
proof -
  from assms(1) have "(\<exists>us. got = status_200 @ us) \<or> (\<exists>us. status_200 = got @ us)"
    unfolding append_eq_append_conv2 by blast
  then show ?thesis
  proof (elim disjE exE)
    fix us assume prefix: "status_200 = got @ us"
    have "0x0d \<notin> set status_200"
      by simp
    then have "0x0d \<notin> set got"
      unfolding prefix by simp
    with assms prefix window_has_cr [of got] have "undelivered = []"
      by blast
    with assms(1) show ?thesis
      unfolding starts_with_iff by auto
  qed (auto simp: starts_with_iff)
qed

text \<open>C19: a health check across the tunnel. It uses the one stream it could open, within its reconnects. Take a run
  of the OpenAI proxy server on a stream that delivers what the check sent, and let the check
  receive what the server sent, all of it if the stream has ended. Then the check sent the health
  check's request, the server answered 200 without a word to the provider, and the check does not report the
  server as unhealthy: it passes, with the status 200 received, or its own reading or writing failed.\<close>

theorem health_check_end_to_end:
  assumes "run_openai_health_check fuel E ct ot n w = (r, w1, es)"
    and "ConnManager.opens es = before @ [(conn, Done (send, recv))]" and "sent send es \<noteq> []"
    and "buffered_source F coming ends" and "coming v k = sent send es @ rest" and "reads_health_request (lib_http L)"
    and "handle_openai_stream fuel' L F s k config v = (Done (), v1, fs)"
    and "sent s fs = received recv es @ undelivered" and "saw_end recv es \<longrightarrow> undelivered = []"
  shows "length before \<le> n \<and> sent send es = health_request \<and> provider_sends fs = [] \<and>
    plainly_answered s 200 (ascii ''OK'') (ascii ''ok'' @ [0x0a]) fs \<and>
    r \<noteq> unhealthy \<and> (r = Done () \<longrightarrow> starts_with (received recv es) status_200)"
proof -
  note check = health_check_run [OF assms(1)]
  then have checked: "checked send recv r es"
    using assms(2) by blast
  then have request: "sent send es = health_request"
    using assms(3) by (simp add: checked_def)
  note answer = health_answer_run [OF assms(4, 6) assms(5) [unfolded request] assms(7)]
  then have "status_200 @ (ascii '' '' @ ascii ''OK'' @ CRLF @
    ascii ''content-type: text/plain'' @ CRLF @ ascii ''connection: close'' @ CRLF @
    ascii ''content-length: '' @ show_dec (length (ascii ''ok'' @ [0x0a])) @ CRLF @ CRLF @ ascii ''ok'' @ [0x0a]) =
      received recv es @ undelivered"
    unfolding assms(8) [symmetric] by (simp only: plainly_answered_def answer_200_starts simp_thms)
  from status_seen [OF this] checked assms(9) have "r \<noteq> unhealthy"
    by (auto simp: checked_def)
  with check checked request answer assms(2) show ?thesis
    by (simp add: checked_def)
qed

text \<open>An instance: a server that reads the request, and a client that receives its answer.\<close>

definition health_lib :: http_lib where
  "health_lib =
    \<lparr>request_parse = (\<lambda>_ _. Inr (Complete_head
       \<lparr>hp_method = Some (ascii ''GET''), hp_path = Some (ascii ''/__tunnelAI/healthz''), hp_version = Some 1,
        hp_headers = [(ascii ''Host'', ascii ''tunnelAI'')]\<rparr>)),
     method_parse = Some, header_name_from_bytes = (\<lambda>n. Some (map to_ascii_lowercase n)),
     header_value_from_bytes = Some, header_value_to_str = Some\<rparr>"

lemma health_lib_reads: "reads_health_request health_lib"
  by (simp add: reads_health_request_def health_lib_def to_ascii_lowercase_def)

abbreviation healthy_answer :: "u8 list" where
  "healthy_answer \<equiv> plain_response_bytes 200 (ascii ''OK'') (ascii ''ok'' @ [0x0a])"

definition health_world :: loop_world where
  "health_world = empty_world
    \<lparr>inbox := (\<lambda>h. if h = 4 then healthy_answer else []), stream_end := (\<lambda>_. Stalled),
     new_connections := [Done 7], new_streams := [Done (3, 4)]\<rparr>"

lemma healthy_answer_whole: "has_window (CRLF @ CRLF) healthy_answer" "length healthy_answer \<le> 8192" "healthy_answer \<noteq> []"
  by (simp_all add: plain_response_bytes_def CRLF_def show_dec.simps [of 200] show_dec.simps [of 20] show_dec.simps [of 2]
      show_dec.simps [of "Suc (Suc (Suc 0))"])

lemma health_client_run:
  "\<exists>w1 es. run_openai_health_check 1 manager_loop_env 10 10 1 health_world = (Done (), w1, es) \<and>
    opens es = [(7, Done (3, 4))] \<and> sent 3 es = health_request \<and> received 4 es = healthy_answer"
proof -
  have "starts_with healthy_answer status_200"
    unfolding answer_200_starts starts_with_iff by blast
  then show ?thesis
    using healthy_answer_whole
    by (simp add: run_openai_health_check_def health_world_def loop_eval manager_loop_sel open_bi_with_reconnect.simps
        manager_loop_connection read_some_def)
qed

text \<open>Reading on a stream whose bytes are all there: line by line.\<close>

lemma takeWhile_line: "0x0a \<notin> set l \<Longrightarrow> takeWhile (\<lambda>b. b \<noteq> (0x0a :: u8)) (l @ 0x0a # rest) = l"
  by (induction l) auto

lemma ending_line_read:
  assumes "inbox w h = l @ [0x0a] @ rest" and "0x0a \<notin> set l" and "length l < chunk_size w" and "length l < max_len"
  shows "\<exists>es. read_limited_line_bytes ending_env h max_len w = (Done (l @ [0x0a]), take_inbox h (Suc (length l)) w, es) \<and>
    sent k es = []"
proof -
  let ?a = "take (max 1 (chunk_size w)) (inbox w h)"
  obtain rest' where a: "?a = l @ 0x0a # rest'"
    using assms(1,3) by (cases "chunk_size w - length l") auto
  have n: "(case position (\<lambda>byte. byte = 0x0a) (l @ 0x0a # rest') of
      None \<Rightarrow> length (l @ 0x0a # rest') | Some p \<Rightarrow> p + 1) = Suc (length l)"
    unfolding position_newline takeWhile_line [OF assms(2)] by simp
  have fill: "fill_buf ending_env h w = (Done (l @ 0x0a # rest'), w, [Fill_buf_ev h (Done (l @ 0x0a # rest'))])"
    using a by (simp add: fill_buf_def call_def ending_env_def loop_fill_chunk_def)
  have take: "consume ending_env h (Suc (length l)) w = (Done (), take_inbox h (Suc (length l)) w, [Consume_ev h (Suc (length l))])"
    by (simp add: consume_def ending_env_def loop_env_def)
  show ?thesis
    unfolding read_limited_line_bytes_def read_line_loop.simps [of ending_env h max_len "[]"] andthen_def map_err_def fill
    using assms(4) by (simp add: n Let_def andthen_def take ret_def ends_with_single del: length_append)
qed

text \<open>A line of the head, and its last line.\<close>

lemma ending_head_more:
  assumes "inbox w h = l @ [0x0a] @ rest" and "0x0a \<notin> set l" "l \<noteq> []" "l \<noteq> [0x0d]" and "length l < chunk_size w"
    and "bytes + length l < MAX_HEADER_BYTES"
    and "read_head_loop ending_env h (head @ l @ [0x0a]) (bytes + Suc (length l)) (take_inbox h (Suc (length l)) w) = (Done x, w1, es)"
    and "sent k es = []"
  shows "\<exists>es. read_head_loop ending_env h head bytes w = (Done x, w1, es) \<and> sent k es = []"
proof -
  obtain fs where "read_limited_line_bytes ending_env h MAX_HEADER_BYTES w =
      (Done (l @ [0x0a]), take_inbox h (Suc (length l)) w, fs)" "sent k fs = []"
    using ending_line_read [OF assms(1,2,5), of MAX_HEADER_BYTES k] assms(6) by auto
  with assms(3,4,6-8) show ?thesis
    by (subst read_head_loop.simps) (simp add: andthen_def Let_def append_eq_Cons_conv)
qed

lemma ending_head_last:
  assumes "inbox w h = CRLF @ rest" and "1 < chunk_size w" and "bytes + 2 \<le> MAX_HEADER_BYTES"
  shows "\<exists>es. read_head_loop ending_env h head bytes w = (Done (head @ CRLF), take_inbox h 2 w, es) \<and> sent k es = []"
proof -
  have no_feed: "0x0a \<notin> set [0x0d :: u8]"
    by simp
  obtain fs where "read_limited_line_bytes ending_env h MAX_HEADER_BYTES w = (Done CRLF, take_inbox h 2 w, fs)" "sent k fs = []"
    using ending_line_read [of w h "[0x0d]" rest MAX_HEADER_BYTES k, OF _ no_feed] assms by (auto simp: CRLF_def numeral_2_eq_2)
  with assms(3) show ?thesis
    by (subst read_head_loop.simps) (simp add: andthen_def Let_def ret_def CRLF_def)
qed

abbreviation health_inbox :: loop_world where
  "health_inbox \<equiv> empty_world\<lparr>inbox := (\<lambda>_. health_request)\<rparr>"

lemma health_head_read:
  "\<exists>w1 es. read_http_head ending_env 2 health_inbox = (Done health_request, w1, es) \<and>
    finished w1 = (\<lambda>_. False) \<and> sent 1 es = []"
proof -
  let ?l1 = "ascii ''GET /__tunnelAI/healthz HTTP/1.1'' @ [0x0d]" and ?l2 = "ascii ''Host: tunnelAI'' @ [0x0d]"
  have whole: "health_request = ?l1 @ [0x0a] @ ?l2 @ [0x0a] @ CRLF"
    by (simp add: health_request_def CRLF_def)
  let ?w1 = "take_inbox 2 (Suc (length ?l1)) health_inbox" and ?w2 = "take_inbox 2 (Suc (length ?l1) + Suc (length ?l2)) health_inbox"
  obtain es1 where first: "read_limited_line_bytes ending_env 2 MAX_REQUEST_LINE_BYTES health_inbox =
      (Done (?l1 @ [0x0a]), ?w1, es1)" "sent 1 es1 = []"
    using ending_line_read [of health_inbox 2 ?l1 "?l2 @ [0x0a] @ CRLF" MAX_REQUEST_LINE_BYTES 1]
    by (auto simp: whole empty_world_def MAX_REQUEST_LINE_BYTES_def)
  obtain es3 where third: "read_head_loop ending_env 2 ((?l1 @ [0x0a]) @ ?l2 @ [0x0a]) (0 + Suc (length ?l2)) ?w2 =
      (Done (((?l1 @ [0x0a]) @ ?l2 @ [0x0a]) @ CRLF), take_inbox 2 2 ?w2, es3)" "sent 1 es3 = []"
    using ending_head_last [of ?w2 2 "[]" "0 + Suc (length ?l2)" "(?l1 @ [0x0a]) @ ?l2 @ [0x0a]" 1]
    by (auto simp: whole take_inbox_sel empty_world_def MAX_HEADER_BYTES_def CRLF_def)
  obtain es2 where "read_head_loop ending_env 2 (?l1 @ [0x0a]) 0 ?w1 =
      (Done (((?l1 @ [0x0a]) @ ?l2 @ [0x0a]) @ CRLF), take_inbox 2 2 ?w2, es2)" "sent 1 es2 = []"
    using ending_head_more [of ?w1 2 ?l2 CRLF 0 "?l1 @ [0x0a]" "((?l1 @ [0x0a]) @ ?l2 @ [0x0a]) @ CRLF" "take_inbox 2 2 ?w2" es3 1] third
    by (auto simp: whole take_inbox_sel take_inbox_twice empty_world_def MAX_HEADER_BYTES_def)
  with first show ?thesis
    by (simp add: read_http_head_def andthen_def map_err_def take_inbox_sel whole) (simp add: empty_world_def)
qed

abbreviation health_server_lib :: "(rstring, nat) openai_lib" where
  "health_server_lib \<equiv> example_openai_lib\<lparr>lib_http := health_lib\<rparr>"

lemma health_server_run:
  "\<exists>v1 fs. handle_openai_stream 0 health_server_lib ending_env 1 2 example_openai_config health_inbox = (Done (), v1, fs)"
proof -
  obtain w1 es where head: "read_http_head ending_env 2 health_inbox = (Done health_request, w1, es)"
    "finished w1 = (\<lambda>_. False)"
    using health_head_read by blast
  then have read: "read_http_request health_lib ending_env 2 health_inbox = (Done (request_of health_head []), w1, es)"
    using health_head_parsed [OF health_lib_reads]
    by (simp add: read_http_request_def andthen_def from_result_def ret_def health_head_def request_of_def)
  have "is_health_request (request_of health_head [])"
    by (simp add: is_health_request_def request_of_def health_head_def)
  with read head(2) show ?thesis
    by (simp add: handle_openai_stream_def read_and_validate_request_def respond_to_health_check_def
        write_plain_response_def loop_eval ending_env_def)
qed

theorem health_check_end_to_end_witness:
  "\<exists>w1 es v1 fs.
    run_openai_health_check 1 manager_loop_env 10 10 1 health_world = (Done (), w1, es) \<and>
    handle_openai_stream 0 health_server_lib ending_env 1 2 example_openai_config
      (empty_world\<lparr>inbox := (\<lambda>_. sent 3 es)\<rparr>) = (Done (), v1, fs) \<and>
    sent 1 fs = received 4 es \<and> provider_sends fs = [] \<and> starts_with (received 4 es) status_200"
proof -
  obtain w1 es where client: "run_openai_health_check 1 manager_loop_env 10 10 1 health_world = (Done (), w1, es)"
    and opened: "opens es = [(7, Done (3, 4))]" and request: "sent 3 es = health_request" and got: "received 4 es = healthy_answer"
    using health_client_run by blast
  obtain v1 fs where server: "handle_openai_stream 0 health_server_lib ending_env 1 2 example_openai_config health_inbox =
      (Done (), v1, fs)"
    using health_server_run by blast
  have "inbox health_inbox 2 = health_request @ []" "reads_health_request (lib_http health_server_lib)"
    using health_lib_reads by simp_all
  from health_answer_run [OF ending_source.buffered_source_axioms this(2, 1) server]
  have answer: "sent 1 fs = received 4 es @ []"
    by (simp add: plainly_answered_def got)
  have "opens es = [] @ [(7, Done (3, 4))]" "sent 3 es \<noteq> []" "inbox health_inbox 2 = sent 3 es @ []"
    "saw_end 4 es \<longrightarrow> [] = ([] :: u8 list)"
    using opened request by (simp_all add: health_request_def)
  from health_check_end_to_end [OF client this(1, 2) ending_source.buffered_source_axioms this(3)
      \<open>reads_health_request (lib_http health_server_lib)\<close> server answer this(4)] client server request answer show ?thesis
    by auto
qed

end
