(* ===== verification/SocksTunnel.thy ===== *)
theory SocksTunnel
  imports SocksClient
begin

text \<open>
  The SOCKS tunnel as a whole: \<open>handle_socks_connection\<close> of \<open>src/client.rs\<close> at one end,
  \<open>handle_tunnel_stream\<close> of \<open>src/server.rs\<close> at the other. First the transcript of each session, what it has received
  and sent on each of its handles, at any moment once the tunnel is open; then the two put
  together. No law of the environment is needed: the transcripts compare the calls of a run with one another.
\<close>

section \<open>The client's transcript\<close>

lemma handshake_transcript:
  assumes "perform_socks_handshake E local t w = (Done True, w1, es)"
  shows "\<exists>methods. 0x00 \<in> set methods \<and> received local es = greeting_bytes methods \<and> sent local es = [0x05, 0x00]"
proof -
  obtain n u eb where neg: "negotiate_no_auth E local (op_deadline E (Some t) w) = (n, u, eb)"
    by (rule act_run)
  with assms have n: "n = Done ()" "es = Deadline_ev (Some t) # eb @ [Deadline_ev None]"
    by (auto simp: perform_socks_handshake_def andthen_def timeout_def ret_def raise_def split: outcome.splits)
  from neg [unfolded n negotiate_no_auth_split] obtain methods u1 e1 e2 where
      greeting: "read_greeting E local (op_deadline E (Some t) w) = (Done methods, u1, e1)"
    and answer: "answer_greeting E local methods u1 = (Done (), u, e2)" and eb: "eb = e1 @ e2"
    by (auto elim!: andthen_runs)
  have "received local e1 = greeting_bytes methods"
    using parse_greeting_Parsed [OF read_greeting_received [OF greeting]] by simp
  moreover have "received local e2 = []"
    using answer
    by (auto simp: answer_greeting_def andthen_def map_err_def write_all_def flush_def call_def ret_def raise_def
        split: prod.splits outcome.splits if_splits)
  moreover have "0x00 \<in> set methods" "sent local e2 = [0x05, 0x00]"
    using answer_greeting_sent [OF answer] by auto
  ultimately show ?thesis
    using read_greeting_silent [OF greeting, of local] by (auto simp: n(2) eb)
qed

lemma request_transcript:
  assumes "read_socks_connect_request E local t w = (Done (Some req), w1, es)"
  shows "wf_request req \<and> received local es = socks_request_bytes req \<and> sent local es = []"
proof -
  obtain n u eb where read: "read_connect_request E local (op_deadline E (Some t) w) = (n, u, eb)"
    by (rule act_run)
  with assms have n: "n = Done req" "es = Deadline_ev (Some t) # eb @ [Deadline_ev None]"
    by (auto simp: read_socks_connect_request_def andthen_def timeout_def ret_def raise_def
        split: outcome.splits prod.splits)
  from read_connect_request_received [OF read [unfolded n]]
    reads_only_view [OF conjunct1 [OF emitsD [OF read_connect_request_calls read]], of local]
  show ?thesis
    by (simp add: n(2))
qed

lemma conclude_transcript:
  assumes "conclude E sched local send recv status w = (r, w1, es)" and "copies es"
    and "local \<noteq> send" "local \<noteq> recv"
  shows "status = Succeeded \<and> sent send es = received local es \<and>
    sent local es = socks_reply Succeeded @ received recv es"
  using assms(1) unfolding conclude_def
proof (cases rule: andthen_runs)
  case (ran x w2 es1 es2)
  from ran(1) have wr: "write_reply E local status w = (Done x, w2, es1)"
    by (rule map_err_runs) (simp add: Done_map_outcome)
  note view = write_reply_view [OF wr] write_reply_sent [OF wr]
  have "status = Succeeded"
  proof (rule ccontr)
    assume "status \<noteq> Succeeded"
    with ran(2) have "\<not> copies es2"
      by (auto simp: andthen_def map_err_def finish_def call_def ret_def split: prod.splits outcome.splits)
    with view assms(2) show False
      by (simp add: ran(3))
  qed
  with ran(2) obtain r' where "relay_socks_tunnel E sched local send recv w2 = (r', w1, es2)"
    by (auto elim: map_err_runs)
  from relay_socks_run [OF this] assms(3,4) view \<open>status = Succeeded\<close> show ?thesis
    by (auto simp: direction_faithful_def ran(3))
next
  case (failed e)
  from failed(1) obtain r' where "write_reply E local status w = (r', w1, es)"
    by (rule map_err_runs)
  with write_reply_view [OF this] assms(2) show ?thesis
    by simp
next
  case hung
  from hung(1) obtain r' where "write_reply E local status w = (r', w1, es)"
    by (rule map_err_runs)
  with write_reply_view [OF this] assms(2) show ?thesis
    by simp
qed

text \<open>From the request on: it is sent, \<open>Succeeded\<close> comes back, and the relay runs.\<close>

definition exchanged :: "'h \<Rightarrow> 'h \<Rightarrow> 'h \<Rightarrow> ConnectRequest \<Rightarrow> 'h event list \<Rightarrow> bool" where
  "exchanged local send recv req es \<longleftrightarrow>
    sent send es = tunnel_request_bytes req @ received local es \<and>
    (\<exists>hi lo down. received recv es = MAGIC @ [VERSION, reply_code_u8 Succeeded, hi, lo] @ down \<and>
      sent local es = socks_reply Succeeded @ down)"

lemma exchange_transcript:
  assumes "andthen (send_tunnel_request E local send req t) (\<lambda>delivered.
      if \<not> delivered then ret ()
      else andthen (read_tunnel_status E local recv t) (\<lambda>answered.
        case answered of None \<Rightarrow> ret () | Some status \<Rightarrow> conclude E sched local send recv status)) w = (r, w1, es)"
    and "copies es" and "local \<noteq> send" "local \<noteq> recv" "send \<noteq> recv"
  shows "exchanged local send recv req es"
  using assms(1)
proof (cases rule: andthen_runs)
  case (ran delivered w2 es1 es2)
  note sent = send_view [OF ran(1) assms(3)]
  have delivered: "delivered"
    using ran(2,3) sent assms(2) by (cases delivered) (auto simp: ret_def)
  with ran(2) have "andthen (read_tunnel_status E local recv t) (\<lambda>answered.
      case answered of None \<Rightarrow> ret () | Some status \<Rightarrow> conclude E sched local send recv status) w2 = (r, w1, es2)"
    by simp
  then show ?thesis
  proof (cases rule: andthen_runs)
    case inner: (ran answered w3 es3 es4)
    note status = status_view [OF inner(1) assms(4)]
    have copied: "copies es4"
      using sent status assms(2) by (simp add: ran(3) inner(3))
    with inner(2) obtain status where answered: "answered = Some status"
      by (cases answered) (auto simp: ret_def)
    with inner(2) have "conclude E sched local send recv status w3 = (r, w1, es4)"
      by simp
    from conclude_transcript [OF this copied assms(3,4)] sent status answered delivered assms(3-5) show ?thesis
      by (auto simp: exchanged_def ran(3) inner(3))
  next
    case (failed e)
    with sent status_view [OF failed(1) assms(4)] assms(2) show ?thesis
      by (simp add: ran(3))
  next
    case hung
    with sent status_view [OF hung(1) assms(4)] assms(2) show ?thesis
      by (simp add: ran(3))
  qed
next
  case (failed e)
  with send_view [OF failed(1) assms(3)] assms(2) show ?thesis
    by simp
next
  case hung
  with send_view [OF hung(1) assms(3)] assms(2) show ?thesis
    by simp
qed

definition client_transcript :: "'h \<Rightarrow> 'h event list \<Rightarrow> bool" where
  "client_transcript local es \<longleftrightarrow>
    (\<exists>methods req send recv up hi lo down. opens es = [Done (send, recv)] \<and> 0x00 \<in> set methods \<and> wf_request req \<and>
      received local es = greeting_bytes methods @ socks_request_bytes req @ up \<and>
      sent send es = tunnel_request_bytes req @ up \<and>
      received recv es = MAGIC @ [VERSION, reply_code_u8 Succeeded, hi, lo] @ down \<and>
      sent local es = [0x05, 0x00] @ socks_reply Succeeded @ down)"

lemma client_transcriptI:
  assumes "0x00 \<in> set methods" "received local es1 = greeting_bytes methods" "sent local es1 = [0x05, 0x00]"
    and "wf_request req" "received local es2 = socks_request_bytes req" "sent local es2 = []"
    and "exchanged local send recv req es4"
    and "\<And>k. k \<noteq> local \<Longrightarrow> sent k es1 = [] \<and> received k es1 = []"
    and "\<And>k. k \<noteq> local \<Longrightarrow> sent k es2 = [] \<and> received k es2 = []"
    and "opens es3 = [Done (send, recv)]" "\<And>k. sent k es3 = [] \<and> received k es3 = []"
    and "opens es1 = []" "opens es2 = []" "opens es4 = []"
    and "local \<noteq> send" "local \<noteq> recv"
  shows "client_transcript local (es1 @ es2 @ es3 @ es4)"
proof -
  from assms(7) obtain hi lo down where "sent send es4 = tunnel_request_bytes req @ received local es4"
    "received recv es4 = MAGIC @ [VERSION, reply_code_u8 Succeeded, hi, lo] @ down"
    "sent local es4 = socks_reply Succeeded @ down"
    by (auto simp: exchanged_def)
  with assms show ?thesis
    unfolding client_transcript_def
    by (intro exI [of _ methods] exI [of _ req] exI [of _ send] exI [of _ recv] exI [of _ "received local es4"]
        exI [of _ hi] exI [of _ lo] exI [of _ down]) simp
qed

lemma client_session_transcript:
  assumes "handle_socks_connection E sched local t1 t2 w = (r, w1, es)" and "copies es"
    and fresh: "\<And>send recv. Done (send, recv) \<in> set (opens es) \<Longrightarrow> local \<noteq> send \<and> local \<noteq> recv \<and> send \<noteq> recv"
  shows "client_transcript local es"
  using assms(1) unfolding handle_socks_connection_def conclude_def [symmetric]
proof (cases rule: andthen_runs)
  case (ran shaken w2 es1 rest1)
  note hs = handshake_view [OF ran(1)]
  have c1: "copies rest1" and shaken: "shaken"
    using hs ran(2,3) assms(2) by (cases shaken; auto simp: ret_def)+
  show ?thesis
    using ran(2) [unfolded eqTrueI [OF shaken] not_True_eq_False if_False]
  proof (cases rule: andthen_runs)
    case req: (ran requested w3 es2 rest2)
    note rq = request_view [OF req(1)]
    have c2: "copies rest2"
      using rq c1 by (simp add: req(3))
    then obtain request where request: "requested = Some request"
      using req(2) by (cases requested) (auto simp: ret_def)
    show ?thesis
      using req(2) unfolding request option.case
    proof (cases rule: andthen_runs)
      case op: (ran opened w4 es3 es4)
      note opv = open_view [OF op(1)]
      have c3: "copies es4"
        using opv c2 by (auto simp: op(3))
      then obtain send recv where opened: "opened = Some (send, recv)"
        using op(2) by (cases opened) (auto simp: ret_def)
      have es: "es = es1 @ es2 @ es3 @ es4"
        by (simp add: ran(3) req(3) op(3))
      have opened_ev: "opens es3 = [Done (send, recv)]" "\<And>k. sent k es3 = [] \<and> received k es3 = []"
        using opv opened by auto
      have distinct: "local \<noteq> send" "local \<noteq> recv" "send \<noteq> recv"
        using fresh [of send recv] opened_ev(1) by (simp_all add: es)
      note run = op(2) [unfolded opened option.case prod.case]
      have "opens es4 = []"
        using exchange_view [OF run distinct] by simp
      moreover have "exchanged local send recv request es4"
        by (rule exchange_transcript [OF run c3 distinct])
      moreover have "opens es1 = []" "\<And>k. k \<noteq> local \<Longrightarrow> sent k es1 = [] \<and> received k es1 = []"
        using hs by simp_all
      moreover have "opens es2 = []" "\<And>k. k \<noteq> local \<Longrightarrow> sent k es2 = [] \<and> received k es2 = []"
        using rq by simp_all
      moreover note handshake_transcript [OF ran(1) [unfolded eqTrueI [OF shaken]]]
        request_transcript [OF req(1) [unfolded request]]
      ultimately show ?thesis
        unfolding es using opened_ev distinct(1,2) by (elim exE conjE) (rule client_transcriptI; assumption)
    qed (use open_view c2 in \<open>auto dest!: open_view\<close>)
  qed (use c1 in \<open>auto dest!: request_view\<close>)
qed (use assms(2) in \<open>auto dest!: handshake_view\<close>)

section \<open>The exit server's transcript\<close>

text \<open>An answer other than \<open>Succeeded\<close>, or a part of it from its start.\<close>

definition declined :: "'h \<Rightarrow> 'h event list \<Rightarrow> bool" where
  "declined send es \<longleftrightarrow> (\<exists>code rest. code \<noteq> Succeeded \<and> tunnel_response_bytes code = sent send es @ rest)"

lemma declined_silent: "sent send es = [] \<Longrightarrow> declined send es"
  unfolding declined_def by (intro exI [of _ GeneralFailure]) simp

lemma declined_more: "sent send es = [] \<Longrightarrow> declined send fs \<Longrightarrow> declined send (es @ fs)"
  by (simp add: declined_def)

lemma declined_not_accepted:
  "declined send es \<Longrightarrow> sent send es \<noteq> MAGIC @ [VERSION, reply_code_u8 Succeeded, hi, lo] @ back"
proof
  assume "declined send es" and sent: "sent send es = MAGIC @ [VERSION, reply_code_u8 Succeeded, hi, lo] @ back"
  then obtain code rest where code: "code \<noteq> Succeeded" "tunnel_response_bytes code = sent send es @ rest"
    by (auto simp: declined_def)
  then have "reply_code_u8 code = reply_code_u8 Succeeded"
    unfolding sent by (simp add: tunnel_response_bytes_def)
  with code(1) show False
    by (cases code) simp_all
qed

lemma write_response_upto: "sends_upto h (tunnel_response_bytes code) (write_response E h code)"
  unfolding write_response_def
  by (rule sends_upto_eq, (rule sends_upto_rules)+) (simp add: tunnel_response_bytes_def be16_bytes_def)

lemma declined_run:
  assumes "andthen (write_response_and_finish E send code) (\<lambda>_. ret x) w = (r, w1, es)" and "code \<noteq> Succeeded"
  shows "declined send es"
proof -
  have "sends_upto send (tunnel_response_bytes code) (andthen (write_response_and_finish E send code) (\<lambda>_. ret x))"
    unfolding write_response_and_finish_def
    by (rule sends_upto_eq, (rule sends_upto_rules write_response_upto)+) simp
  from sends_uptoD [OF this assms(1)] assms(2) show ?thesis
    unfolding declined_def by blast
qed

lemma select_loop_code: "select_loop p f addrs = Inl code \<Longrightarrow> code \<noteq> Succeeded"
  by (induction addrs arbitrary: f) (auto split: if_splits)

lemma resolve_target_code: "resolve_target E req config w = (Fail code, w1, es) \<Longrightarrow> code \<noteq> Succeeded"
  by (auto simp: resolve_target_def resolve_domain_target_def resolve_ip_target_def select_allowed_resolved_addr_def
      from_result_def ret_def raise_def eq_commute [of "Fail _" "map_outcome _ _ _"] elim!: andthen_runs map_err_runs dest: select_loop_code
      split: TargetAddr.splits if_splits sum.splits)

lemma map_connect_error_code: "map_connect_error e \<noteq> Succeeded"
  by (cases e) simp_all

lemma resolve_declined:
  assumes "resolve_allowed_target E send req config w = (r, w1, es)" and "\<And>a. r \<noteq> Done (Some a)"
  shows "declined send es"
proof (cases "target_allowed req (allow_private_targets config)")
  case False
  with assms(1) show ?thesis
    by (auto simp: resolve_allowed_target_def elim!: declined_run)
next
  case True
  with assms(1) have "andthen (timeout E (target_connect_timeout config) (resolve_target E req config)) (\<lambda>result.
       case result of
         Completed (Inr target) \<Rightarrow> ret (Some target)
       | Completed (Inl code) \<Rightarrow> andthen (write_response_and_finish E send code) (\<lambda>_. ret None)
       | Elapsed \<Rightarrow> andthen (write_response_and_finish E send TtlExpired) (\<lambda>_. ret None)) w = (r, w1, es)"
    by (simp add: resolve_allowed_target_def)
  then show ?thesis
  proof (cases rule: andthen_runs)
    case (ran res w2 es1 es2)
    from ran(1) obtain r3 w3 es3 where
      res: "resolve_target E req config (op_deadline E (Some (target_connect_timeout config)) w) = (r3, w3, es3)"
      and r3: "Done res = Done (case r3 of Done x \<Rightarrow> Completed (Inr x) | Fail e \<Rightarrow> Completed (Inl e) | Hang \<Rightarrow> Elapsed)"
      and es1: "es1 = Deadline_ev (Some (target_connect_timeout config)) # es3 @ [Deadline_ev None]"
      by (rule timeout_runs) blast
    have "sent send es1 = []"
      using resolve_target_run [OF res True, of send] by (simp add: es1)
    moreover have "declined send es2"
      using ran(2) r3 assms(2) res
      by (cases r3) (auto simp: ret_def elim!: declined_run dest: resolve_target_code)
    ultimately show ?thesis
      by (simp add: ran(3) declined_more)
  qed (auto elim!: timeout_runs)
qed

lemma connect_declined:
  assumes "connect_target E send a t w = (r, w1, es)" and "\<And>tcp. r \<noteq> Done (Some tcp)"
  shows "declined send es"
  using assms(1) unfolding connect_target_def
proof (cases rule: andthen_runs)
  case (ran res w2 es1 es2)
  from ran(1) obtain r3 w3 es3 where
    con: "tcp_connect E a (op_deadline E (Some t) w) = (r3, w3, es3)"
    and r3: "Done res = Done (case r3 of Done x \<Rightarrow> Completed (Inr x) | Fail e \<Rightarrow> Completed (Inl e) | Hang \<Rightarrow> Elapsed)"
    and es1: "es1 = Deadline_ev (Some t) # es3 @ [Deadline_ev None]"
    by (rule timeout_runs) blast
  have "sent send es1 = []"
    using con by (auto simp: es1 tcp_connect_def call_def split: prod.splits)
  moreover have "declined send es2"
    using ran(2) r3 assms(2)
    by (cases r3) (auto simp: ret_def map_connect_error_code elim!: declined_run)
  ultimately show ?thesis
    by (simp add: ran(3) declined_more)
qed (auto elim!: timeout_runs)

text \<open>Before the relay only \<open>send\<close> is written to, and nothing but the request is read.\<close>

fun settles :: "'h \<Rightarrow> 'h event \<Rightarrow> bool" where
  "settles h (Write_all_ev h' bs r) \<longleftrightarrow> h' = h"
| "settles h (Flush_ev h' r) \<longleftrightarrow> h' = h"
| "settles h (Finish_ev h' r) \<longleftrightarrow> h' = h"
| "settles h (Lookup_host_ev d p r) \<longleftrightarrow> True"
| "settles h (Tcp_connect_ev a r) \<longleftrightarrow> True"
| "settles h (Deadline_ev d) \<longleftrightarrow> True"
| "settles h _ \<longleftrightarrow> False"

lemma settles_quiet: "list_all (settles h) es \<Longrightarrow> received k es = [] \<and> (k \<noteq> h \<longrightarrow> sent k es = [])"
proof (induction es)
  case (Cons e es)
  moreover have "sent_by k e = [] \<and> received_by k e = []" if "settles h e" "k \<noteq> h"
    using that by (cases e; cases "case e of Write_all_ev h bs r \<Rightarrow> r | _ \<Rightarrow> Hang") auto
  moreover have "received_by k e = []" if "settles h e"
    using that by (cases e) auto
  ultimately show ?case
    by auto
qed simp

lemma write_response_settles: "emits (settles h) (\<lambda>_. True) (write_response E h code)"
  unfolding write_response_def by (auto intro!: calls_rules)

lemma write_response_and_finish_settles: "emits (settles h) (\<lambda>_. True) (write_response_and_finish E h code)"
  unfolding write_response_and_finish_def by (auto intro!: calls_rules write_response_settles)

lemma resolve_settles: "emits (settles h) (\<lambda>_. True) (resolve_allowed_target E h req config)"
  unfolding resolve_allowed_target_def resolve_target_def resolve_domain_target_def
  by (auto intro!: calls_rules write_response_and_finish_settles split: timed.split sum.split TargetAddr.split)

lemma connect_settles: "emits (settles h) (\<lambda>_. True) (connect_target E h a t)"
  unfolding connect_target_def
  by (auto intro!: calls_rules write_response_and_finish_settles split: timed.split sum.split)

lemma tunnel_request_transcript:
  assumes "read_tunnel_request E send recv t w = (r, w1, es)"
  shows "(\<forall>k. sent k es = []) \<and> connects es = [] \<and> lookups es = [] \<and> (\<forall>k. k \<noteq> recv \<longrightarrow> received k es = []) \<and>
    (\<forall>req. r = Done (Some req) \<longrightarrow> wf_request req \<and> received recv es = tunnel_request_bytes req)"
proof -
  obtain got w2 es2 where read: "read_request E recv (op_deadline E (Some t) w) = (got, w2, es2)"
    by (rule act_run)
  note quiet = reads_only_view [OF conjunct1 [OF emitsD [OF read_request_calls read]]]
  note run = read_tunnel_request_run [OF assms read]
  have "\<exists>fs. es = (Deadline_ev (Some t) # es2 @ [Deadline_ev None]) @ fs \<and> (\<forall>k. sent k fs = []) \<and>
      (\<forall>req. r = Done (Some req) \<longrightarrow> fs = [] \<and> got = Done req)"
    using assms read
    by (auto simp: read_tunnel_request_def andthen_def timeout_def map_err_def finish_def call_def ret_def raise_def
        split: outcome.splits prod.splits)
  then obtain fs where es: "es = (Deadline_ev (Some t) # es2 @ [Deadline_ev None]) @ fs" "\<And>k. sent k fs = []"
    "\<And>req. r = Done (Some req) \<Longrightarrow> fs = [] \<and> got = Done req"
    by blast
  have "wf_request req \<and> received recv es = tunnel_request_bytes req" if "r = Done (Some req)" for req
    using es(3) [OF that] read_request_received [of E recv _ req] read by (auto simp: es(1))
  with run quiet es(1,2) show ?thesis
    by simp
qed

lemma connected_run:
  assumes "connect_target E send a t w = (Done (Some tcp), w1, es)"
  shows "connects es = [(a, Done tcp)] \<and> lookups es = [] \<and> sent send es = []"
  using connect_target_run [OF assms] by (elim exE, rename_tac attempted, case_tac attempted) simp_all

lemma serve_transcript:
  assumes "andthen (map_err TunnelErr (write_response E send Succeeded)) (\<lambda>_.
      map_err IoErr (relay_tunnel_to_tcp E sched send recv tcp)) w = (r, w1, es)"
    and "tcp \<noteq> send" "tcp \<noteq> recv" and "sent send es = MAGIC @ [VERSION, reply_code_u8 Succeeded, hi, lo] @ back"
  shows "received recv es = sent tcp es \<and> back = received tcp es \<and> connects es = [] \<and> lookups es = []"
  using assms(1)
proof (cases rule: andthen_runs)
  case (ran x w2 es1 es2)
  from ran(1) have wr: "write_response E send Succeeded w = (Done x, w2, es1)"
    by (rule map_err_runs) (simp add: Done_map_outcome)
  from ran(2) obtain r' where rel: "relay_tunnel_to_tcp E sched send recv tcp w2 = (r', w1, es2)"
    by (rule map_err_runs)
  have "sent send es1 = tunnel_response_bytes Succeeded"
    by (rule sendsD [OF write_response_sends wr])
  moreover have "received k es1 = []" "k \<noteq> send \<Longrightarrow> sent k es1 = []" for k
    using settles_quiet [OF conjunct1 [OF emitsD [OF write_response_settles wr]]] by blast+
  moreover have "connects es1 = [] \<and> lookups es1 = []"
    using emitsD [OF write_response_calls wr] answers_only_quiet [of send es1] by simp
  moreover have "connects es2 = [] \<and> lookups es2 = []"
    using emitsD [OF relay_calls rel] relays_only_quiet [of es2] by simp
  ultimately show ?thesis
    using relay_tunnel_run [OF rel] assms(2-4)
    by (auto simp: ran(3) direction_faithful_def tunnel_response_bytes_def MAGIC_def)
next
  case (failed e)
  note calls = conjunct1 [OF emitsD [OF emits_map_err [OF write_response_settles] failed(1)]]
    conjunct1 [OF emitsD [OF emits_map_err [OF write_response_calls] failed(1)]]
  from sends_uptoD [OF sends_upto_map_err [OF write_response_upto] failed(1)] assms(2-4)
    settles_quiet [OF calls(1)] answers_only_quiet [OF calls(2)] show ?thesis
    by (auto simp: tunnel_response_bytes_def MAGIC_def)
next
  case hung
  note calls = conjunct1 [OF emitsD [OF emits_map_err [OF write_response_settles] hung(1)]]
    conjunct1 [OF emitsD [OF emits_map_err [OF write_response_calls] hung(1)]]
  from sends_uptoD [OF sends_upto_map_err [OF write_response_upto] hung(1)] assms(2-4)
    settles_quiet [OF calls(1)] answers_only_quiet [OF calls(2)] show ?thesis
    by (auto simp: tunnel_response_bytes_def MAGIC_def)
qed

text \<open>Once an accepting answer is on its way, the request was read and resolved, and its target connected to.\<close>

definition server_transcript :: "bool \<Rightarrow> 'h \<Rightarrow> u8 list \<Rightarrow> 'h event list \<Rightarrow> bool" where
  "server_transcript allow_private recv back es \<longleftrightarrow>
    (\<exists>req a tcp. wf_request req \<and> resolution req allow_private (lookups es) = Inr a \<and> connects es = [(a, Done tcp)] \<and>
      received recv es = tunnel_request_bytes req @ sent tcp es \<and> back = received tcp es)"

lemma server_session_transcript:
  assumes "handle_tunnel_stream E sched send recv config w = (r, w1, es)" and "send \<noteq> recv"
    and fresh: "\<And>a tcp. (a, Done tcp) \<in> set (connects es) \<Longrightarrow> tcp \<noteq> send \<and> tcp \<noteq> recv"
    and accepted: "sent send es = MAGIC @ [VERSION, reply_code_u8 Succeeded, hi, lo] @ back"
  shows "server_transcript (allow_private_targets config) recv back es"
  using assms(1) unfolding handle_tunnel_stream_def
proof (cases rule: andthen_runs)
  case (ran requested w2 es1 rest1)
  note rd = tunnel_request_transcript [OF ran(1)]
  have "requested \<noteq> None"
    using ran(2,3) rd accepted by (cases requested) (auto simp: ret_def MAGIC_def)
  then obtain req where req: "requested = Some req"
    by blast
  show ?thesis
    using ran(2) [unfolded req option.case]
  proof (cases rule: andthen_runs)
    case res: (ran resolved w3 es2 rest2)
    have "resolved \<noteq> None"
    proof
      assume none: "resolved = None"
      then have "declined send es2" "rest2 = []"
        using resolve_declined [OF res(1)] res(2) by (simp_all add: ret_def)
      with declined_not_accepted [OF declined_more [of send es1]] rd accepted show False
        by (auto simp: ran(3) res(3))
    qed
    then obtain a where a: "resolved = Some a"
      by blast
    note resolved = resolve_allowed_target_run [OF res(1) [unfolded a]]
    then have sent2: "sent send es2 = []" "connects es2 = []" "resolution req (allow_private_targets config) (lookups es2) = Inr a"
      by (auto split: sum.splits)
    note quiet2 = settles_quiet [OF conjunct1 [OF emitsD [OF resolve_settles res(1)]]]
    show ?thesis
      using res(2) [unfolded a option.case]
    proof (cases rule: andthen_runs)
      case con: (ran connected w4 es3 es4)
      have "connected \<noteq> None"
      proof
        assume "connected = None"
        then have "declined send es3" "es4 = []"
          using connect_declined [OF con(1)] con(2) by (simp_all add: ret_def)
        with declined_not_accepted [OF declined_more [of send "es1 @ es2"]] rd sent2 accepted show False
          by (auto simp: ran(3) res(3) con(3))
      qed
      then obtain tcp where tcp: "connected = Some tcp"
        by blast
      have es: "es = es1 @ es2 @ es3 @ es4"
        by (simp add: ran(3) res(3) con(3))
      have con3: "connects es3 = [(a, Done tcp)]" "lookups es3 = []" "sent send es3 = []"
        using connected_run [OF con(1) [unfolded tcp]] by simp_all
      note quiet3 = settles_quiet [OF conjunct1 [OF emitsD [OF connect_settles con(1)]]]
      have distinct: "tcp \<noteq> send" "tcp \<noteq> recv"
        using fresh [of a tcp] con3(1) by (auto simp: es)
      have "sent send es4 = MAGIC @ [VERSION, reply_code_u8 Succeeded, hi, lo] @ back"
        using accepted rd sent2(1) con3(3) by (simp add: es)
      note served = serve_transcript [OF con(2) [unfolded tcp option.case] distinct this]
      show ?thesis
        unfolding server_transcript_def es
        using rd req sent2(2,3) con3(1,2) served quiet2 quiet3 distinct
        by (intro exI [of _ req] exI [of _ a] exI [of _ tcp]) simp
    next
      case (failed e)
      then have "declined send rest2"
        by (intro connect_declined [OF failed(1)]) simp
      with declined_not_accepted [OF declined_more [of send "es1 @ es2"]] rd sent2 accepted show ?thesis
        by (auto simp: ran(3) res(3))
    next
      case hung
      then have "declined send rest2"
        by (intro connect_declined [OF hung(1)]) simp
      with declined_not_accepted [OF declined_more [of send "es1 @ es2"]] rd sent2 accepted show ?thesis
        by (auto simp: ran(3) res(3))
    qed
  next
    case (failed e)
    then have "declined send rest1"
      by (intro resolve_declined [OF failed(1)]) simp
    with declined_not_accepted [OF declined_more [of send es1]] rd accepted show ?thesis
      by (auto simp: ran(3))
  next
    case hung
    then have "declined send rest1"
      by (intro resolve_declined [OF hung(1)]) simp
    with declined_not_accepted [OF declined_more [of send es1]] rd accepted show ?thesis
      by (auto simp: ran(3))
  qed
next
  case (failed e)
  with tunnel_request_transcript [OF failed(1)] accepted show ?thesis
    by (simp add: MAGIC_def)
next
  case hung
  with tunnel_request_transcript [OF hung(1)] accepted show ?thesis
    by (simp add: MAGIC_def)
qed

section \<open>The tunnel\<close>

text \<open>C1: the SOCKS tunnel is transparent, at any moment. Take any run of a client session that has begun to
  relay, completed or not, and any run of the exit server's session on the other end of its stream, where each has
  received what the other sent except for what is still on its way. Then the application sent a greeting that offers no
  authentication and a well-formed request; the exit server has resolved that very request under its policy and connected
  to the one address it resolves to; every byte the application sent after its request has reached the target or is on
  its way, in order; and behind the answers to greeting and request the application has received what the target sent,
  but for what is on its way back.\<close>

theorem socks_tunnel_transparent:
  assumes "handle_socks_connection E sched local t1 t2 w = (r, w1, es)"
    and "fresh_streams local es" and "opens es = [Done (send, recv)]" and "copies es"
    and "handle_tunnel_stream F sched2 s k config v = (q, v1, fs)" and "s \<noteq> k"
    and "\<And>a tcp. (a, Done tcp) \<in> set (connects fs) \<Longrightarrow> tcp \<noteq> s \<and> tcp \<noteq> k"
    and "sent send es = received k fs @ to_server" and "sent s fs = received recv es @ to_client"
  shows "\<exists>methods req a tcp. 0x00 \<in> set methods \<and> wf_request req \<and>
    resolution req (allow_private_targets config) (lookups fs) = Inr a \<and> connects fs = [(a, Done tcp)] \<and>
    received local es = greeting_bytes methods @ socks_request_bytes req @ sent tcp fs @ to_server \<and>
    [0x05, 0x00] @ socks_reply Succeeded @ received tcp fs = sent local es @ to_client"
proof -
  have "client_transcript local es"
    using client_session_transcript [OF assms(1,4)] fresh_streamsD [OF assms(2)] by blast
  with assms(3) obtain methods req up hi lo down where client: "0x00 \<in> set methods" "wf_request req"
    "received local es = greeting_bytes methods @ socks_request_bytes req @ up"
    "sent send es = tunnel_request_bytes req @ up"
    "received recv es = MAGIC @ [VERSION, reply_code_u8 Succeeded, hi, lo] @ down"
    "sent local es = [0x05, 0x00] @ socks_reply Succeeded @ down"
    by (auto simp: client_transcript_def)
  have accepted: "sent s fs = MAGIC @ [VERSION, reply_code_u8 Succeeded, hi, lo] @ (down @ to_client)"
    using assms(9) client(5) by simp
  from assms(7) have "server_transcript (allow_private_targets config) k (down @ to_client) fs"
    by (intro server_session_transcript [OF assms(5,6) _ accepted])
  then obtain req' a tcp where server: "wf_request req'"
    "resolution req' (allow_private_targets config) (lookups fs) = Inr a" "connects fs = [(a, Done tcp)]"
    "received k fs = tunnel_request_bytes req' @ sent tcp fs" "down @ to_client = received tcp fs"
    by (auto simp: server_transcript_def)
  have "tunnel_request_bytes req @ up = tunnel_request_bytes req' @ (sent tcp fs @ to_server)"
    using assms(8) client(4) server(4) by simp
  from tunnel_wire.prefix_free [OF client(2) server(1) this] client server show ?thesis
    by (intro exI [of _ methods] exI [of _ req] exI [of _ a] exI [of _ tcp]) simp
qed

text \<open>In the instance the exit server is still at work: its relay has had two turns, and the target's bytes are on their way.\<close>

lemma tunnel_example_run:
  "\<exists>v1 fs. handle_tunnel_stream loop_env [True, False] 1 2 example_config (example_world example_target) = (Hang, v1, fs) \<and>
    connects fs = [(SocketAddr (V4 example_target) 80, Done 3)] \<and>
    received 2 fs = tunnel_request_bytes socks_example_request @ ascii ''hi'' \<and>
    sent 1 fs = tunnel_response_bytes Succeeded @ ascii ''yo!''"
  by (simp add: session_eval tunnel_response_bytes_def socks_example_request_def)

theorem socks_tunnel_transparent_witness:
  "\<exists>w1 es v1 fs methods req a tcp.
    handle_socks_connection loop_env (relay_schedule @ [True, False]) 3 0 0 socks_example_world = (Done (), w1, es) \<and>
    handle_tunnel_stream loop_env [True, False] 1 2 example_config (example_world example_target) = (Hang, v1, fs) \<and>
    connects fs = [(a, Done tcp)] \<and>
    received 3 es = greeting_bytes methods @ socks_request_bytes req @ sent tcp fs \<and>
    sent 3 es = [0x05, 0x00] @ socks_reply Succeeded @ received tcp fs"
proof -
  obtain w1 es where client: "handle_socks_connection loop_env (relay_schedule @ [True, False]) 3 0 0 socks_example_world =
      (Done (), w1, es)" and op: "opens es = [Done (1, 2)]" and cp: "copies es"
    and up: "sent 1 es = tunnel_request_bytes socks_example_request @ ascii ''hi''"
    and down: "received 2 es = tunnel_response_bytes Succeeded @ ascii ''yo!''"
    by (simp add: socks_session_eval socks_reply_def tunnel_request_bytes_def)
  obtain v1 fs where server: "handle_tunnel_stream loop_env [True, False] 1 2 example_config (example_world example_target) =
      (Hang, v1, fs)" and con: "connects fs = [(SocketAddr (V4 example_target) 80, Done 3)]"
    and got: "received 2 fs = tunnel_request_bytes socks_example_request @ ascii ''hi''"
    and gave: "sent 1 fs = tunnel_response_bytes Succeeded @ ascii ''yo!''"
    using tunnel_example_run by blast
  have fresh: "fresh_streams 3 es"
    by (simp add: fresh_streams_def op)
  have "\<exists>methods req a tcp. 0x00 \<in> set methods \<and> wf_request req \<and>
      resolution req (allow_private_targets example_config) (lookups fs) = Inr a \<and> connects fs = [(a, Done tcp)] \<and>
      received 3 es = greeting_bytes methods @ socks_request_bytes req @ sent tcp fs @ [] \<and>
      [0x05, 0x00] @ socks_reply Succeeded @ received tcp fs = sent 3 es @ []"
  proof (rule socks_tunnel_transparent [OF client fresh op cp server])
    show "sent 1 es = received 2 fs @ []" "sent 1 fs = received 2 es @ []"
      using up down got gave by simp_all
  qed (auto simp: con)
  then obtain methods req a tcp where "connects fs = [(a, Done tcp)]"
    "received 3 es = greeting_bytes methods @ socks_request_bytes req @ sent tcp fs"
    "sent 3 es = [0x05, 0x00] @ socks_reply Succeeded @ received tcp fs"
    by auto
  with client server show ?thesis
    by blast
qed

end
