(* ===== verification/Spec2Isabelle.thy ===== *)
theory Spec2Isabelle
  imports Startup RouteLog HealthCheck SocksTunnel
begin

text \<open>
  A verification development for tunnelAI: two tunnels over iroh's QUIC connections, and the four programs at
  their ends. File names are those under \<open>src/\<close> of the repository's crate.

  \<^bold>\<open>The program.\<close> In the SOCKS tunnel the local client (\<open>client.rs\<close>) speaks SOCKS5 with an application
  (\<open>socks5.rs\<close>), opens a stream of the iroh connection for each session and sends a request over it
  (\<open>tunnel.rs\<close>); the exit server (\<open>server.rs\<close>) reads the request, resolves its target under a policy,
  connects, answers, and both ends relay bytes (\<open>copy.rs\<close>). In the OpenAI tunnel the local client
  (\<open>openai/client_handler.rs\<close>) takes one HTTP request from an application (\<open>http.rs\<close>), opens a stream through a
  shared connection that is dialled again when it fails (\<open>openai/connection.rs\<close>), and copies the response
  back; the proxy server (\<open>openai/server_handler.rs\<close>) parses the request, answers health checks, and sends
  everything else to its provider (\<open>openai/url.rs\<close>). The accept loops of all four admit connections and streams
  by the permits of semaphores. \<open>cli.rs\<close>, \<open>openai/config.rs\<close> and \<open>iroh_endpoint.rs\<close> hold what the
  programs start with, \<open>route_logging.rs\<close> what they log of a connection's paths.

  \<^bold>\<open>Theories.\<close>
  \<^item> \<open>Prelude\<close>, \<open>StepSystems\<close>, \<open>RustStd\<close>, \<open>RustNet\<close>: shared ground. Machine integers, reachable states and invariants, and
    the parts of Rust's standard library that the code computes with.
  \<^item> \<open>Effects\<close>, \<open>Logic\<close>, \<open>Wire\<close>, \<open>HttpCalls\<close>, \<open>Loopback\<close>: an \<open>async\<close> function is an act over an environment
    of operations; how acts are reasoned about; wire formats as parsers and codecs; a concrete environment.
  \<^item> \<open>Socks5\<close> (\<open>socks5.rs\<close>), \<open>Tunnel\<close> (\<open>tunnel.rs\<close>), \<open>TargetPolicy\<close> (the policy in \<open>server.rs\<close>), \<open>Relay\<close> (\<open>copy.rs\<close> and
    the two relay functions), \<open>ExitServer\<close> (\<open>handle_tunnel_stream\<close> of \<open>server.rs\<close>), \<open>SocksClient\<close>
    (\<open>handle_socks_connection\<close> of \<open>client.rs\<close>), \<open>SocksTunnel\<close> (both ends of the SOCKS tunnel together).
  \<^item> \<open>HttpHead\<close> and \<open>HttpMessage\<close> (\<open>http.rs\<close>, reading and writing), \<open>OpenAiConfig\<close> (\<open>openai/config.rs\<close>, \<open>cli.rs\<close>),
    \<open>ProviderUrl\<close> (\<open>openai/url.rs\<close>), \<open>ConnManager\<close> (\<open>openai/connection.rs\<close>), \<open>OpenAiServer\<close>
    (\<open>openai/server_handler.rs\<close>), \<open>OpenAiClient\<close> (\<open>openai/client_handler.rs\<close>), \<open>HealthCheck\<close> (its health check with
    the server's answer).
  \<^item> \<open>Admission\<close> (the accept loops of \<open>server.rs\<close>, \<open>client.rs\<close> and the two OpenAI handlers), \<open>Identity\<close> (the identity
    file of \<open>iroh_endpoint.rs\<close>), \<open>Startup\<close> (\<open>main.rs\<close>, the endpoints, and \<open>start_*\<close>, \<open>run*\<close> and \<open>shutdown\<close> of the four
    programs), \<open>RouteLog\<close> (\<open>route_logging.rs\<close>).
  \<^item> This theory: what a request brings about from end to end of each tunnel.

  \<^bold>\<open>State and operations.\<close> A struct is a record with the struct's fields under a prefix, an enum a datatype, an
  \<open>anyhow\<close> or typed error an outcome \<open>Fail\<close>, a timeout that elapses \<open>Elapsed\<close>. A function of the code is a
  definition of the same name, one \<open>andthen\<close> for each \<open>await\<close> with \<open>?\<close>. Every call to the network is an
  event of the run, so that a theorem can say what was sent, received, looked up or connected to. Code that
  shares state between tasks is modelled by its steps: \<open>mgr_step\<close> for the connection manager, \<open>server_step\<close> and
  \<open>listener_step\<close> for the accept loops, a schedule for the two halves of a relay, and every intermediate
  state of the file system for the identity file.

  \<^bold>\<open>What is shown.\<close> Codecs: the round trips of both wire formats and of the key's text, and that each reader accepts
  exactly its format however the bytes arrive. Handlers: each session is compared with a specification that says how
  it ends (\<open>session_outcome\<close>, \<open>openai_session_outcome\<close>, \<open>openai_client_outcome\<close>, \<open>socks_session_outcome\<close>); and safety,
  whatever the peers do: no forged success, no target or provider request but the ones allowed, and exactly
  the request that was asked for. Compositions: the SOCKS tunnel passes on, at any moment, exactly what application and
  target send each other (\<open>socks_tunnel_transparent\<close>), an API request and its answer cross the OpenAI tunnel unchanged
  (\<open>openai_end_to_end\<close>), and a health check does not call a working server unhealthy. Concurrency: invariants of the manager and of the limits in every reachable
  state, and that the calls of the manager can all be brought to their end. Endings: relays and response copies
  complete on streams that end. Programs: a start is complete or nothing, a run stops what it started. Several
  theorems state behaviour that the repository's own comments, tests or README do not expect; they are the ones
  named in the findings that accompany the development.

  \<^bold>\<open>Parameters and interfaces.\<close> tokio, iroh, httparse, the header types, reqwest with its URLs, the resolver, the
  file system and the semaphore are not part of the repository: they are records of operations, arbitrary
  functions. Where a theorem relies on what they document, that is a locale: \<open>byte_source\<close> and
  \<open>buffered_source\<close> (reads deliver a stream's bytes in order), \<open>ending_streams\<close> (copies and closes that do not stay
  pending for ever), \<open>finite_stream\<close> and \<open>provider_stream\<close> (finitely many bytes to come), \<open>semaphore\<close>, \<open>file_system\<close>
  (which says nothing of \<open>exists\<close>: it may miss a file that is there); or a named predicate, as
  \<open>reads_health_request\<close> and \<open>joins_absolute_urls\<close>. Each locale is interpreted on the concrete environment the witnesses
  run in, \<open>ending_streams\<close> also on one whose polls are pending at first. \<open>wire_format\<close> and
  \<open>wire_codec\<close>, \<open>invariant_of\<close> and \<open>settling\<close> are interfaces inside the development, interpreted on the formats and
  the step relations of the code.

  \<^bold>\<open>Loops and bounds.\<close> The loops over a head or a line end by the limits of \<open>http.rs\<close>: they are total functions
  with a measure. The reconnects of a call end by their counter. Loops that only a peer can end take fuel, or for a
  relay a schedule, and one that runs out is still running, \<open>Hang\<close>; \<open>response_copy_faithful\<close>, \<open>provider_response_completes\<close> and
  \<open>tunnel_relay_completes\<close> show how much is enough: one turn more than there are chunks to come, and for each half of a
  relay two turns more than its copy and its close can take. The
  accept loops and the health check loop are endless in the code, and are taken for any finite sequence of inputs or ticks.

  \<^bold>\<open>Not modelled.\<close> What is printed and logged by the handlers (the records of the route log are modelled, not the places
  that write them); the set-up of tracing and the parser that clap derives; the tests in \<open>http.rs\<close>; the
  \<open>Display\<close> of a target, used in logs only; the enum of \<open>error.rs\<close> and the wrappers \<open>TunnelRequest\<close> and
  \<open>TunnelResponse\<close>, which no code uses; the re-exports of \<open>lib.rs\<close> and \<open>openai/mod.rs\<close>; and the
  parts of the runtime that are not visible to the code, such as buffers inside a stream; and two starts at
  the same time on one identity file.
\<close>

section \<open>From end to end\<close>

lemma tunnel_request_arrives:
  assumes "byte_source F coming" and "coming v k = tunnel_request_bytes req @ rest" and "wf_request req"
  shows "\<exists>w2 es2. read_request F k (op_deadline F d v) = (Done req, w2, es2)"
proof -
  obtain r w2 es2 where rd: "read_request F k (op_deadline F d v) = (r, w2, es2)"
    by (rule act_run)
  have "coming (op_deadline F d v) k = tunnel_request_bytes req @ rest"
    using assms by (simp add: byte_source.deadline_keeps)
  with decodes_result(1) [OF byte_source.read_request_decodes [OF assms(1)] rd, of req] assms(3) rd show ?thesis
    by (auto simp: tunnel_wire.parsed_iff)
qed

text \<open>C2: a SOCKS session across the tunnel. Take a session of the local client that told its application
  \<open>Succeeded\<close>, and any run of the exit server on a stream that delivers what the client sent. Then the application sent
  a greeting that offers no authentication, and one request; the exit server resolves that very
  request, under its own policy, and nothing else; it connects to no address if that refuses, and otherwise to
  the one resolved address.\<close>

theorem socks_end_to_end:
  assumes "byte_source E pending"
    and "handle_socks_connection E sched local t1 t2 w = (r, w1, es)" and "fresh_streams local es"
    and "SocksClient.opens es = [Done (send, recv)]" and "socks_reply Succeeded \<in> set (writes local es)"
    and "byte_source F coming" and "coming v k = sent send es @ rest"
    and "handle_tunnel_stream F sched2 s k config v = (q, v1, fs)"
  shows "\<exists>methods req more. 0x00 \<in> set methods \<and> wf_request req \<and>
    pending w local = greeting_bytes methods @ socks_request_bytes req @ more \<and>
    (case resolution req (allow_private_targets config) (lookups fs) of
       Inl code \<Rightarrow> connects fs = []
     | Inr a \<Rightarrow> looks_up req fs \<and> (\<exists>attempted. connects fs = [(a, attempted)]))"
proof -
  have "\<not> unsuccessful local es"
    using assms(5) by (simp add: unsuccessful_def)
  with SocksClient.session_view [OF assms(2) fresh_streamsD [OF assms(3)]] obtain s1 r1 req status es0 es1
    where parts: "es = es0 @ es1" "status_asked local s1 r1 req status es0"
      "status_passed_on local s1 r1 status (r = Done ()) es1" and asked: "asked_for E local t1 w req"
    by blast
  then have "s1 = send"
    using assms(4) by (simp add: status_asked_def status_passed_on_def)
  then have sent: "coming v k = tunnel_request_bytes req @ sent send es1 @ rest"
    using parts assms(7) by (simp add: status_asked_def)
  note req = byte_source.asked_for_sent [OF assms(1) asked]
  obtain v2 gs where "read_request F k (op_deadline F (Some (tunnel_request_timeout config)) v) = (Done req, v2, gs)"
    using tunnel_request_arrives [OF assms(6) sent] req by blast
  from session_run [OF assms(8) this] req show ?thesis
    by (fastforce split: sum.splits)
qed

theorem socks_end_to_end_witness:
  "\<exists>w1 es v1 fs q methods req more.
    handle_socks_connection loop_env (relay_schedule @ [True, False]) 3 0 0 socks_example_world = (Done (), w1, es) \<and>
    handle_tunnel_stream loop_env relay_schedule 1 2 example_config (empty_world\<lparr>inbox := (\<lambda>_. sent 1 es @ [7])\<rparr>) = (q, v1, fs) \<and>
    inbox socks_example_world 3 = greeting_bytes methods @ socks_request_bytes req @ more \<and> length (connects fs) \<le> 1"
proof -
  obtain w1 es where run: "handle_socks_connection loop_env (relay_schedule @ [True, False]) 3 0 0 socks_example_world =
      (Done (), w1, es)" and op: "SocksClient.opens es = [Done (1, 2)]" and cp: "copies es"
    using socks_example_run by blast
  have fresh: "fresh_streams 3 es"
    by (simp add: fresh_streams_def op)
  have "\<not> unsuccessful 3 es"
    using cp by (simp add: unsuccessful_def)
  with SocksClient.session_view [OF run fresh_streamsD [OF fresh]] cp have told: "socks_reply Succeeded \<in> set (writes 3 es)"
    by (auto simp: status_asked_def status_passed_on_def)
  obtain q v1 fs where server: "handle_tunnel_stream loop_env relay_schedule 1 2 example_config
      (empty_world\<lparr>inbox := (\<lambda>_. sent 1 es @ [7])\<rparr>) = (q, v1, fs)"
    by (rule act_run)
  have "inbox (empty_world\<lparr>inbox := (\<lambda>_. sent 1 es @ [7])\<rparr>) 2 = sent 1 es @ [7]"
    by simp
  from socks_end_to_end [OF loop_source.byte_source_axioms run fresh op told loop_source.byte_source_axioms this server]
    run server show ?thesis
    by (fastforce split: sum.splits)
qed

text \<open>C3: an API request across the tunnel. Take a completed session of the OpenAI proxy client that opened a stream and did not
  have to answer 504 itself, and any run of the OpenAI proxy server on a stream that delivers what the client
  sent. Then the application's bytes begin with one request, a head and a body of the declared
  length; that request, no less and no more, decides what the server does: its verdict is an answer of its own
  without a word to the provider, or exactly one request to the provider. What the client received on the stream is
  what its application received: if that is everything a completed server session sent, the application has got the
  server's own answer, or the answer that the provider's reaction calls for, its response re-framed.\<close>

theorem openai_end_to_end:
  assumes "buffered_source E pending stops"
    and "handle_openai_client_stream fuel L E local_read lw cconfig w = (Done (), w1, es)"
    and "ConnManager.opens es = before @ [(conn, Done (send, recv))]" and "\<not> timed_out_locally lw es"
    and "send \<noteq> lw" and "recv \<noteq> lw" and "recv \<noteq> local_read"
    and "buffered_source F coming ends" and "coming v k = sent send es @ rest" and "lib_http L' = L"
    and "handle_openai_stream fuel' L' F s k config v = (q, v1, fs)"
  shows "\<exists>head p bytes more. pending w local_read = head @ bytes @ more \<and> parse_http_head L head = Inr p \<and>
    length bytes = (if has_chunked_body p then 0 else wanted p) \<and>
    (case verdict_of L' config (if has_chunked_body p then Fail UnsupportedChunked else Done (request_of p bytes)) of
       Answer code why text \<Rightarrow> provider_sends fs = [] \<and>
         (q = Done () \<and> received recv es = sent s fs \<longrightarrow> sent lw es = plain_response_bytes code why text)
     | Forward built \<Rightarrow> \<exists>reaction. provider_sends fs = [(built, reaction)] \<and>
         (q = Done () \<and> received recv es = sent s fs \<longrightarrow> provider_answered L' s reaction fs \<and> sent lw es = sent s fs)) \<and>
    sent lw es = received recv es"
proof -
  let ?w = "op_deadline E (Some (oc_local_request_timeout cconfig)) w"
  let ?v = "op_deadline F (Some (os_request_read_timeout config)) v"
  obtain got w2 es2 where read: "read_one_local_http_request L E local_read ?w = (got, w2, es2)"
    by (rule act_run)
  note client = client_session_run [OF assms(2) read]
  obtain raw where raw: "got = Done raw" and forwarded: "session_forwarded local_read lw raw (send, recv) es"
    using client assms(3, 4) by (cases got) auto
  then have sent: "sent send es = raw" "sent lw es = received recv es"
    using assms(5-7) by (auto simp: session_forwarded_def)
  obtain got' v2 fs2 where remote: "read_http_request L F k ?v = (got', v2, fs2)"
    by (rule act_run)
  have coming: "coming ?v k = raw @ rest"
    using byte_source.deadline_keeps [OF buffered_source.axioms(1) [OF assms(8)]] assms(9) sent(1) by simp
  have pending: "pending ?w = pending w"
    using byte_source.deadline_keeps [OF buffered_source.axioms(1) [OF assms(1)]] .
  from local_request_reaches_remote [OF assms(1) read [unfolded raw] assms(8) coming remote] pending
  obtain more head p bytes where request: "pending w local_read = raw @ more" "raw = head @ bytes" "parse_http_head L head = Inr p"
    and body: "if has_chunked_body p then bytes = [] \<and> got' = Fail UnsupportedChunked
      else length bytes = wanted p \<and> got' = Done (request_of p bytes) \<and> coming v2 = (coming ?v)(k := rest)"
    by auto
  from body have body: "length bytes = (if has_chunked_body p then 0 else wanted p)"
      "got' = (if has_chunked_body p then Fail UnsupportedChunked else Done (request_of p bytes))"
    by (auto split: if_splits)
  have "read_http_request (lib_http L') F k ?v = (got', v2, fs2)"
    using remote assms(10) by simp
  from openai_session_run [OF assms(11) this] sent(2)
  have "case verdict_of L' config got' of
      Answer code why text \<Rightarrow> provider_sends fs = [] \<and>
        (q = Done () \<and> received recv es = sent s fs \<longrightarrow> sent lw es = plain_response_bytes code why text)
    | Forward built \<Rightarrow> \<exists>reaction. provider_sends fs = [(built, reaction)] \<and>
        (q = Done () \<and> received recv es = sent s fs \<longrightarrow> provider_answered L' s reaction fs \<and> sent lw es = sent s fs)"
    by (cases "verdict_of L' config got'") (auto simp: plainly_answered_def)
  note verdict = this [unfolded body(2)]
  show ?thesis
  proof (intro exI conjI)
    show "pending w local_read = head @ bytes @ more"
      using request(1, 2) by simp
  qed (fact request(3) body(1) verdict sent(2))+
qed

definition short_request_world :: loop_world where
  "short_request_world = empty_world
    \<lparr>inbox := (\<lambda>h. if h = 1 then [0x47, 0x0a, 0x0a] else if h = 4 then [0x48] else []),
     stream_end := (\<lambda>_. Stalled), new_connections := [Done 7], new_streams := [Done (3, 4)]\<rparr>"

lemma short_request_read:
  "\<exists>es. read_one_local_http_request (example_lib []) manager_loop_env 1 short_request_world =
    (Done [0x47, 0x0a, 0x0a], take_inbox 1 3 short_request_world, es) \<and> ConnManager.opens es = [] \<and> sent 2 es = []"
  unfolding read_one_local_http_request_def read_http_head_def read_limited_line_bytes_def
  by (subst read_line_loop.simps, subst read_head_loop.simps)
    (simp add: short_request_world_def manager_loop_sel loop_eval fill_buf_def consume_def loop_fill_buf_def
      loop_fill_chunk_def Let_def ends_with_single loop_buffer_def MAX_REQUEST_LINE_BYTES_def MAX_HEADER_BYTES_def
      read_limited_line_bytes_def read_line_loop.simps buffer_is_empty_def parse_eval numeral_3_eq_3)

lemma short_request_run:
  "\<exists>w1 es. handle_openai_client_stream 3 (example_lib []) manager_loop_env 1 2 openai_client_config_default
      short_request_world = (Done (), w1, es) \<and>
    ConnManager.opens es = [(7, Done (3, 4))] \<and> sent 2 es = [0x48]"
proof -
  obtain es where "read_one_local_http_request (example_lib []) manager_loop_env 1 short_request_world =
      (Done [0x47, 0x0a, 0x0a], take_inbox 1 3 short_request_world, es)" "ConnManager.opens es = []" "sent 2 es = []"
    using short_request_read by blast
  then show ?thesis
    unfolding handle_openai_client_stream_def read_local_openai_request_def
    by (simp add: short_request_world_def loop_eval manager_loop_sel open_bi_with_reconnect.simps manager_loop_connection
        open_openai_stream_def send_request_to_tunnel_def copy_tunnel_response_with_idle_timeout_def numeral_3_eq_3
        read_tunnel_response_chunk_def openai_client_config_default_def Let_def)
qed

theorem openai_end_to_end_witness:
  "\<exists>w1 es q v1 fs head bytes more.
    handle_openai_client_stream 3 (example_lib []) manager_loop_env 1 2 openai_client_config_default
      short_request_world = (Done (), w1, es) \<and>
    handle_openai_stream 3 (example_openai_lib\<lparr>lib_http := example_lib []\<rparr>) ending_env 1 2 example_openai_config
      (empty_world\<lparr>inbox := (\<lambda>_. sent 3 es @ [9])\<rparr>) = (q, v1, fs) \<and>
    inbox short_request_world 1 = head @ bytes @ more \<and> length (provider_sends fs) \<le> 1 \<and> received 4 es = [0x48]"
proof -
  let ?L = "example_openai_lib\<lparr>lib_http := example_lib []\<rparr>"
  obtain w1 es where run: "handle_openai_client_stream 3 (example_lib []) manager_loop_env 1 2 openai_client_config_default
      short_request_world = (Done (), w1, es)"
    and opened: "ConnManager.opens es = [] @ [(7, Done (3, 4))]" and wrote: "sent 2 es = [0x48]"
    using short_request_run by auto
  have answered: "\<not> timed_out_locally 2 es"
    by (simp add: plainly_answered_def wrote plain_response_bytes_def)
  let ?v = "empty_world\<lparr>inbox := (\<lambda>_. sent 3 es @ [9])\<rparr>"
  obtain q v1 fs where server: "handle_openai_stream 3 ?L ending_env 1 2 example_openai_config ?v = (q, v1, fs)"
    by (rule act_run)
  have "(3 :: nat) \<noteq> 2" "(4 :: nat) \<noteq> 2" "(4 :: nat) \<noteq> 1" "inbox ?v 2 = sent 3 es @ [9]" "lib_http ?L = example_lib []"
    by simp_all
  from openai_end_to_end [OF manager_source.buffered_source_axioms run opened answered this(1-3)
      ending_source.buffered_source_axioms this(4, 5) server]
  obtain head p bytes more where request: "inbox short_request_world 1 = head @ bytes @ more" "sent 2 es = received 4 es"
    and "length (provider_sends fs) \<le> 1"
    by (fastforce split: verdict.splits)
  with request wrote run server show ?thesis
    by auto
qed

end
